(* ===== verification/Prelude.thy ===== *)
theory Prelude
  imports Main "HOL-Library.Word" "HOL-Library.Char_ord" "HOL-Library.List_Lexorder"
    "HOL-Library.Monad_Syntax"
begin

text \<open>
  Shared vocabulary of the development: the machine integer and byte types of the C++ code,
  the ordered map that models \<^verbatim>\<open>std::map\<close>, generic facts about words, lists and
  folds, and two contracts used by several components:
  \<^item> \<open>ordered_map\<close>: what a client may rely on when it stores into and reads from a
    \<^verbatim>\<open>std::map\<close>;
  \<^item> \<open>injective_step\<close>: a state machine over an input stream whose single step loses neither
    the state nor the input, the reason why checksums and digests notice a changed element.
\<close>

unbundle bit_operations_syntax

named_theorems wf_simps \<open>well-formedness of the model's containers\<close>
named_theorems codec_simps \<open>reading back what a writer wrote\<close>

type_synonym u8 = "8 word"
type_synonym u16 = "16 word"
type_synonym u32 = "32 word"
type_synonym u64 = "64 word"
type_synonym bytes = "u8 list"

section \<open>Ordered maps\<close>

text \<open>
  A \<^verbatim>\<open>std::map\<close> is the list of its key-value pairs in increasing key order, which is the order
  of iteration. \<open>map_put\<close> is \<^verbatim>\<open>m[k] = v\<close>, \<open>map_emplace\<close> is
  \<^verbatim>\<open>m.emplace(k, v)\<close> (an existing key keeps its value), \<open>map_erase\<close> is
  \<^verbatim>\<open>m.erase(k)\<close> and \<open>map_find\<close> is \<^verbatim>\<open>m.find(k)\<close>.
\<close>

type_synonym ('k, 'v) omap = "('k \<times> 'v) list"

fun map_put :: "'k::linorder \<Rightarrow> 'v \<Rightarrow> ('k, 'v) omap \<Rightarrow> ('k, 'v) omap" where
  "map_put k v [] = [(k, v)]"
| "map_put k v (p # m) =
     (if fst p = k then (k, v) # m
      else if fst p < k then p # map_put k v m
      else (k, v) # p # m)"

fun map_emplace :: "'k::linorder \<Rightarrow> 'v \<Rightarrow> ('k, 'v) omap \<Rightarrow> ('k, 'v) omap" where
  "map_emplace k v [] = [(k, v)]"
| "map_emplace k v (p # m) =
     (if fst p = k then p # m
      else if fst p < k then p # map_emplace k v m
      else (k, v) # p # m)"

definition map_erase :: "'k \<Rightarrow> ('k, 'v) omap \<Rightarrow> ('k, 'v) omap" where
  "map_erase k m = filter (\<lambda>p. fst p \<noteq> k) m"

definition map_find :: "('k, 'v) omap \<Rightarrow> 'k \<Rightarrow> 'v option" where
  "map_find m k = map_of m k"

definition map_wf :: "('k::linorder, 'v) omap \<Rightarrow> bool" where
  "map_wf m = sorted_wrt (<) (map fst m)"

lemma map_find_Nil [simp]: "map_find [] k = None"
  by (simp add: map_find_def)

lemma map_find_Cons [simp]:
  "map_find (p # m) k = (if fst p = k then Some (snd p) else map_find m k)"
  by (cases p) (simp add: map_find_def)

lemma map_wf_Nil [simp, wf_simps]: "map_wf []"
  by (simp add: map_wf_def)

lemma map_wf_Cons [simp]:
  "map_wf (p # m) = ((\<forall>q \<in> set m. fst p < fst q) \<and> map_wf m)"
  by (auto simp: map_wf_def)

lemma map_find_put: "map_find (map_put k v m) k' = (if k' = k then Some v else map_find m k')"
  by (induction k v m rule: map_put.induct) auto

lemma set_map_put: "q \<in> set (map_put k v m) \<Longrightarrow> q = (k, v) \<or> q \<in> set m"
  by (induction k v m rule: map_put.induct) (auto split: if_splits)

lemma map_wf_put [simp, wf_simps]: "map_wf m \<Longrightarrow> map_wf (map_put k v m)"
  by (induction k v m rule: map_put.induct) (fastforce dest: set_map_put)+

lemma set_map_emplace: "q \<in> set (map_emplace k v m) \<Longrightarrow> q = (k, v) \<or> q \<in> set m"
  by (induction k v m rule: map_emplace.induct) (auto split: if_splits)

lemma map_wf_emplace [simp, wf_simps]: "map_wf m \<Longrightarrow> map_wf (map_emplace k v m)"
  by (induction k v m rule: map_emplace.induct) (fastforce dest: set_map_emplace)+

lemma map_find_emplace:
  "map_wf m \<Longrightarrow> map_find (map_emplace k v m) k' =
     (if k' = k \<and> map_find m k = None then Some v else map_find m k')"
proof (induction k v m rule: map_emplace.induct)
  case (2 k v p m)
  have "fst p > k \<Longrightarrow> map_wf (p # m) \<Longrightarrow> map_find m k = None"
    by (auto simp: map_find_def map_of_eq_None_iff)
  with "2" show ?case by auto
qed simp

lemma map_find_erase: "map_find (map_erase k m) k' = (if k' = k then None else map_find m k')"
  by (induction m) (auto simp: map_erase_def)

lemma map_wf_erase [simp, wf_simps]: "map_wf m \<Longrightarrow> map_wf (map_erase k m)"
  by (induction m) (auto simp: map_erase_def)

lemma map_find_Some_in_set: "map_find m k = Some v \<Longrightarrow> (k, v) \<in> set m"
  by (simp add: map_find_def map_of_SomeD)

lemma map_wf_distinct: "map_wf m \<Longrightarrow> distinct (map fst m)"
  by (simp add: map_wf_def strict_sorted_iff)

lemma map_find_of_set: "map_wf m \<Longrightarrow> (k, v) \<in> set m \<Longrightarrow> map_find m k = Some v"
  by (simp add: map_find_def map_wf_distinct)

text \<open>Appending a largest key is what storing keys in increasing order amounts to.\<close>

lemma map_emplace_append:
  "(\<forall>q \<in> set m. fst q < k) \<Longrightarrow> map_emplace k v m = m @ [(k, v)]"
  by (induction m) (auto dest: order_less_imp_not_eq)

lemma map_wf_append_Cons:
  "map_wf (m @ p # m') \<Longrightarrow> (\<forall>q \<in> set m. fst q < fst p)"
  by (auto simp: map_wf_def sorted_wrt_append)

locale ordered_map =
  fixes find :: "'m \<Rightarrow> 'k \<Rightarrow> 'v option"
    and put :: "'k \<Rightarrow> 'v \<Rightarrow> 'm \<Rightarrow> 'm"
    and wf :: "'m \<Rightarrow> bool"
    and empty :: 'm
  assumes find_put: "find (put k v m) k' = (if k' = k then Some v else find m k')"
    and find_empty: "find empty k = None"
    and wf_put: "wf m \<Longrightarrow> wf (put k v m)"
    and wf_empty: "wf empty"
begin

lemma find_put_same: "find (put k v m) k = Some v"
  by (simp add: find_put)

lemma find_put_other: "k' \<noteq> k \<Longrightarrow> find (put k v m) k' = find m k'"
  by (simp add: find_put)

lemma find_fold_put:
  "find (fold (\<lambda>k. put k v) ks m) k' = (if k' \<in> set ks then Some v else find m k')"
  by (induction ks arbitrary: m) (auto simp: find_put)

lemma wf_fold_put: "wf m \<Longrightarrow> wf (fold (\<lambda>x. put (f x) (g x)) xs m)"
  by (induction xs arbitrary: m) (auto intro: wf_put)

lemma find_fold_put_fun:
  "find (fold (\<lambda>x. put (f x) (g x)) xs empty) k \<noteq> None \<longleftrightarrow> k \<in> f ` set xs"
proof -
  have "find (fold (\<lambda>x. put (f x) (g x)) xs m) k \<noteq> None \<longleftrightarrow> k \<in> f ` set xs \<or> find m k \<noteq> None" for m
    by (induction xs arbitrary: m) (auto simp: find_put)
  then show ?thesis by (simp add: find_empty)
qed

end

interpretation om: ordered_map map_find map_put map_wf "[]"
  by unfold_locales (simp_all add: map_find_put)

section \<open>Streams of inputs that no step forgets\<close>

locale injective_step =
  fixes step :: "'s \<Rightarrow> 'a \<Rightarrow> 's"
  assumes inj_state: "step s a = step t a \<Longrightarrow> s = t"
    and inj_input: "step s a = step s b \<Longrightarrow> a = b"
begin

lemma foldl_inj: "foldl step s xs = foldl step t xs \<Longrightarrow> s = t"
  by (induction xs arbitrary: s t) (auto dest: inj_state)

lemma foldl_one_change:
  "foldl step s (pre @ a # post) = foldl step s (pre @ b # post) \<Longrightarrow> a = b"
  by (auto dest!: foldl_inj inj_input)

lemma foldl_one_change_iff:
  "foldl step s (pre @ a # post) = foldl step s (pre @ b # post) \<longleftrightarrow> a = b"
  using foldl_one_change by blast

end

section \<open>Grouping\<close>

text \<open>Two ordered maps with the same contents are the same list.\<close>

lemma map_wf_ext:
  "map_wf m \<Longrightarrow> map_wf m' \<Longrightarrow> (\<forall>k. map_find m k = map_find m' k) \<Longrightarrow> m = m'"
proof -
  assume wf: "map_wf m" "map_wf m'" and eq: "\<forall>k. map_find m k = map_find m' k"
  have d: "sorted (map fst m)" "distinct (map fst m)" "sorted (map fst m')" "distinct (map fst m')"
    using wf by (simp_all add: map_wf_def strict_sorted_iff)
  have "map_of m = map_of m'" using eq by (auto simp: map_find_def)
  then have "set m = set m'" using d map_of_inject_set by blast
  moreover have "inj_on fst (set m)" using d by (simp add: distinct_map)
  ultimately show "m = m'" using map_sorted_distinct_set_unique [of fst m m'] d by simp
qed

text \<open>\<^verbatim>\<open>m[k].push_back(v)\<close>.\<close>

definition map_push :: "'k::linorder \<Rightarrow> 'v \<Rightarrow> ('k, 'v list) omap \<Rightarrow> ('k, 'v list) omap" where
  "map_push k v m = map_put k ((case map_find m k of None \<Rightarrow> [] | Some vs \<Rightarrow> vs) @ [v]) m"

lemma map_wf_push [simp, wf_simps]: "map_wf m \<Longrightarrow> map_wf (map_push k v m)"
  by (simp add: map_push_def)

text \<open>Pushing a list of elements by key leaves under each key its elements in order.\<close>

lemma map_find_push_fold:
  "map_find (foldl (\<lambda>m e. map_push (f e) e m) m es) k =
     (if filter (\<lambda>e. f e = k) es = [] then map_find m k
      else Some ((case map_find m k of None \<Rightarrow> [] | Some vs \<Rightarrow> vs) @ filter (\<lambda>e. f e = k) es))"
proof (induction es arbitrary: m)
  case (Cons e es)
  have step: "map_find (map_push (f e) e m) k =
      (if f e = k then Some ((case map_find m k of None \<Rightarrow> [] | Some vs \<Rightarrow> vs) @ [e]) else map_find m k)"
    by (auto simp: map_push_def map_find_put)
  show ?case
    using step by (cases "f e = k") (simp_all add: Cons)
qed simp

lemma map_wf_push_fold: "map_wf m \<Longrightarrow> map_wf (foldl (\<lambda>m e. map_push (f e) e m) m es)"
  by (induction es arbitrary: m) simp_all

lemma push_fold_Nil:
  "map_find (foldl (\<lambda>m e. map_push (f e) e m) [] es) k =
     (if k \<in> f ` set es then Some (filter (\<lambda>e. f e = k) es) else None)"
  by (auto simp: map_find_push_fold filter_empty_conv)

lemma set_map_of_find: "map_wf m \<Longrightarrow> (k, v) \<in> set m \<longleftrightarrow> map_find m k = Some v"
  using map_find_of_set map_find_Some_in_set by metis

lemma foldl_if_filter: "foldl (\<lambda>m e. if P e then g m e else m) m es = foldl g m (filter P es)"
  by (induction es arbitrary: m) simp_all

section \<open>Facts about words\<close>

lemma unat_u32_lt: "unat (w :: u32) < 2 ^ 32"
  using unsigned_less [of w] by simp

lemma unat_u64_lt: "unat (w :: u64) < 2 ^ 64"
  using unsigned_less [of w] by simp

text \<open>
  A word is the disjunction of its digits in base \<open>2 ^ m\<close>; \<open>join_digit\<close> adds the digit at
  position \<open>n\<close> to the lower ones.
\<close>

lemma join_digit:
  "push_bit n (take_bit m (drop_bit n w)) OR take_bit n w = take_bit (n + m) w"
  for w :: "'a::len word"
proof (rule bit_word_eqI)
  fix k
  assume "k < LENGTH('a)"
  then show "bit (push_bit n (take_bit m (drop_bit n w)) OR take_bit n w) k
      = bit (take_bit (n + m) w) k"
    by (cases "k < n") (auto simp: bit_simps)
qed

lemma ucast_ucast_u8: "8 \<le> LENGTH('a) \<Longrightarrow> ucast (ucast w :: u8) = take_bit 8 w"
  for w :: "'a::len word"
  by (rule bit_word_eqI) (auto simp: bit_simps)

lemma take_bit_full: "LENGTH('a) \<le> n \<Longrightarrow> take_bit n w = w"
  for w :: "'a::len word"
  by (rule bit_word_eqI) (simp add: bit_simps)

section \<open>Numbers as text\<close>

text \<open>\<^verbatim>\<open>std::to_string\<close> of an unsigned integer.\<close>

fun show_nat :: "nat \<Rightarrow> string" where
  "show_nat n =
     (if n < 10 then [char_of (48 + n)] else show_nat (n div 10) @ [char_of (48 + n mod 10)])"

declare show_nat.simps [simp del]

end
