(* ===== verification/Identity.thy ===== *)
theory Identity
  imports Prelude
begin

text \<open>
  \<^verbatim>\<open>config.hpp\<close> and \<^verbatim>\<open>identity.hpp\<close>: the constants of the binary
  format, strongly typed 128-bit identities and monotonic generations. The tag of an identity is a
  phantom type parameter, so identities of different kinds have different HOL types, as the C++
  template instances have.
\<close>

section \<open>Configuration constants\<close>

definition kSchemaVersion :: u32 where "kSchemaVersion = 1"

definition kCodecEndianMarker :: u8 where "kCodecEndianMarker = 0xBE"

definition kLedgerMagic :: u64 where "kLedgerMagic = 0x494C45444745524B"

definition kIdentityBytes :: nat where "kIdentityBytes = 16"

section \<open>Identities\<close>

datatype 'tag id128 = Id128 (id_hi: u64) (id_lo: u64)

text \<open>The default constructor and the one from a seed.\<close>

definition id_default :: "'tag id128" where
  "id_default = Id128 0 0"

definition id_of_seed :: "u64 \<Rightarrow> 'tag id128" where
  "id_of_seed seed = Id128 0 seed"

definition is_zero :: "'tag id128 \<Rightarrow> bool" where
  "is_zero x = (id_hi x = 0 \<and> id_lo x = 0)"

text \<open>Eight big-endian bytes starting at offset \<open>k\<close>, and their writer.\<close>

definition be64_at :: "bytes \<Rightarrow> nat \<Rightarrow> u64" where
  "be64_at p k =
     push_bit 56 (ucast (p ! k)) OR push_bit 48 (ucast (p ! (k + 1))) OR
     push_bit 40 (ucast (p ! (k + 2))) OR push_bit 32 (ucast (p ! (k + 3))) OR
     push_bit 24 (ucast (p ! (k + 4))) OR push_bit 16 (ucast (p ! (k + 5))) OR
     push_bit 8 (ucast (p ! (k + 6))) OR ucast (p ! (k + 7))"

definition be64_bytes :: "u64 \<Rightarrow> bytes" where
  "be64_bytes v =
     [ucast (drop_bit 56 v), ucast (drop_bit 48 v), ucast (drop_bit 40 v), ucast (drop_bit 32 v),
      ucast (drop_bit 24 v), ucast (drop_bit 16 v), ucast (drop_bit 8 v), ucast v]"

text \<open>\<open>from_bytes\<close> reads the 16 bytes at its pointer; the callers pass a buffer that has them.\<close>

definition from_bytes :: "bytes \<Rightarrow> 'tag id128" where
  "from_bytes p = Id128 (be64_at p 0) (be64_at p 8)"

definition to_bytes :: "'tag id128 \<Rightarrow> bytes" where
  "to_bytes x = be64_bytes (id_hi x) @ be64_bytes (id_lo x)"

definition hex_to_nibble :: "char \<Rightarrow> int" where
  "hex_to_nibble c =
     (let n = of_char c :: int
      in if 48 \<le> n \<and> n \<le> 57 then n - 48
         else if 97 \<le> n \<and> n \<le> 102 then n - 97 + 10
         else if 65 \<le> n \<and> n \<le> 70 then n - 65 + 10
         else - 1)"

primrec parse_loop :: "string \<Rightarrow> nat \<Rightarrow> u64 \<Rightarrow> u64 \<Rightarrow> 'tag id128 option" where
  "parse_loop [] i hi lo = Some (Id128 hi lo)"
| "parse_loop (c # cs) i hi lo =
     (let nib = hex_to_nibble c in
      if nib < 0 then None
      else let byte_index = i div 2;
               shift = (if i mod 2 = 0 then 4 else 0)
           in if byte_index < 8
              then parse_loop cs (Suc i)
                     (hi OR push_bit (56 - byte_index * 8 + shift) (word_of_int nib AND 0x0F)) lo
              else let lo_idx = byte_index - 8
                   in parse_loop cs (Suc i) hi
                        (lo OR push_bit (56 - lo_idx * 8 + shift) (word_of_int nib AND 0x0F)))"

definition parse :: "string \<Rightarrow> 'tag id128 option" where
  "parse hex = (if length hex \<noteq> 32 then None else parse_loop hex 0 0 0)"

definition kHex :: string where
  "kHex = ''0123456789abcdef''"

definition hex_of_bytes :: "bytes \<Rightarrow> string" where
  "hex_of_bytes buf =
     concat (map (\<lambda>b. [kHex ! unat (drop_bit 4 b AND 0x0F), kHex ! unat (b AND 0x0F)]) buf)"

definition id_to_string :: "'tag id128 \<Rightarrow> string" where
  "id_to_string x = hex_of_bytes (to_bytes x)"

definition combine :: "u64 \<Rightarrow> u64 \<Rightarrow> u64" where
  "combine hi lo = hi XOR (lo * 0x9E3779B97F4A7C15)"

definition id_hash :: "'tag id128 \<Rightarrow> u64" where
  "id_hash x = combine (id_hi x) (id_lo x)"

text \<open>The canonical total order: high half first, then the low half.\<close>

datatype strong_ordering = OrdLess | OrdEqual | OrdGreater

definition id_compare :: "'a id128 \<Rightarrow> 'a id128 \<Rightarrow> strong_ordering" where
  "id_compare a b =
     (if id_hi a < id_hi b then OrdLess
      else if id_hi b < id_hi a then OrdGreater
      else if id_lo a < id_lo b then OrdLess
      else if id_lo b < id_lo a then OrdGreater
      else OrdEqual)"

instantiation id128 :: (type) linorder
begin

definition less_id128 :: "'a id128 \<Rightarrow> 'a id128 \<Rightarrow> bool" where
  "less_id128 a b = (id_compare a b = OrdLess)"

definition less_eq_id128 :: "'a id128 \<Rightarrow> 'a id128 \<Rightarrow> bool" where
  "less_eq_id128 a b = (id_compare a b \<noteq> OrdGreater)"

instance
proof
  fix x y z :: "'a id128"
  show "(x < y) = (x \<le> y \<and> \<not> y \<le> x)"
    by (auto simp: less_id128_def less_eq_id128_def id_compare_def split: if_splits)
  show "x \<le> x" by (simp add: less_eq_id128_def id_compare_def)
  show "x \<le> y \<Longrightarrow> y \<le> z \<Longrightarrow> x \<le> z"
    by (auto simp: less_eq_id128_def id_compare_def split: if_splits)
  show "x \<le> y \<Longrightarrow> y \<le> x \<Longrightarrow> x = y"
    by (cases x; cases y) (auto simp: less_eq_id128_def id_compare_def split: if_splits)
  show "x \<le> y \<or> y \<le> x"
    by (auto simp: less_eq_id128_def id_compare_def split: if_splits)
qed

end

lemma id128_less_iff: "a < b \<longleftrightarrow> id_hi a < id_hi b \<or> id_hi a = id_hi b \<and> id_lo a < id_lo b" for a b :: "'a id128"
  by (auto simp: less_id128_def id_compare_def)

datatype request_id_tag = RequestIdTag
datatype tenant_id_tag = TenantIdTag
datatype workload_id_tag = WorkloadIdTag
datatype model_id_tag = ModelIdTag
datatype model_revision_id_tag = ModelRevisionIdTag
datatype adapter_id_tag = AdapterIdTag
datatype batch_id_tag = BatchIdTag
datatype attempt_id_tag = AttemptIdTag
datatype dispatch_id_tag = DispatchIdTag
datatype worker_id_tag = WorkerIdTag
datatype worker_boot_id_tag = WorkerBootIdTag
datatype node_id_tag = NodeIdTag
datatype device_id_tag = DeviceIdTag
datatype ledger_entry_id_tag = LedgerEntryIdTag
datatype ledger_id_tag = LedgerIdTag
datatype pricing_policy_id_tag = PricingPolicyIdTag
datatype accounting_policy_id_tag = AccountingPolicyIdTag
datatype coordinator_epoch_tag = CoordinatorEpochTag
datatype request_generation_tag = RequestGenerationTag
datatype attempt_generation_tag = AttemptGenerationTag
datatype accounting_generation_tag = AccountingGenerationTag

type_synonym request_id = "request_id_tag id128"
type_synonym tenant_id = "tenant_id_tag id128"
type_synonym workload_id = "workload_id_tag id128"
type_synonym model_id = "model_id_tag id128"
type_synonym model_revision_id = "model_revision_id_tag id128"
type_synonym adapter_id = "adapter_id_tag id128"
type_synonym batch_id = "batch_id_tag id128"
type_synonym attempt_id = "attempt_id_tag id128"
type_synonym dispatch_id = "dispatch_id_tag id128"
type_synonym worker_id = "worker_id_tag id128"
type_synonym worker_boot_id = "worker_boot_id_tag id128"
type_synonym node_id = "node_id_tag id128"
type_synonym device_id = "device_id_tag id128"
type_synonym ledger_entry_id = "ledger_entry_id_tag id128"
type_synonym ledger_id = "ledger_id_tag id128"
type_synonym pricing_policy_id = "pricing_policy_id_tag id128"
type_synonym accounting_policy_id = "accounting_policy_id_tag id128"

section \<open>Generations\<close>

datatype 'tag generation = Generation (gen_value: u64)

definition gen_default :: "'tag generation" where
  "gen_default = Generation 0"

definition gen_next :: "'tag generation \<Rightarrow> 'tag generation" where
  "gen_next g = Generation (gen_value g + 1)"

type_synonym coordinator_epoch = "coordinator_epoch_tag generation"
type_synonym request_generation = "request_generation_tag generation"
type_synonym attempt_generation = "attempt_generation_tag generation"
type_synonym accounting_generation = "accounting_generation_tag generation"

section \<open>Bytes and back\<close>

lemma length_be64_bytes [simp]: "length (be64_bytes v) = 8"
  by (simp add: be64_bytes_def)

lemma length_to_bytes [simp]: "length (to_bytes x) = 16"
  by (simp add: to_bytes_def)

lemma be64_roundtrip [codec_simps]: "be64_at (pre @ be64_bytes v @ post) (length pre) = v"
proof -
  have "push_bit 56 (take_bit 8 (drop_bit 56 v)) OR push_bit 48 (take_bit 8 (drop_bit 48 v)) OR
      push_bit 40 (take_bit 8 (drop_bit 40 v)) OR push_bit 32 (take_bit 8 (drop_bit 32 v)) OR
      push_bit 24 (take_bit 8 (drop_bit 24 v)) OR push_bit 16 (take_bit 8 (drop_bit 16 v)) OR
      push_bit 8 (take_bit 8 (drop_bit 8 v)) OR take_bit 8 v = take_bit 64 v"
    by (simp add: join_digit)
  then show ?thesis
    by (simp add: be64_at_def be64_bytes_def nth_append ucast_ucast_u8 take_bit_full)
qed

lemma from_to_bytes [simp, codec_simps]: "from_bytes (to_bytes x @ post) = x"
proof -
  have "be64_at (to_bytes x @ post) 0 = id_hi x"
    using be64_roundtrip [of "[]"] by (simp add: to_bytes_def)
  moreover have "be64_at (to_bytes x @ post) 8 = id_lo x"
    using be64_roundtrip [of "be64_bytes (id_hi x)"] by (simp add: to_bytes_def)
  ultimately show ?thesis by (simp add: from_bytes_def)
qed

lemma to_bytes_inj: "to_bytes x = to_bytes y \<Longrightarrow> x = y"
  using from_to_bytes [of x "[]"] from_to_bytes [of y "[]"] by simp

section \<open>Hexadecimal text and back\<close>

lemma hex_digit: "n < 16 \<Longrightarrow> hex_to_nibble (kHex ! n) = int n"
proof -
  have "\<forall>n \<in> set [0..<16]. hex_to_nibble (kHex ! n) = int n"
    by (simp add: upt_rec hex_to_nibble_def kHex_def)
  then show "n < 16 \<Longrightarrow> hex_to_nibble (kHex ! n) = int n" by simp
qed

lemma unat_low_nibble: "unat (b AND 0x0F :: u8) < 16"
proof -
  have "b AND 0x0F \<le> (0x0F :: u8)" by (rule word_and_le1)
  then show ?thesis by (simp add: word_le_nat_alt)
qed

lemma nibble_and: "x AND 0x0F = take_bit 4 x" for x :: "'a::len word"
  by (simp add: take_bit_eq_mask mask_eq_exp_minus_1)

lemma nibble_word:
  "word_of_int (int (unat (b AND 0x0F :: u8))) AND 0x0F = (ucast (take_bit 4 b) :: u64)"
proof -
  have "word_of_int (int (unat (b AND 0x0F))) = (ucast (b AND 0x0F) :: u64)"
    by (simp add: unsigned_def)
  then show ?thesis
    unfolding nibble_and by (simp, intro bit_word_eqI) (auto simp: bit_simps)
qed

lemma ucast_nibble:
  "ucast (take_bit 4 (ucast w :: u8)) = (take_bit 4 w :: u64)"
  "ucast (take_bit 4 (drop_bit 4 (ucast w :: u8))) = (take_bit 4 (drop_bit 4 w) :: u64)"
  by (rule bit_word_eqI, auto simp: bit_simps)+

lemma nibbles_join:
  "push_bit 60 (take_bit 4 (drop_bit 60 v)) OR push_bit 56 (take_bit 4 (drop_bit 56 v)) OR
   push_bit 52 (take_bit 4 (drop_bit 52 v)) OR push_bit 48 (take_bit 4 (drop_bit 48 v)) OR
   push_bit 44 (take_bit 4 (drop_bit 44 v)) OR push_bit 40 (take_bit 4 (drop_bit 40 v)) OR
   push_bit 36 (take_bit 4 (drop_bit 36 v)) OR push_bit 32 (take_bit 4 (drop_bit 32 v)) OR
   push_bit 28 (take_bit 4 (drop_bit 28 v)) OR push_bit 24 (take_bit 4 (drop_bit 24 v)) OR
   push_bit 20 (take_bit 4 (drop_bit 20 v)) OR push_bit 16 (take_bit 4 (drop_bit 16 v)) OR
   push_bit 12 (take_bit 4 (drop_bit 12 v)) OR push_bit 8 (take_bit 4 (drop_bit 8 v)) OR
   push_bit 4 (take_bit 4 (drop_bit 4 v)) OR take_bit 4 v = (v :: u64)"
  by (simp add: join_digit take_bit_full)

text \<open>One character of text is one step of the parser.\<close>

lemma hex_char:
  "hex_to_nibble (kHex ! unat (b AND 0x0F :: u8)) = int (unat (b AND 0x0F :: u8))"
  using unat_low_nibble by (rule hex_digit)

lemma parse_loop_char:
  "parse_loop (kHex ! unat (b AND 0x0F) # cs) i hi lo =
     (if i div 2 < 8
      then parse_loop cs (Suc i)
        (hi OR push_bit (56 - i div 2 * 8 + (if i mod 2 = 0 then 4 else 0)) (ucast (take_bit 4 b))) lo
      else parse_loop cs (Suc i) hi
        (lo OR push_bit (56 - (i div 2 - 8) * 8 + (if i mod 2 = 0 then 4 else 0)) (ucast (take_bit 4 b))))"
  for b :: u8
proof -
  have "\<not> int (unat (b AND 0x0F)) < 0" by simp
  then show ?thesis
    unfolding parse_loop.simps Let_def hex_char nibble_word by (simp only: if_False)
qed

lemma length_hex_of_bytes [simp]: "length (hex_of_bytes bs) = 2 * length bs"
  by (induction bs) (simp_all add: hex_of_bytes_def)

lemma parse_hex_of_bytes:
  "parse_loop (hex_of_bytes (be64_bytes hi @ be64_bytes lo)) 0 0 0 = Some (Id128 hi lo)"
  by (simp add: hex_of_bytes_def be64_bytes_def parse_loop_char ucast_nibble or.assoc nibbles_join
      del: parse_loop.simps(2))

lemma parse_to_string: "parse (id_to_string x) = Some x"
  by (simp add: parse_def id_to_string_def to_bytes_def parse_hex_of_bytes)

lemma parse_loop_None: "parse_loop cs i hi lo = None \<longleftrightarrow> (\<exists>c \<in> set cs. hex_to_nibble c < 0)"
  by (induction cs arbitrary: i hi lo) (auto simp: Let_def)

lemma parse_None:
  "parse hex = None \<longleftrightarrow> length hex \<noteq> 32 \<or> (\<exists>c \<in> set hex. hex_to_nibble c < 0)"
  by (simp add: parse_def parse_loop_None)

lemma id_to_string_inj: "id_to_string x = id_to_string y \<longleftrightarrow> x = y"
  by (metis option.inject parse_to_string)

section \<open>Properties\<close>

text \<open>An identity survives its text and its bytes: parsing the 32 hexadecimal digits it prints,
  and reading the 16 bytes it writes, give it back; and the parser accepts exactly the strings of
  32 hexadecimal digits.\<close>

theorem identity_roundtrip:
  "parse (id_to_string x) = Some x \<and> from_bytes (to_bytes x @ rest) = x \<and>
   (parse hex \<noteq> (None :: 'tag id128 option) \<longleftrightarrow>
      length hex = 32 \<and> list_all (\<lambda>c. 0 \<le> hex_to_nibble c) hex)"
  by (auto simp: parse_to_string parse_None list_all_iff not_less)

end
