(* ===== verification/Double.thy ===== *)
theory Double
  imports Prelude
begin

text \<open>
  The C++ type \<^verbatim>\<open>double\<close>: IEEE 754 binary64 with rounding to nearest, ties to even.
  A value is its 64-bit pattern. Every finite value is an integer multiple of \<open>2 ^ -1074\<close>, so
  the exact result of an operation is an integer or a quotient of integers in that unit, and the
  operation returns the rounded bit pattern. All definitions compute.

  The lower 63 bits (exponent and fraction) of a non-negative value grow with the value, so they
  serve as its \<^emph>\<open>magnitude\<close>; infinity is the magnitude \<open>inf_mag\<close>, larger ones are NaNs.
  The two facts the accounting proofs rest on are that rounding is exact on representable values
  (\<open>round_mag_exact\<close>) and monotone (\<open>round_mag_mono\<close>).
  An operation that yields a NaN yields the quiet NaN \<open>d_nan\<close>; nothing in the model reads a NaN's
  payload.
\<close>

section \<open>Bit patterns and values\<close>

datatype double = Dbl (dbl_bits: u64)

definition inf_mag :: nat where
  "inf_mag = 2047 * 2 ^ 52"

definition dsign :: "double \<Rightarrow> bool" where
  "dsign d = (2 ^ 63 \<le> unat (dbl_bits d))"

definition dmag :: "double \<Rightarrow> nat" where
  "dmag d = unat (dbl_bits d) mod 2 ^ 63"

definition mk_double :: "bool \<Rightarrow> nat \<Rightarrow> double" where
  "mk_double s m = Dbl (word_of_nat (m + (if s then 2 ^ 63 else 0)))"

definition isfinite :: "double \<Rightarrow> bool" where
  "isfinite d = (dmag d < inf_mag)"

definition isinf :: "double \<Rightarrow> bool" where
  "isinf d = (dmag d = inf_mag)"

definition isnan :: "double \<Rightarrow> bool" where
  "isnan d = (inf_mag < dmag d)"

definition d_zero :: double where
  "d_zero = mk_double False 0"

definition d_inf :: "bool \<Rightarrow> double" where
  "d_inf s = mk_double s inf_mag"

definition d_nan :: double where
  "d_nan = mk_double False (inf_mag + 2 ^ 51)"

text \<open>The value of a magnitude in units of \<open>2 ^ -1074\<close>: subnormal below \<open>2 ^ 52\<close>.\<close>

definition mag_val :: "nat \<Rightarrow> nat" where
  "mag_val n = (if n < 2 ^ 52 then n else (2 ^ 52 + n mod 2 ^ 52) * 2 ^ (n div 2 ^ 52 - 1))"

definition dval :: "double \<Rightarrow> int" where
  "dval d = (if dsign d then - int (mag_val (dmag d)) else int (mag_val (dmag d)))"

text \<open>One, in units of \<open>2 ^ -1074\<close>.\<close>

definition d_unit :: nat where
  "d_unit = 2 ^ 1074"

section \<open>Rounding\<close>

text \<open>
  \<open>scale i q\<close> is the number of low bits of \<open>q\<close> that do not fit into 53 bits, found by bisection;
  \<open>round_half_even a b\<close> rounds \<open>a / b\<close> to an integer; \<open>round_mag a b\<close> is the magnitude
  nearest to \<open>a / b\<close> units, with overflow to infinity.
\<close>

fun scale :: "nat \<Rightarrow> nat \<Rightarrow> nat" where
  "scale 0 q = 0"
| "scale (Suc i) q =
     (if 2 ^ (52 + 2 ^ i) \<le> q then 2 ^ i + scale i (q div 2 ^ (2 ^ i)) else scale i q)"

definition round_half_even :: "nat \<Rightarrow> nat \<Rightarrow> nat" where
  "round_half_even a b =
     (let q = a div b; r = a mod b
      in if 2 * r < b \<or> 2 * r = b \<and> even q then q else Suc q)"

definition round_mag :: "nat \<Rightarrow> nat \<Rightarrow> nat" where
  "round_mag a b =
     (if 2 ^ 2099 \<le> a div b then inf_mag
      else let k = scale 11 (a div b)
           in min inf_mag (k * 2 ^ 52 + round_half_even a (b * 2 ^ k)))"

section \<open>Operations\<close>

definition d_neg :: "double \<Rightarrow> double" where
  "d_neg a = mk_double (\<not> dsign a) (dmag a)"

definition round_int :: "int \<Rightarrow> double" where
  "round_int v = mk_double (v < 0) (round_mag (nat \<bar>v\<bar>) 1)"

definition d_add :: "double \<Rightarrow> double \<Rightarrow> double" where
  "d_add a b =
     (if isnan a \<or> isnan b \<or> isinf a \<and> isinf b \<and> dsign a \<noteq> dsign b then d_nan
      else if isinf a then a
      else if isinf b then b
      else if dval a + dval b = 0 then mk_double (dsign a \<and> dsign b) 0
      else round_int (dval a + dval b))"

definition d_sub :: "double \<Rightarrow> double \<Rightarrow> double" where
  "d_sub a b = d_add a (d_neg b)"

definition d_mul :: "double \<Rightarrow> double \<Rightarrow> double" where
  "d_mul a b =
     (if isnan a \<or> isnan b \<or> isinf a \<and> dmag b = 0 \<or> dmag a = 0 \<and> isinf b then d_nan
      else if isinf a \<or> isinf b then d_inf (dsign a \<noteq> dsign b)
      else mk_double (dsign a \<noteq> dsign b) (round_mag (mag_val (dmag a) * mag_val (dmag b)) d_unit))"

definition d_div :: "double \<Rightarrow> double \<Rightarrow> double" where
  "d_div a b =
     (if isnan a \<or> isnan b \<or> isinf a \<and> isinf b \<or> dmag a = 0 \<and> dmag b = 0 then d_nan
      else if isinf a \<or> dmag b = 0 then d_inf (dsign a \<noteq> dsign b)
      else if isinf b then mk_double (dsign a \<noteq> dsign b) 0
      else mk_double (dsign a \<noteq> dsign b) (round_mag (mag_val (dmag a) * d_unit) (mag_val (dmag b))))"

text \<open>Comparisons. \<open>dord\<close> orders all values but the NaNs; the two zeros compare equal.\<close>

definition dord :: "double \<Rightarrow> int" where
  "dord d = (if dsign d then - int (dmag d) else int (dmag d))"

definition d_lt :: "double \<Rightarrow> double \<Rightarrow> bool" where
  "d_lt a b = (\<not> isnan a \<and> \<not> isnan b \<and> dord a < dord b)"

definition d_le :: "double \<Rightarrow> double \<Rightarrow> bool" where
  "d_le a b = (\<not> isnan a \<and> \<not> isnan b \<and> dord a \<le> dord b)"

definition d_eq :: "double \<Rightarrow> double \<Rightarrow> bool" where
  "d_eq a b = (\<not> isnan a \<and> \<not> isnan b \<and> dord a = dord b)"

text \<open>\<^verbatim>\<open>std::max\<close>, \<^verbatim>\<open>std::fabs\<close> and \<^verbatim>\<open>std::floor\<close>.\<close>

definition d_max :: "double \<Rightarrow> double \<Rightarrow> double" where
  "d_max a b = (if d_lt a b then b else a)"

definition d_fabs :: "double \<Rightarrow> double" where
  "d_fabs a = mk_double False (dmag a)"

definition d_floor :: "double \<Rightarrow> double" where
  "d_floor d =
     (if isfinite d then
        mk_double (dsign d) (round_mag (nat \<bar>dval d div int d_unit\<bar> * d_unit) 1)
      else d)"

text \<open>Conversions: from an unsigned integer, and literals written as a quotient.\<close>

definition d_of_nat :: "nat \<Rightarrow> double" where
  "d_of_nat n = mk_double False (round_mag (n * d_unit) 1)"

definition d_of_u64 :: "u64 \<Rightarrow> double" where
  "d_of_u64 w = d_of_nat (unat w)"

definition d_frac :: "nat \<Rightarrow> nat \<Rightarrow> double" where
  "d_frac n m = mk_double False (round_mag (n * d_unit) m)"

text \<open>
  \<^verbatim>\<open>static_cast<std::uint64_t>(std::llround(x))\<close>: halfway cases away from zero. Outside the range
  of a signed 64-bit integer the C++ standard leaves the result unspecified; \<open>unspec\<close> stands for
  whatever the platform returns there.
\<close>

definition llround_int :: "double \<Rightarrow> int" where
  "llround_int d =
     (let n = int ((2 * mag_val (dmag d) + d_unit) div (2 * d_unit)) in if dsign d then - n else n)"

definition llround_u64 :: "(double \<Rightarrow> u64) \<Rightarrow> double \<Rightarrow> u64" where
  "llround_u64 unspec d =
     (if isfinite d \<and> - (2 ^ 63) \<le> llround_int d \<and> llround_int d < 2 ^ 63
      then word_of_int (llround_int d) else unspec d)"

text \<open>The literal \<^verbatim>\<open>1e-9\<close>.\<close>

definition d_1e_9 :: double where
  "d_1e_9 = Dbl 0x3E112E0BE826D695"

section \<open>Bit patterns\<close>

lemma inf_mag_lt: "inf_mag < 2 ^ 63"
  by (simp add: inf_mag_def)

lemma unat_word_of_nat_small: "n < 2 ^ 64 \<Longrightarrow> unat (word_of_nat n :: u64) = n"
  by (simp add: unat_of_nat take_bit_nat_eq_self)

lemma unat_mk: "m < 2 ^ 63 \<Longrightarrow>
    unat (dbl_bits (mk_double s m)) = m + (if s then 2 ^ 63 else 0)"
  unfolding mk_double_def double.sel by (subst unat_word_of_nat_small) simp_all

lemma dmag_mk [simp]: "m < 2 ^ 63 \<Longrightarrow> dmag (mk_double s m) = m"
  by (simp add: dmag_def unat_mk)

lemma dsign_mk [simp]: "m < 2 ^ 63 \<Longrightarrow> dsign (mk_double s m) = s"
  by (simp add: dsign_def unat_mk)

lemma dmag_lt: "dmag d < 2 ^ 63"
  by (simp add: dmag_def)

lemma mk_double_eta [simp]: "mk_double (dsign d) (dmag d) = d"
proof (cases d)
  case (Dbl w)
  have "unat w mod 2 ^ 63 + (if 2 ^ 63 \<le> unat w then 2 ^ 63 else 0) = unat w"
    using unat_u64_lt [of w] by (auto simp: mod_if)
  then show ?thesis
    by (simp add: Dbl mk_double_def dsign_def dmag_def)
qed

lemma double_eqI: "dsign a = dsign b \<Longrightarrow> dmag a = dmag b \<Longrightarrow> a = b"
  by (subst (1 2) mk_double_eta [symmetric]) simp

lemma isfinite_cases: "isfinite d \<or> isinf d \<or> isnan d"
  by (auto simp: isfinite_def isinf_def isnan_def)

lemma isfinite_not: "isfinite d \<Longrightarrow> \<not> isinf d \<and> \<not> isnan d"
  by (simp add: isfinite_def isinf_def isnan_def)

lemma zero_simps [simp]:
  "dmag d_zero = 0" "\<not> dsign d_zero" "isfinite d_zero" "dval d_zero = 0" "dord d_zero = 0"
  by (simp_all add: d_zero_def isfinite_def inf_mag_def dval_def mag_val_def dord_def)

section \<open>Rounding is exact on representable values and monotone\<close>

lemma scale_bounds:
  "q < 2 ^ (52 + 2 ^ i) \<Longrightarrow>
     q < 2 ^ (53 + scale i q) \<and> (scale i q = 0 \<or> 2 ^ (52 + scale i q) \<le> q)"
proof (induction i arbitrary: q)
  case 0
  then show ?case by simp
next
  case (Suc i)
  show ?case
  proof (cases "2 ^ (52 + 2 ^ i) \<le> q")
    case True
    define p where "p = (2::nat) ^ i"
    define q' where "q' = q div 2 ^ p"
    have e: "52 + 2 ^ Suc i = (52 + p) + p" by (simp add: p_def)
    have "q < 2 ^ (52 + p) * 2 ^ p"
      using Suc.prems unfolding e by (simp only: power_add)
    then have "q' < 2 ^ (52 + p)"
      by (simp add: q'_def less_mult_imp_div_less)
    then have IH: "q' < 2 ^ (53 + scale i q')" "scale i q' = 0 \<or> 2 ^ (52 + scale i q') \<le> q'"
      using Suc.IH [of q'] by (simp_all add: p_def)
    have "q < 2 ^ (53 + scale i q') * 2 ^ p"
      using IH(1) by (simp add: q'_def div_less_iff_less_mult)
    moreover have "2 ^ (52 + (p + scale i q')) \<le> q"
    proof (cases "scale i q' = 0")
      case False
      then have "2 ^ (52 + scale i q') * 2 ^ p \<le> q"
        using IH(2) by (simp add: q'_def less_eq_div_iff_mult_less_eq)
      then show ?thesis by (simp add: power_add mult_ac)
    qed (use True in \<open>simp add: p_def\<close>)
    moreover have "scale (Suc i) q = p + scale i q'"
      using True by (simp add: p_def q'_def)
    ultimately show ?thesis
      by (simp add: power_add mult_ac)
  next
    case False
    then show ?thesis using Suc.IH [of q] by simp
  qed
qed

lemma scale11:
  assumes "q < 2 ^ 2099"
  shows "q < 2 ^ (53 + scale 11 q)" and "scale 11 q = 0 \<or> 2 ^ (52 + scale 11 q) \<le> q"
proof -
  have "(2::nat) ^ 2099 \<le> 2 ^ (52 + 2 ^ 11)"
    by (rule power_increasing) simp_all
  with assms have "q < 2 ^ (52 + 2 ^ 11)" by (rule less_le_trans)
  from scale_bounds [OF this]
  show "q < 2 ^ (53 + scale 11 q)" and "scale 11 q = 0 \<or> 2 ^ (52 + scale 11 q) \<le> q"
    by blast+
qed

lemma scale11_le:
  assumes "q \<le> q'" and "q' < 2 ^ 2099"
  shows "scale 11 q \<le> scale 11 q'"
proof (rule ccontr)
  assume *: "\<not> ?thesis"
  from assms have "q < 2 ^ 2099" by simp
  from scale11(2) [OF this] * have "2 ^ (52 + scale 11 q) \<le> q'"
    using assms(1) by linarith
  also have "q' < 2 ^ (53 + scale 11 q')" by (rule scale11(1) [OF assms(2)])
  finally have "52 + scale 11 q < 53 + scale 11 q'"
    by (rule power_less_imp_less_exp [rotated]) simp
  with * show False by simp
qed

lemma scale11_unique:
  assumes "2 ^ (52 + k) \<le> q" and "q < 2 ^ (53 + k)" and "q < 2 ^ 2099"
  shows "scale 11 q = k"
proof -
  have "(2::nat) ^ (52 + k) < 2 ^ (53 + scale 11 q)"
    using assms(1) scale11(1) [OF assms(3)] by (rule le_less_trans)
  then have "k \<le> scale 11 q"
    using power_less_imp_less_exp [of "2::nat" "52 + k" "53 + scale 11 q"] by simp
  moreover have "scale 11 q = 0 \<or> scale 11 q \<le> k"
  proof -
    have "2 ^ (52 + scale 11 q) \<le> q \<Longrightarrow> (2::nat) ^ (52 + scale 11 q) < 2 ^ (53 + k)"
      using assms(2) by (rule le_less_trans [rotated])
    then show ?thesis
      using scale11(2) [OF assms(3)]
        power_less_imp_less_exp [of "2::nat" "52 + scale 11 q" "53 + k"] by auto
  qed
  ultimately show ?thesis by auto
qed

lemma scale11_small: "q < 2 ^ 53 \<Longrightarrow> scale 11 q = 0"
proof -
  assume q: "q < 2 ^ 53"
  have "(2::nat) ^ 53 \<le> 2 ^ 2099" by (rule power_increasing) simp_all
  with q have "q < 2 ^ 2099" by (rule less_le_trans)
  from scale11(2) [OF this] show ?thesis
  proof
    assume "2 ^ (52 + scale 11 q) \<le> q"
    with q have "(2::nat) ^ (52 + scale 11 q) < 2 ^ 53" by (rule le_less_trans [rotated])
    then have "52 + scale 11 q < 53" by (rule power_less_imp_less_exp [rotated]) simp
    then show ?thesis by simp
  qed
qed

lemma round_half_even_bounds:
  "a div b \<le> round_half_even a b" "round_half_even a b \<le> Suc (a div b)"
  by (simp_all add: round_half_even_def Let_def)

lemma round_half_even_exact: "0 < b \<Longrightarrow> round_half_even (m * b) b = m"
  by (simp add: round_half_even_def)

lemma div_le_div_cross:
  fixes a a' b b' :: nat
  assumes "0 < b" "0 < b'" "a * b' \<le> a' * b"
  shows "a div b \<le> a' div b'"
proof -
  have "(a div b) * b' * b \<le> a * b'"
    using div_times_less_eq_dividend [of a b] by (simp add: mult.commute mult.left_commute)
  from this assms(3) have "(a div b) * b' * b \<le> a' * b" by (rule le_trans)
  with assms(1) have "(a div b) * b' \<le> a'" by simp
  with assms(2) show ?thesis by (simp add: less_eq_div_iff_mult_less_eq)
qed

lemma round_half_even_mono:
  assumes b: "0 < b" "0 < b'" and le: "a * b' \<le> a' * b"
  shows "round_half_even a b \<le> round_half_even a' b'"
proof (cases "a div b = a' div b'")
  case True
  define q r r' where "q = a div b" and "r = a mod b" and "r' = a' mod b'"
  have a: "a = q * b + r" and a': "a' = q * b' + r'"
    using True div_mult_mod_eq [of a b] div_mult_mod_eq [of a' b']
    by (simp_all add: q_def r_def r'_def)
  have "r * b' \<le> r' * b"
    using le by (simp add: a a' algebra_simps)
  then have rr: "2 * r * b' \<le> 2 * r' * b" by simp
  have up: "\<not> (2 * r < b \<or> 2 * r = b \<and> even q) \<Longrightarrow> \<not> (2 * r' < b' \<or> 2 * r' = b' \<and> even q)"
  proof
    assume h: "\<not> (2 * r < b \<or> 2 * r = b \<and> even q)" "2 * r' < b' \<or> 2 * r' = b' \<and> even q"
    from h(2) show False
    proof
      assume "2 * r' < b'"
      with b have "2 * r' * b < b * b'" by (simp add: mult.commute)
      with rr have "2 * r * b' < b * b'" by (rule le_less_trans)
      with h(1) show False by simp
    next
      assume e: "2 * r' = b' \<and> even q"
      then have "2 * r' * b = b * b'" by (metis mult.commute)
      with rr have "2 * r * b' \<le> b * b'" by (simp only:)
      with b have "2 * r \<le> b" by simp
      with h(1) e show False by simp
    qed
  qed
  show ?thesis
    using True up
    by (auto simp: round_half_even_def Let_def q_def [symmetric] r_def [symmetric] r'_def [symmetric])
next
  case False
  with div_le_div_cross [OF b le] have "Suc (a div b) \<le> a' div b'" by simp
  with round_half_even_bounds show ?thesis by (meson le_trans)
qed

lemma round_mag_le: "round_mag a b \<le> inf_mag"
  by (simp add: round_mag_def Let_def)

lemma round_mag_lt: "round_mag a b < 2 ^ 63"
  using round_mag_le inf_mag_lt by (rule le_less_trans)

lemmas round_mag_lt_num [simp] = round_mag_lt [simplified]

lemma round_mag_mono:
  assumes b: "0 < b" "0 < b'" and le: "a * b' \<le> a' * b"
  shows "round_mag a b \<le> round_mag a' b'"
proof (cases "2 ^ 2099 \<le> a' div b'")
  case True
  then show ?thesis using round_mag_le by (simp add: round_mag_def)
next
  case False
  define k k' where "k = scale 11 (a div b)" and "k' = scale 11 (a' div b')"
  define m m' where "m = round_half_even a (b * 2 ^ k)" and "m' = round_half_even a' (b' * 2 ^ k')"
  have q: "a div b \<le> a' div b'" by (rule div_le_div_cross [OF b le])
  from False have q': "a' div b' < 2 ^ 2099" by simp
  with q have q0: "a div b < 2 ^ 2099" by simp
  have kk: "k \<le> k'" unfolding k_def k'_def by (rule scale11_le [OF q q'])
  have "k * 2 ^ 52 + m \<le> k' * 2 ^ 52 + m'"
  proof (cases "k = k'")
    case True
    have "m \<le> m'" unfolding m_def m'_def True
      by (rule round_half_even_mono) (use b le in \<open>simp_all add: mult.assoc [symmetric]\<close>)
    with True show ?thesis by simp
  next
    case False
    have "a div b div 2 ^ k < 2 ^ 53"
      using scale11(1) [OF q0]
      by (simp add: k_def [symmetric] power_add less_mult_imp_div_less)
    then have "m \<le> 2 ^ 53"
      unfolding m_def using round_half_even_bounds(2) [of a "b * 2 ^ k"]
      by (simp add: div_mult2_eq)
    moreover have "2 ^ 52 \<le> m'"
    proof -
      have "2 ^ 52 * 2 ^ k' \<le> a' div b'"
        using scale11(2) [OF q'] False kk by (simp add: k'_def [symmetric] power_add)
      then have "2 ^ 52 \<le> a' div b' div 2 ^ k'"
        by (simp add: less_eq_div_iff_mult_less_eq)
      then show ?thesis
        unfolding m'_def using round_half_even_bounds(1) [of a' "b' * 2 ^ k'"]
        by (simp add: div_mult2_eq)
    qed
    moreover have "(k + 1) * 2 ^ 52 \<le> k' * (2 ^ 52 :: nat)"
      using False kk by (intro mult_right_mono) simp_all
    ultimately show ?thesis by simp
  qed
  then show ?thesis
    using q0 q' by (simp add: round_mag_def Let_def k_def k'_def m_def m'_def min_le_iff_disj)
qed

lemma mag_val_small: "n < 2 ^ 53 \<Longrightarrow> mag_val n = n"
proof -
  assume n: "n < 2 ^ 53"
  show ?thesis
  proof (cases "n < 2 ^ 52")
    case False
    with n have "n div 2 ^ 52 = 1" by simp
    then show ?thesis
      using False div_mult_mod_eq [of n "2 ^ 52"] by (simp add: mag_val_def)
  qed (simp add: mag_val_def)
qed

lemma mag_val_bounds:
  assumes "2 ^ 52 \<le> n"
  shows "2 ^ (52 + (n div 2 ^ 52 - 1)) \<le> mag_val n" "mag_val n < 2 ^ (53 + (n div 2 ^ 52 - 1))"
proof -
  define k f where "k = n div 2 ^ 52 - 1" and "f = n mod 2 ^ 52"
  have v: "mag_val n = (2 ^ 52 + f) * 2 ^ k" and f: "f < 2 ^ 52"
    using assms by (simp_all add: mag_val_def k_def f_def)
  have "2 ^ 52 * 2 ^ k \<le> (2 ^ 52 + f) * (2 ^ k :: nat)" by (rule mult_right_mono) simp_all
  then show "2 ^ (52 + (n div 2 ^ 52 - 1)) \<le> mag_val n"
    unfolding v k_def [symmetric] power_add .
  have "(2 ^ 52 + f) * 2 ^ k < 2 ^ 53 * (2 ^ k :: nat)" using f by simp
  then show "mag_val n < 2 ^ (53 + (n div 2 ^ 52 - 1))"
    unfolding v k_def [symmetric] power_add .
qed

lemma mag_val_lt:
  assumes "n < inf_mag"
  shows "mag_val n < 2 ^ 2098"
proof (cases "n < 2 ^ 52")
  case True
  have "(2::nat) ^ 52 \<le> 2 ^ 2098" by (rule power_increasing) simp_all
  with True have "n < 2 ^ 2098" by (rule less_le_trans)
  with True show ?thesis by (simp add: mag_val_def)
next
  case False
  have "n div 2 ^ 52 < 2047"
    using assms by (simp add: inf_mag_def less_mult_imp_div_less)
  then have "(2::nat) ^ (53 + (n div 2 ^ 52 - 1)) \<le> 2 ^ 2098"
    by (intro power_increasing) simp_all
  with mag_val_bounds(2) False show ?thesis
    by (meson not_le less_le_trans)
qed

lemma round_mag_exact:
  assumes "n < inf_mag" and "0 < b"
  shows "round_mag (mag_val n * b) b = n"
proof -
  have lt: "mag_val n < 2 ^ 2098" by (rule mag_val_lt [OF assms(1)])
  also have "(2::nat) ^ 2098 \<le> 2 ^ 2099" by (rule power_increasing) simp_all
  finally have q: "mag_val n < 2 ^ 2099" .
  show ?thesis
  proof (cases "n < 2 ^ 53")
    case True
    with assms q show ?thesis
      by (simp add: round_mag_def mag_val_small scale11_small round_half_even_exact)
  next
    case False
    define k where "k = n div 2 ^ 52 - 1"
    from False have n: "2 ^ 52 \<le> n" by simp
    have k: "scale 11 (mag_val n) = k"
      unfolding k_def using mag_val_bounds [OF n] q by (rule scale11_unique)
    have "mag_val n * b = (2 ^ 52 + n mod 2 ^ 52) * (b * 2 ^ k)"
      using n by (simp add: mag_val_def k_def)
    then have m: "round_half_even (mag_val n * b) (b * 2 ^ k) = 2 ^ 52 + n mod 2 ^ 52"
      using assms(2) by (simp only:) (rule round_half_even_exact, simp)
    have "1 \<le> n div 2 ^ 52" using n by (simp add: less_eq_div_iff_mult_less_eq)
    then have "k * 2 ^ 52 + (2 ^ 52 + n mod 2 ^ 52) = n div 2 ^ 52 * 2 ^ 52 + n mod 2 ^ 52"
      unfolding k_def by (simp add: diff_mult_distrib)
    then have "k * 2 ^ 52 + (2 ^ 52 + n mod 2 ^ 52) = n" by simp
    with assms q k m show ?thesis by (simp add: round_mag_def)
  qed
qed

lemmas round_mag_exact1 = round_mag_exact [where b = 1, simplified]

lemma mag_val_less:
  assumes "n < m" and "m < inf_mag"
  shows "mag_val n < mag_val m"
proof (rule ccontr)
  assume "\<not> ?thesis"
  then have "round_mag (mag_val m) 1 \<le> round_mag (mag_val n) 1"
    by (intro round_mag_mono) simp_all
  with assms show False by (simp add: round_mag_exact1)
qed

lemma mag_val_le_iff:
  "n < inf_mag \<Longrightarrow> m < inf_mag \<Longrightarrow> mag_val n \<le> mag_val m \<longleftrightarrow> n \<le> m"
  by (metis le_eq_less_or_eq mag_val_less not_le)

lemma mag_val_0 [simp]: "mag_val 0 = 0"
  by (simp add: mag_val_def)

lemma mag_val_eq_0 [simp]: "mag_val n = 0 \<longleftrightarrow> n = 0"
  by (auto simp: mag_val_def)

lemma mag_val_pos [simp]: "0 < mag_val n \<longleftrightarrow> 0 < n"
  using mag_val_eq_0 [of n] by linarith

lemma round_mag_0 [simp]: "0 < b \<Longrightarrow> round_mag 0 b = 0"
  using round_mag_exact [of 0 b] by (simp add: inf_mag_def)

section \<open>Order and addition\<close>

definition rord :: "int \<Rightarrow> int" where
  "rord v = dord (round_int v)"

lemma round_int_simps [simp]:
  "dmag (round_int v) = round_mag (nat \<bar>v\<bar>) 1" "dsign (round_int v) = (v < 0)"
  by (simp_all add: round_int_def)

lemma not_isnan_round_int [simp]: "\<not> isnan (round_int v)"
  by (simp add: isnan_def round_mag_le not_less)

lemma rord_eq: "rord v = (if v < 0 then - int (round_mag (nat \<bar>v\<bar>) 1) else int (round_mag (nat \<bar>v\<bar>) 1))"
  by (simp add: rord_def dord_def)

lemma rord_mono: "v \<le> w \<Longrightarrow> rord v \<le> rord w"
proof -
  assume "v \<le> w"
  moreover have "0 \<le> v \<Longrightarrow> v \<le> w \<Longrightarrow> round_mag (nat v) 1 \<le> round_mag (nat w) 1"
    by (rule round_mag_mono) auto
  moreover have "w < 0 \<Longrightarrow> v \<le> w \<Longrightarrow> round_mag (nat (- w)) 1 \<le> round_mag (nat (- v)) 1"
    by (rule round_mag_mono) auto
  ultimately show ?thesis by (auto simp: rord_eq)
qed

lemma rord_0 [simp]: "rord 0 = 0"
  by (simp add: rord_eq)

lemma rord_nonneg: "0 \<le> v \<Longrightarrow> 0 \<le> rord v"
  by (simp add: rord_eq)

lemma rord_exact: "isfinite a \<Longrightarrow> rord (dval a) = dord a"
  by (auto simp: rord_eq dval_def dord_def isfinite_def round_mag_exact1 mag_val_eq_0)

lemma dval_of_dord:
  "dval a = (if dord a < 0 then - int (mag_val (nat (- dord a))) else int (mag_val (nat (dord a))))"
  by (auto simp: dval_def dord_def)

lemma dord_le_iff_dval:
  assumes "isfinite a" "isfinite b"
  shows "dord a \<le> dord b \<longleftrightarrow> dval a \<le> dval b"
proof
  assume "dval a \<le> dval b"
  then show "dord a \<le> dord b"
    using rord_mono [of "dval a" "dval b"] assms by (simp add: rord_exact)
next
  assume le: "dord a \<le> dord b"
  show "dval a \<le> dval b"
  proof (rule ccontr)
    assume "\<not> dval a \<le> dval b"
    then have "dord b \<le> dord a"
      using rord_mono [of "dval b" "dval a"] assms by (simp add: rord_exact)
    with le have "dval a = dval b" by (simp add: dval_of_dord)
    with \<open>\<not> dval a \<le> dval b\<close> show False by simp
  qed
qed

lemma dval_nonneg_iff: "0 \<le> dval a \<longleftrightarrow> 0 \<le> dord a"
  by (simp add: dval_def dord_def mag_val_eq_0)

lemma dval_eq_0_iff: "dval a = 0 \<longleftrightarrow> dord a = 0"
  by (simp add: dval_def dord_def mag_val_eq_0)

lemma d_add_finite:
  assumes "isfinite a" and "isfinite b"
  shows "\<not> isnan (d_add a b)" and "dord (d_add a b) = rord (dval a + dval b)"
proof -
  have fin: "\<not> isnan a" "\<not> isnan b" "\<not> isinf a" "\<not> isinf b"
    using assms by (auto dest: isfinite_not)
  show "\<not> isnan (d_add a b)"
    using fin by (simp add: d_add_def) (simp add: isnan_def)
  show "dord (d_add a b) = rord (dval a + dval b)"
    using fin by (simp add: d_add_def rord_def [symmetric]) (simp add: dord_def)
qed

lemma inf_same_sign: "isinf a \<Longrightarrow> isinf b \<Longrightarrow> dsign a = dsign b \<Longrightarrow> a = b"
  by (rule double_eqI) (simp_all add: isinf_def)

lemma d_add_comm: "d_add a b = d_add b a"
proof (cases "isinf a \<and> isinf b")
  case True
  then show ?thesis
    using inf_same_sign [of a b] by (cases "dsign a = dsign b") (simp_all add: d_add_def)
qed (auto simp: d_add_def add.commute conj_commute)

lemma d_add_inf: "isinf a \<Longrightarrow> \<not> isnan b \<Longrightarrow> \<not> (isinf b \<and> dsign a \<noteq> dsign b) \<Longrightarrow> d_add a b = a"
  by (auto simp: d_add_def isinf_def isnan_def)

text \<open>A value that is not a NaN and not below zero; positive infinity counts.\<close>

definition d_nn :: "double \<Rightarrow> bool" where
  "d_nn d = (\<not> isnan d \<and> 0 \<le> dord d)"

lemma d_nn_zero [simp]: "d_nn d_zero"
  by (simp add: d_nn_def isnan_def)

lemma d_nn_iff: "d_nn d \<longleftrightarrow> \<not> isnan d \<and> (\<not> dsign d \<or> dmag d = 0)"
  by (auto simp: d_nn_def dord_def)

lemma d_nn_inf: "d_nn a \<Longrightarrow> \<not> isfinite a \<Longrightarrow> isinf a \<and> \<not> dsign a"
  using isfinite_cases [of a] by (auto simp: d_nn_iff isinf_def inf_mag_def)

lemma dord_le_inf: "\<not> isnan a \<Longrightarrow> isinf b \<Longrightarrow> \<not> dsign b \<Longrightarrow> dord a \<le> dord b"
  by (auto simp: dord_def isinf_def isnan_def)

lemma not_isnan_isinf: "isinf a \<Longrightarrow> \<not> isnan a"
  by (simp add: isinf_def isnan_def)

lemma d_add_nn_inf:
  assumes "d_nn a" "d_nn b" "\<not> (isfinite a \<and> isfinite b)"
  shows "isinf (d_add a b) \<and> \<not> dsign (d_add a b)"
proof -
  have inf_left: "isinf (d_add x y) \<and> \<not> dsign (d_add x y)"
    if "\<not> isfinite x" "d_nn x" "d_nn y" for x y
  proof -
    have "isinf x" "\<not> dsign x" using d_nn_inf that by blast+
    moreover have "isinf y \<Longrightarrow> \<not> dsign y"
      using d_nn_inf [of y] that by (auto dest: isfinite_not)
    ultimately show ?thesis
      using that(3) d_add_inf [of x y] by (auto simp: d_nn_def)
  qed
  show ?thesis
    using assms inf_left [of a b] inf_left [of b a] by (auto simp: d_add_comm [of b a])
qed

lemma d_add_nn_ge:
  assumes "d_nn a" and "d_nn b"
  shows "d_le a (d_add a b)"
proof (cases "isfinite a \<and> isfinite b")
  case True
  then have "rord (dval a) \<le> rord (dval a + dval b)"
    using assms(2) by (intro rord_mono) (simp add: dval_nonneg_iff d_nn_def)
  with True assms d_add_finite [of a b] show ?thesis
    by (simp add: d_le_def d_nn_def rord_exact)
next
  case False
  then have "isinf (d_add a b) \<and> \<not> dsign (d_add a b)"
    using assms by (rule d_add_nn_inf [rotated 2])
  with assms show ?thesis
    by (simp add: d_le_def d_nn_def dord_le_inf not_isnan_isinf)
qed

lemma d_add_nn [simp]: "d_nn a \<Longrightarrow> d_nn b \<Longrightarrow> d_nn (d_add a b)"
  using d_add_nn_ge [of a b] by (auto simp: d_nn_def d_le_def)

lemma d_add_zero_right:
  "\<not> isnan a \<Longrightarrow> \<not> (dsign a \<and> dmag a = 0) \<Longrightarrow> d_add a d_zero = a"
proof (cases "isfinite a")
  case True
  assume *: "\<not> (dsign a \<and> dmag a = 0)"
  have "dord (d_add a d_zero) = dord a"
    using True by (simp add: d_add_finite(2) rord_exact)
  moreover have "dsign (d_add a d_zero) \<longleftrightarrow> dsign a"
    using True * by (auto simp: d_add_def isfinite_not dval_def)
  ultimately show ?thesis
    by (intro double_eqI) (auto simp: dord_def split: if_splits)
next
  case False
  assume "\<not> isnan a"
  with False isfinite_cases [of a] have "isinf a" by blast
  with \<open>\<not> isnan a\<close> show ?thesis
    by (simp add: d_add_def isnan_def isinf_def) (simp add: inf_mag_def)
qed

lemma d_add_zero_left:
  "\<not> isnan a \<Longrightarrow> \<not> (dsign a \<and> dmag a = 0) \<Longrightarrow> d_add d_zero a = a"
  by (subst d_add_comm) (rule d_add_zero_right)

lemma d_zero_plus_zero: "d_add d_zero d_zero = d_zero"
  by (rule d_add_zero_right) (simp_all add: isnan_def)

lemma d_lt_zero_iff: "d_lt a d_zero \<longleftrightarrow> \<not> isnan a \<and> dord a < 0"
  by (simp add: d_lt_def isnan_def)

lemma d_nn_not_lt: "\<not> isnan a \<Longrightarrow> \<not> d_lt a d_zero \<Longrightarrow> d_nn a"
  by (simp add: d_lt_zero_iff d_nn_def)

lemma d_le_trans: "d_le a b \<Longrightarrow> d_le b c \<Longrightarrow> d_le a c"
  by (simp add: d_le_def)

lemma d_le_refl: "\<not> isnan a \<Longrightarrow> d_le a a"
  by (simp add: d_le_def)

lemma d_max_ge: "\<not> isnan a \<Longrightarrow> \<not> isnan b \<Longrightarrow> d_le a (d_max a b) \<and> d_le b (d_max a b)"
  by (auto simp: d_max_def d_le_def d_lt_def)

lemma d_max_nn: "d_nn a \<Longrightarrow> \<not> isnan b \<Longrightarrow> d_nn (d_max a b)"
  by (auto simp: d_max_def d_nn_def d_lt_def)

text \<open>Adding non-negative values to non-negative values is monotone in both.\<close>

lemma d_add_mono:
  assumes "d_nn a" "d_nn b" "d_le a a'" "d_le b b'"
  shows "d_le (d_add a b) (d_add a' b')"
proof -
  have nn': "d_nn a'" "d_nn b'"
    using assms by (auto simp: d_nn_def d_le_def)
  show ?thesis
  proof (cases "isfinite a' \<and> isfinite b'")
    case True
    have "isfinite a" "isfinite b"
      using assms True nn' by (auto simp: isfinite_def d_le_def d_nn_def dord_def split: if_splits)
    with True assms show ?thesis
      by (simp add: d_le_def d_add_finite rord_mono add_mono dord_le_iff_dval)
  next
    case False
    then have "isinf (d_add a' b') \<and> \<not> dsign (d_add a' b')"
      using nn' by (rule d_add_nn_inf [rotated 2])
    moreover have "\<not> isnan (d_add a b)"
      using assms d_add_nn [of a b] by (simp add: d_nn_def)
    ultimately show ?thesis
      by (simp add: d_le_def dord_le_inf not_isnan_isinf)
  qed
qed

section \<open>Products and quotients of non-negative values\<close>

lemma d_mul_nn:
  assumes "isfinite a" "isfinite b" "d_nn a" "d_nn b"
  shows "d_nn (d_mul a b)"
proof -
  have "\<not> isnan (d_mul a b)"
    using assms(1,2) by (simp add: d_mul_def isfinite_not) (simp add: isnan_def round_mag_le not_less)
  moreover have "dsign (d_mul a b) \<Longrightarrow> dmag (d_mul a b) = 0"
    using assms by (auto simp: d_mul_def isfinite_not d_nn_iff d_unit_def)
  ultimately show ?thesis by (auto simp: d_nn_iff)
qed

lemma d_div_unit_interval:
  assumes "isfinite b" "d_nn a" "d_le a b" "0 < dord b"
  shows "d_nn (d_div a b)" "d_le (d_div a b) (d_of_nat 1)"
proof -
  have fa: "isfinite a"
    using assms by (auto simp: isfinite_def d_le_def d_nn_def dord_def split: if_splits)
  have sb: "\<not> dsign b" "dmag b \<noteq> 0"
    using assms(4) by (auto simp: dord_def split: if_splits)
  have "mag_val (dmag a) \<le> mag_val (dmag b)"
    using assms fa sb by (cases "dsign a")
      (auto simp: mag_val_le_iff isfinite_def d_le_def dord_def d_nn_def)
  then have le: "round_mag (mag_val (dmag a) * d_unit) (mag_val (dmag b)) \<le> round_mag d_unit 1"
    using sb by (intro round_mag_mono) (simp_all add: mag_val_eq_0)
  have div: "d_div a b = mk_double (dsign a \<noteq> dsign b)
      (round_mag (mag_val (dmag a) * d_unit) (mag_val (dmag b)))"
    using fa assms(1) sb by (auto simp: d_div_def dest: isfinite_not)
  show nn: "d_nn (d_div a b)"
    using sb assms(2)
    by (auto simp: div d_nn_iff isnan_def round_mag_le not_less mag_val_eq_0)
  have "dord (d_div a b) \<le> dord (d_of_nat 1)"
    using le by (simp add: div dord_def d_of_nat_def)
  then show "d_le (d_div a b) (d_of_nat 1)"
    using nn by (simp add: d_le_def d_nn_def d_of_nat_def isnan_def round_mag_le not_less)
qed

lemma d_div_nn:
  assumes "\<not> isnan a" "\<not> dsign a" "isfinite b" "\<not> dsign b" "dmag b \<noteq> 0"
  shows "d_nn (d_div a b)"
  using assms isfinite_not [of b] inf_mag_lt
  by (simp add: d_div_def d_nn_iff isnan_def round_mag_le not_less d_inf_def)

lemma d_neg_parts [simp]: "dmag (d_neg a) = dmag a" "dsign (d_neg a) = (\<not> dsign a)"
  using dmag_mk [OF dmag_lt, of "\<not> dsign a" a] dsign_mk [OF dmag_lt, of "\<not> dsign a" a]
  by (simp_all add: d_neg_def)

lemma isnan_d_nan: "isnan d_nan"
  by (simp add: isnan_def d_nan_def inf_mag_def)

lemma d_neg_finite [simp]:
  "isfinite (d_neg a) = isfinite a" "isinf (d_neg a) = isinf a" "isnan (d_neg a) = isnan a"
  by (simp_all add: isfinite_def isinf_def isnan_def)

lemma dval_neg: "dval (d_neg a) = - dval a"
  by (simp add: dval_def)

text \<open>Taking a non-negative value away does not increase a value, when the difference exists.\<close>

lemma d_sub_nn_le:
  assumes "d_nn a" "d_nn b" "\<not> isnan (d_sub a b)"
  shows "d_le (d_sub a b) a"
proof (cases "isfinite a \<and> isfinite b")
  case True
  then have "rord (dval a + dval (d_neg b)) \<le> rord (dval a)"
    using assms(2) by (intro rord_mono) (simp add: dval_neg dval_nonneg_iff d_nn_def)
  with True assms d_add_finite [of a "d_neg b"] show ?thesis
    by (simp add: d_le_def d_nn_def rord_exact d_sub_def)
next
  case False
  then consider "isinf a" "isfinite b" | "isfinite a" "isinf b" "\<not> dsign b" | "isinf a" "isinf b"
    using assms(1,2) isfinite_cases [of a] isfinite_cases [of b] d_nn_inf [of b] by (auto simp: d_nn_def)
  then show ?thesis
  proof cases
    case 1
    then have "d_sub a b = a"
      using assms(1) by (auto simp: d_sub_def d_add_def d_nn_def dest!: isfinite_not)
    with assms(1) show ?thesis by (simp add: d_le_refl d_nn_def)
  next
    case 2
    then have "d_sub a b = d_neg b"
      using assms(1) by (auto simp: d_sub_def d_add_def d_nn_def not_isnan_isinf dest!: isfinite_not)
    with 2 assms show ?thesis by (simp add: d_le_def d_nn_def dord_def not_isnan_isinf)
  next
    case 3
    then have "isnan (d_sub a b)"
      using d_nn_inf [OF assms(1)] d_nn_inf [OF assms(2)] isfinite_not [of a] isfinite_not [of b]
      by (auto simp: d_sub_def d_add_def isnan_d_nan)
    with assms(3) show ?thesis by simp
  qed
qed

section \<open>Scaling by a fraction\<close>

lemma mag_val_one: "mag_val 0x3FF0000000000000 = d_unit"
  by (simp add: mag_val_def d_unit_def)

lemma dmag_one: "dmag (d_of_nat 1) = 0x3FF0000000000000" "\<not> dsign (d_of_nat 1)"
proof -
  have "round_mag (mag_val 0x3FF0000000000000 * 1) 1 = 0x3FF0000000000000"
    by (rule round_mag_exact) (simp_all add: inf_mag_def)
  then show "dmag (d_of_nat 1) = 0x3FF0000000000000" "\<not> dsign (d_of_nat 1)"
    by (simp_all add: d_of_nat_def mag_val_one)
qed

lemma d_mul_fraction:
  assumes "isfinite t" "d_nn t" "d_nn r" "d_le r (d_of_nat 1)"
  shows "d_nn (d_mul t r)" "d_le (d_mul t r) t"
proof -
  have r: "dmag r \<le> 0x3FF0000000000000"
    using assms(3,4) dmag_one by (auto simp: d_le_def d_nn_def dord_def split: if_splits)
  then have fr: "isfinite r" by (simp add: isfinite_def inf_mag_def)
  show nn: "d_nn (d_mul t r)" by (rule d_mul_nn [OF assms(1) fr assms(2,3)])
  have "mag_val (dmag r) \<le> d_unit"
    using r fr mag_val_le_iff [of "dmag r" "0x3FF0000000000000"] by (simp add: isfinite_def mag_val_one inf_mag_def)
  then have "round_mag (mag_val (dmag t) * mag_val (dmag r)) d_unit \<le> round_mag (mag_val (dmag t) * d_unit) d_unit"
    by (intro round_mag_mono) (simp_all add: d_unit_def mult_le_mono)
  then have le: "round_mag (mag_val (dmag t) * mag_val (dmag r)) d_unit \<le> dmag t"
    using assms(1) round_mag_exact [of "dmag t" d_unit] by (simp add: isfinite_def d_unit_def)
  have "d_mul t r = mk_double (dsign t \<noteq> dsign r) (round_mag (mag_val (dmag t) * mag_val (dmag r)) d_unit)"
    using assms(1) fr by (auto simp: d_mul_def dest: isfinite_not)
  with le nn assms(2) show "d_le (d_mul t r) t"
    by (auto simp: d_le_def d_nn_def dord_def split: if_splits)
qed

end
