(* ===== verification/Kinds.thy ===== *)
theory Kinds
  imports Double
begin

text \<open>
  The enumerations of the ledger (\<^verbatim>\<open>provenance.hpp\<close>, \<^verbatim>\<open>unit.hpp\<close>,
  \<^verbatim>\<open>resource.hpp\<close>, \<^verbatim>\<open>event_kind.hpp\<close>) with their wire values and
  names, and the typed quantity of \<^verbatim>\<open>unit.hpp\<close>. Enumerators that two enumerations of the
  source share carry a prefix.
\<close>

section \<open>Provenance\<close>

datatype provenance = Measured | Reported | Derived | Estimated | Reconstructed | Unavailable

primrec provenance_name :: "provenance \<Rightarrow> string" where
  "provenance_name Measured = ''measured''"
| "provenance_name Reported = ''reported''"
| "provenance_name Derived = ''derived''"
| "provenance_name Estimated = ''estimated''"
| "provenance_name Reconstructed = ''reconstructed''"
| "provenance_name Unavailable = ''unavailable''"

primrec provenance_val :: "provenance \<Rightarrow> u8" where
  "provenance_val Measured = 0"
| "provenance_val Reported = 1"
| "provenance_val Derived = 2"
| "provenance_val Estimated = 3"
| "provenance_val Reconstructed = 4"
| "provenance_val Unavailable = 5"

definition provenances :: "provenance list" where
  "provenances = [Measured, Reported, Derived, Estimated, Reconstructed, Unavailable]"

definition provenance_of :: "u8 \<Rightarrow> provenance" where
  "provenance_of v = provenances ! unat v"

definition provenance_parse :: "string \<Rightarrow> provenance" where
  "provenance_parse s =
     (if s = ''measured'' then Measured else
     (if s = ''reported'' then Reported else
     (if s = ''derived'' then Derived else
     (if s = ''estimated'' then Estimated else
     (if s = ''reconstructed'' then Reconstructed else
      Unavailable)))))"

definition provenance_outer_tag_is_available :: "provenance \<Rightarrow> bool" where
  "provenance_outer_tag_is_available p = (p = Measured \<or> p = Reported)"

section \<open>Units\<close>

datatype unit_kind =
    Count | Bytes | ByteSeconds | Seconds | Nanoseconds | EnergyJoule | EnergyWh | Currency
  | Dimensionless

primrec unit_name :: "unit_kind \<Rightarrow> string" where
  "unit_name Count = ''count''"
| "unit_name Bytes = ''bytes''"
| "unit_name ByteSeconds = ''byte-seconds''"
| "unit_name Seconds = ''seconds''"
| "unit_name Nanoseconds = ''nanoseconds''"
| "unit_name EnergyJoule = ''joules''"
| "unit_name EnergyWh = ''wh''"
| "unit_name Currency = ''currency''"
| "unit_name Dimensionless = ''dimensionless''"

primrec unit_val :: "unit_kind \<Rightarrow> u8" where
  "unit_val Count = 0"
| "unit_val Bytes = 1"
| "unit_val ByteSeconds = 2"
| "unit_val Seconds = 3"
| "unit_val Nanoseconds = 4"
| "unit_val EnergyJoule = 5"
| "unit_val EnergyWh = 6"
| "unit_val Currency = 7"
| "unit_val Dimensionless = 8"

definition unit_kinds :: "unit_kind list" where
  "unit_kinds = [Count, Bytes, ByteSeconds, Seconds, Nanoseconds, EnergyJoule, EnergyWh, Currency, Dimensionless]"

definition unit_of :: "u8 \<Rightarrow> unit_kind" where
  "unit_of v = unit_kinds ! unat v"

definition unit_signature :: "unit_kind \<Rightarrow> u32" where
  "unit_signature u = ucast (unit_val u) + 1"

section \<open>Resource kinds\<close>

datatype resource_kind = RCompute | RMemory | RKv | RTensor | RTransfer | RResidency | RCache | REnergy | RCost | RGeneric

primrec resource_kind_val :: "resource_kind \<Rightarrow> u8" where
  "resource_kind_val RCompute = 1"
| "resource_kind_val RMemory = 2"
| "resource_kind_val RKv = 3"
| "resource_kind_val RTensor = 4"
| "resource_kind_val RTransfer = 5"
| "resource_kind_val RResidency = 6"
| "resource_kind_val RCache = 7"
| "resource_kind_val REnergy = 8"
| "resource_kind_val RCost = 9"
| "resource_kind_val RGeneric = 10"

primrec resource_kind_name :: "resource_kind \<Rightarrow> string" where
  "resource_kind_name RCompute = ''compute''"
| "resource_kind_name RMemory = ''memory''"
| "resource_kind_name RKv = ''kv''"
| "resource_kind_name RTensor = ''tensor''"
| "resource_kind_name RTransfer = ''transfer''"
| "resource_kind_name RResidency = ''residency''"
| "resource_kind_name RCache = ''cache''"
| "resource_kind_name REnergy = ''energy''"
| "resource_kind_name RCost = ''cost''"
| "resource_kind_name RGeneric = ''generic''"

definition resource_kinds :: "resource_kind list" where
  "resource_kinds = [RCompute, RMemory, RKv, RTensor, RTransfer, RResidency, RCache, REnergy, RCost, RGeneric]"

definition resource_kind_of :: "u8 \<Rightarrow> resource_kind" where
  "resource_kind_of v = resource_kinds ! (unat v - 1)"

text \<open>The kinds whose quantities must not be negative.\<close>

definition is_physical_resource :: "resource_kind \<Rightarrow> bool" where
  "is_physical_resource k =
     (k = RCompute \<or> k = RMemory \<or> k = RKv \<or> k = RTensor \<or> k = RTransfer \<or> k = RResidency \<or>
      k = RCache \<or> k = REnergy)"

section \<open>Event kinds\<close>

datatype event_kind =
    RequestStart | RequestEnd | Queue | BatchWait | Prefill | Decode |
    SpeculationProposed | SpeculationAccepted | SpeculationRejected | GpuExecution |
    CpuExecution | KvAllocate | KvRelease | KvReuse | TensorAllocate | TensorRelease |
    TensorReuse | ModelResidency | AdapterResidency | KernelHit | KernelMiss | GraphHit |
    GraphMiss | TransferH2D | TransferD2H | TransferInterNode | CacheRead | CacheWrite |
    Reserve | Release | Retry | Failure | Cancellation | Recompute | ReuseAvoided |
    EEnergy | CostAdjustment

primrec event_kind_val :: "event_kind \<Rightarrow> u8" where
  "event_kind_val RequestStart = 1"
| "event_kind_val RequestEnd = 2"
| "event_kind_val Queue = 3"
| "event_kind_val BatchWait = 4"
| "event_kind_val Prefill = 5"
| "event_kind_val Decode = 6"
| "event_kind_val SpeculationProposed = 7"
| "event_kind_val SpeculationAccepted = 8"
| "event_kind_val SpeculationRejected = 9"
| "event_kind_val GpuExecution = 10"
| "event_kind_val CpuExecution = 11"
| "event_kind_val KvAllocate = 12"
| "event_kind_val KvRelease = 13"
| "event_kind_val KvReuse = 14"
| "event_kind_val TensorAllocate = 15"
| "event_kind_val TensorRelease = 16"
| "event_kind_val TensorReuse = 17"
| "event_kind_val ModelResidency = 18"
| "event_kind_val AdapterResidency = 19"
| "event_kind_val KernelHit = 20"
| "event_kind_val KernelMiss = 21"
| "event_kind_val GraphHit = 22"
| "event_kind_val GraphMiss = 23"
| "event_kind_val TransferH2D = 24"
| "event_kind_val TransferD2H = 25"
| "event_kind_val TransferInterNode = 26"
| "event_kind_val CacheRead = 27"
| "event_kind_val CacheWrite = 28"
| "event_kind_val Reserve = 29"
| "event_kind_val Release = 30"
| "event_kind_val Retry = 31"
| "event_kind_val Failure = 32"
| "event_kind_val Cancellation = 33"
| "event_kind_val Recompute = 34"
| "event_kind_val ReuseAvoided = 35"
| "event_kind_val EEnergy = 36"
| "event_kind_val CostAdjustment = 37"

primrec event_kind_name :: "event_kind \<Rightarrow> string" where
  "event_kind_name RequestStart = ''REQUEST_START''"
| "event_kind_name RequestEnd = ''REQUEST_END''"
| "event_kind_name Queue = ''QUEUE''"
| "event_kind_name BatchWait = ''BATCH_WAIT''"
| "event_kind_name Prefill = ''PREFILL''"
| "event_kind_name Decode = ''DECODE''"
| "event_kind_name SpeculationProposed = ''SPECULATION_PROPOSED''"
| "event_kind_name SpeculationAccepted = ''SPECULATION_ACCEPTED''"
| "event_kind_name SpeculationRejected = ''SPECULATION_REJECTED''"
| "event_kind_name GpuExecution = ''GPU_EXECUTION''"
| "event_kind_name CpuExecution = ''CPU_EXECUTION''"
| "event_kind_name KvAllocate = ''KV_ALLOCATE''"
| "event_kind_name KvRelease = ''KV_RELEASE''"
| "event_kind_name KvReuse = ''KV_REUSE''"
| "event_kind_name TensorAllocate = ''TENSOR_ALLOCATE''"
| "event_kind_name TensorRelease = ''TENSOR_RELEASE''"
| "event_kind_name TensorReuse = ''TENSOR_REUSE''"
| "event_kind_name ModelResidency = ''MODEL_RESIDENCY''"
| "event_kind_name AdapterResidency = ''ADAPTER_RESIDENCY''"
| "event_kind_name KernelHit = ''KERNEL_HIT''"
| "event_kind_name KernelMiss = ''KERNEL_MISS''"
| "event_kind_name GraphHit = ''GRAPH_HIT''"
| "event_kind_name GraphMiss = ''GRAPH_MISS''"
| "event_kind_name TransferH2D = ''TRANSFER_H2D''"
| "event_kind_name TransferD2H = ''TRANSFER_D2H''"
| "event_kind_name TransferInterNode = ''TRANSFER_INTER_NODE''"
| "event_kind_name CacheRead = ''CACHE_READ''"
| "event_kind_name CacheWrite = ''CACHE_WRITE''"
| "event_kind_name Reserve = ''RESERVE''"
| "event_kind_name Release = ''RELEASE''"
| "event_kind_name Retry = ''RETRY''"
| "event_kind_name Failure = ''FAILURE''"
| "event_kind_name Cancellation = ''CANCELLATION''"
| "event_kind_name Recompute = ''RECOMPUTE''"
| "event_kind_name ReuseAvoided = ''REUSE_AVOIDED''"
| "event_kind_name EEnergy = ''ENERGY''"
| "event_kind_name CostAdjustment = ''COST_ADJUSTMENT''"

definition event_kinds :: "event_kind list" where
  "event_kinds = [
     RequestStart, RequestEnd, Queue, BatchWait, Prefill, Decode, SpeculationProposed,
     SpeculationAccepted, SpeculationRejected, GpuExecution, CpuExecution, KvAllocate,
     KvRelease, KvReuse, TensorAllocate, TensorRelease, TensorReuse, ModelResidency,
     AdapterResidency, KernelHit, KernelMiss, GraphHit, GraphMiss, TransferH2D,
     TransferD2H, TransferInterNode, CacheRead, CacheWrite, Reserve, Release, Retry,
     Failure, Cancellation, Recompute, ReuseAvoided, EEnergy, CostAdjustment]"

definition event_kind_of :: "u8 \<Rightarrow> event_kind" where
  "event_kind_of v = event_kinds ! (unat v - 1)"

definition event_kind_parse :: "string \<Rightarrow> event_kind" where
  "event_kind_parse s =
     (if s = ''REQUEST_START'' then RequestStart else
     (if s = ''REQUEST_END'' then RequestEnd else
     (if s = ''QUEUE'' then Queue else
     (if s = ''BATCH_WAIT'' then BatchWait else
     (if s = ''PREFILL'' then Prefill else
     (if s = ''DECODE'' then Decode else
     (if s = ''SPECULATION_PROPOSED'' then SpeculationProposed else
     (if s = ''SPECULATION_ACCEPTED'' then SpeculationAccepted else
     (if s = ''SPECULATION_REJECTED'' then SpeculationRejected else
     (if s = ''GPU_EXECUTION'' then GpuExecution else
     (if s = ''CPU_EXECUTION'' then CpuExecution else
     (if s = ''KV_ALLOCATE'' then KvAllocate else
     (if s = ''KV_RELEASE'' then KvRelease else
     (if s = ''KV_REUSE'' then KvReuse else
     (if s = ''TENSOR_ALLOCATE'' then TensorAllocate else
     (if s = ''TENSOR_RELEASE'' then TensorRelease else
     (if s = ''TENSOR_REUSE'' then TensorReuse else
     (if s = ''MODEL_RESIDENCY'' then ModelResidency else
     (if s = ''ADAPTER_RESIDENCY'' then AdapterResidency else
     (if s = ''KERNEL_HIT'' then KernelHit else
     (if s = ''KERNEL_MISS'' then KernelMiss else
     (if s = ''GRAPH_HIT'' then GraphHit else
     (if s = ''GRAPH_MISS'' then GraphMiss else
     (if s = ''TRANSFER_H2D'' then TransferH2D else
     (if s = ''TRANSFER_D2H'' then TransferD2H else
     (if s = ''TRANSFER_INTER_NODE'' then TransferInterNode else
     (if s = ''CACHE_READ'' then CacheRead else
     (if s = ''CACHE_WRITE'' then CacheWrite else
     (if s = ''RESERVE'' then Reserve else
     (if s = ''RELEASE'' then Release else
     (if s = ''RETRY'' then Retry else
     (if s = ''FAILURE'' then Failure else
     (if s = ''CANCELLATION'' then Cancellation else
     (if s = ''RECOMPUTE'' then Recompute else
     (if s = ''REUSE_AVOIDED'' then ReuseAvoided else
     (if s = ''ENERGY'' then EEnergy else
     (if s = ''COST_ADJUSTMENT'' then CostAdjustment else
      RequestStart)))))))))))))))))))))))))))))))))))))"

section \<open>Wire values\<close>

definition valid_event_kind :: "u8 \<Rightarrow> bool" where
  "valid_event_kind v = (event_kind_val RequestStart \<le> v \<and> v \<le> event_kind_val CostAdjustment)"

definition valid_resource_kind :: "u8 \<Rightarrow> bool" where
  "valid_resource_kind v = (resource_kind_val RCompute \<le> v \<and> v \<le> resource_kind_val RGeneric)"

definition valid_unit :: "u8 \<Rightarrow> bool" where
  "valid_unit v = (v \<le> unit_val Dimensionless)"

definition valid_provenance :: "u8 \<Rightarrow> bool" where
  "valid_provenance v = (v \<le> provenance_val Unavailable)"

section \<open>Quantities\<close>

record quantity =
  q_value :: double
  q_unit :: unit_kind
  q_provenance :: provenance

definition quantity_default :: quantity where
  "quantity_default = \<lparr>q_value = d_zero, q_unit = Dimensionless, q_provenance = Unavailable\<rparr>"

definition q_is_finite :: "quantity \<Rightarrow> bool" where
  "q_is_finite q = isfinite (q_value q)"

definition q_is_non_negative :: "quantity \<Rightarrow> bool" where
  "q_is_non_negative q = d_le d_zero (q_value q)"

definition q_is_integral :: "quantity \<Rightarrow> bool" where
  "q_is_integral q = d_eq (d_floor (q_value q)) (q_value q)"

definition q_count :: "u64 \<Rightarrow> provenance \<Rightarrow> quantity" where
  "q_count v p = \<lparr>q_value = d_of_u64 v, q_unit = Count, q_provenance = p\<rparr>"

definition q_bytes :: "u64 \<Rightarrow> provenance \<Rightarrow> quantity" where
  "q_bytes v p = \<lparr>q_value = d_of_u64 v, q_unit = Bytes, q_provenance = p\<rparr>"

definition q_seconds :: "double \<Rightarrow> provenance \<Rightarrow> quantity" where
  "q_seconds v p = \<lparr>q_value = v, q_unit = Seconds, q_provenance = p\<rparr>"

definition same_unit :: "quantity \<Rightarrow> quantity \<Rightarrow> bool" where
  "same_unit a b = (q_unit a = q_unit b)"

section \<open>Every enumerator has its own wire value and name\<close>

lemma provenance_of_val [simp]: "provenance_of (provenance_val p) = p"
  by (cases p) (simp_all add: provenance_of_def provenances_def)

lemma unit_of_val [simp]: "unit_of (unit_val u) = u"
  by (cases u) (simp_all add: unit_of_def unit_kinds_def)

lemma resource_kind_of_val [simp]: "resource_kind_of (resource_kind_val r) = r"
  by (cases r) (simp_all add: resource_kind_of_def resource_kinds_def)

lemma event_kind_of_val [simp]: "event_kind_of (event_kind_val k) = k"
  by (cases k) (simp_all add: event_kind_of_def event_kinds_def)

lemma valid_event_kind_val [simp]: "valid_event_kind (event_kind_val k)"
  by (cases k) (simp_all add: valid_event_kind_def)

lemma valid_resource_kind_val [simp]: "valid_resource_kind (resource_kind_val r)"
  by (cases r) (simp_all add: valid_resource_kind_def)

lemma valid_unit_val [simp]: "valid_unit (unit_val u)"
  by (cases u) (simp_all add: valid_unit_def)

lemma valid_provenance_val [simp]: "valid_provenance (provenance_val p)"
  by (cases p) (simp_all add: valid_provenance_def)

text \<open>A byte in the accepted range is the wire value of an enumerator.\<close>

lemma wire_value_range:
  fixes f :: "'a \<Rightarrow> u8"
  assumes "\<forall>n \<in> set [lo..<hi]. f (g n) = word_of_nat n" "lo \<le> unat v" "unat v < hi"
  shows "f (g (unat v)) = v"
  using assms by auto

lemma val_event_kind_of: "valid_event_kind v \<Longrightarrow> event_kind_val (event_kind_of v) = v"
  unfolding event_kind_of_def
  by (rule wire_value_range [where g = "\<lambda>n. event_kinds ! (n - 1)" and lo = 1 and hi = 38])
    (simp_all add: upt_rec event_kinds_def valid_event_kind_def word_le_nat_alt)

lemma val_resource_kind_of: "valid_resource_kind v \<Longrightarrow> resource_kind_val (resource_kind_of v) = v"
  unfolding resource_kind_of_def
  by (rule wire_value_range [where g = "\<lambda>n. resource_kinds ! (n - 1)" and lo = 1 and hi = 11])
    (simp_all add: upt_rec resource_kinds_def valid_resource_kind_def word_le_nat_alt)

lemma val_unit_of: "valid_unit v \<Longrightarrow> unit_val (unit_of v) = v"
  unfolding unit_of_def
  by (rule wire_value_range [where g = "\<lambda>n. unit_kinds ! n" and lo = 0 and hi = 9])
    (simp_all add: upt_rec unit_kinds_def valid_unit_def word_le_nat_alt)

lemma val_provenance_of: "valid_provenance v \<Longrightarrow> provenance_val (provenance_of v) = v"
  unfolding provenance_of_def
  by (rule wire_value_range [where g = "\<lambda>n. provenances ! n" and lo = 0 and hi = 6])
    (simp_all add: upt_rec provenances_def valid_provenance_def word_le_nat_alt)

lemma provenance_parse_name: "provenance_parse (provenance_name p) = p"
  by (cases p) (simp_all add: provenance_parse_def)

lemma event_kind_parse_name: "event_kind_parse (event_kind_name k) = k"
  by (cases k) (simp_all add: event_kind_parse_def)

lemma event_kind_parse_unknown:
  "s \<notin> set (map event_kind_name event_kinds) \<Longrightarrow> event_kind_parse s = RequestStart"
  by (simp add: event_kinds_def event_kind_parse_def)

end
