(* ===== verification/Entry.thy ===== *)
theory Entry
  imports Identity Kinds
begin

text \<open>
  \<^verbatim>\<open>authority.hpp\<close>, \<^verbatim>\<open>ledger_entry.hpp\<close> and \<^verbatim>\<open>ledger_entry.cpp\<close>: the authority
  envelope, the source identity and the immutable ledger record, its equality, its duration and
  the identity derived from its content. Metadata is an ordered map from strings to strings.
\<close>

section \<open>Records\<close>

record authority_envelope =
  a_epoch :: coordinator_epoch
  a_worker_boot :: worker_boot_id
  a_request_generation :: request_generation
  a_accounting_generation :: accounting_generation
  a_attempt :: attempt_id
  a_attempt_generation :: attempt_generation
  a_dispatch :: dispatch_id

definition generation_is_fresh :: "'tag generation \<Rightarrow> 'tag generation \<Rightarrow> bool" where
  "generation_is_fresh observed current = (observed = current)"

record source_identity =
  s_worker :: worker_id
  s_boot :: worker_boot_id
  s_accounting_generation :: accounting_generation

record ledger_entry =
  e_id :: ledger_entry_id
  e_ledger :: ledger_id
  e_tenant :: tenant_id
  e_workload :: workload_id
  e_request :: request_id
  e_model :: model_id
  e_model_revision :: model_revision_id
  e_has_adapter :: bool
  e_adapter :: adapter_id
  e_attempt :: attempt_id
  e_dispatch :: dispatch_id
  e_worker :: worker_id
  e_node :: node_id
  e_device :: device_id
  e_event_kind :: event_kind
  e_resource_kind :: resource_kind
  e_quantity :: quantity
  e_start_ts_ns :: u64
  e_end_ts_ns :: u64
  e_has_end :: bool
  e_source :: source_identity
  e_authority :: authority_envelope
  e_has_accounting_policy :: bool
  e_accounting_policy :: accounting_policy_id
  e_has_pricing_policy :: bool
  e_pricing_policy :: pricing_policy_id
  e_metadata :: "(string, string) omap"

definition envelope_default :: authority_envelope where
  "envelope_default =
     \<lparr>a_epoch = gen_default, a_worker_boot = id_default, a_request_generation = gen_default,
      a_accounting_generation = gen_default, a_attempt = id_default,
      a_attempt_generation = gen_default, a_dispatch = id_default\<rparr>"

definition source_default :: source_identity where
  "source_default =
     \<lparr>s_worker = id_default, s_boot = id_default, s_accounting_generation = gen_default\<rparr>"

definition entry_default :: ledger_entry where
  "entry_default =
     \<lparr>e_id = id_default, e_ledger = id_default, e_tenant = id_default, e_workload = id_default,
      e_request = id_default, e_model = id_default, e_model_revision = id_default,
      e_has_adapter = False, e_adapter = id_default, e_attempt = id_default,
      e_dispatch = id_default, e_worker = id_default, e_node = id_default, e_device = id_default,
      e_event_kind = RequestStart, e_resource_kind = RGeneric, e_quantity = quantity_default,
      e_start_ts_ns = 0, e_end_ts_ns = 0, e_has_end = False, e_source = source_default,
      e_authority = envelope_default, e_has_accounting_policy = False,
      e_accounting_policy = id_default, e_has_pricing_policy = False,
      e_pricing_policy = id_default, e_metadata = []\<rparr>"

section \<open>Operations\<close>

text \<open>\<^verbatim>\<open>LedgerEntry::operator==\<close>: values compare as doubles, absent optional fields are skipped.\<close>

definition entry_eq :: "ledger_entry \<Rightarrow> ledger_entry \<Rightarrow> bool" where
  "entry_eq e o' =
     (e_id e = e_id o' \<and> e_ledger e = e_ledger o' \<and> e_tenant e = e_tenant o' \<and>
      e_workload e = e_workload o' \<and> e_request e = e_request o' \<and> e_model e = e_model o' \<and>
      e_model_revision e = e_model_revision o' \<and> e_has_adapter e = e_has_adapter o' \<and>
      (\<not> e_has_adapter e \<or> e_adapter e = e_adapter o') \<and> e_attempt e = e_attempt o' \<and>
      e_dispatch e = e_dispatch o' \<and> e_worker e = e_worker o' \<and> e_node e = e_node o' \<and>
      e_device e = e_device o' \<and> e_event_kind e = e_event_kind o' \<and>
      e_resource_kind e = e_resource_kind o' \<and>
      d_eq (q_value (e_quantity e)) (q_value (e_quantity o')) \<and>
      q_unit (e_quantity e) = q_unit (e_quantity o') \<and>
      q_provenance (e_quantity e) = q_provenance (e_quantity o') \<and>
      e_start_ts_ns e = e_start_ts_ns o' \<and> e_end_ts_ns e = e_end_ts_ns o' \<and>
      e_has_end e = e_has_end o' \<and> s_worker (e_source e) = s_worker (e_source o') \<and>
      s_boot (e_source e) = s_boot (e_source o') \<and>
      s_accounting_generation (e_source e) = s_accounting_generation (e_source o') \<and>
      a_epoch (e_authority e) = a_epoch (e_authority o') \<and>
      a_worker_boot (e_authority e) = a_worker_boot (e_authority o') \<and>
      a_request_generation (e_authority e) = a_request_generation (e_authority o') \<and>
      a_accounting_generation (e_authority e) = a_accounting_generation (e_authority o') \<and>
      a_attempt (e_authority e) = a_attempt (e_authority o') \<and>
      a_attempt_generation (e_authority e) = a_attempt_generation (e_authority o') \<and>
      a_dispatch (e_authority e) = a_dispatch (e_authority o') \<and>
      e_has_accounting_policy e = e_has_accounting_policy o' \<and>
      (\<not> e_has_accounting_policy e \<or> e_accounting_policy e = e_accounting_policy o') \<and>
      e_has_pricing_policy e = e_has_pricing_policy o' \<and>
      (\<not> e_has_pricing_policy e \<or> e_pricing_policy e = e_pricing_policy o') \<and>
      e_metadata e = e_metadata o')"

definition duration_ns :: "ledger_entry \<Rightarrow> u64" where
  "duration_ns e =
     (if e_has_end e
      then (if e_start_ts_ns e \<le> e_end_ts_ns e then e_end_ts_ns e - e_start_ts_ns e else 0)
      else 0)"

section \<open>Identity derived from the content\<close>

record mixer =
  mix_hi :: u64
  mix_lo :: u64

definition mixer_init :: mixer where
  "mixer_init = \<lparr>mix_hi = 0xCBF29CE484222325, mix_lo = 0x9E3779B97F4A7C15\<rparr>"

definition mix_lo_step :: "u64 \<Rightarrow> u64 \<Rightarrow> u64" where
  "mix_lo_step lo v = (lo XOR (v * 0x100000001B3)) * 0x9E3779B97F4A7C15"

definition mix_hi_step :: "u64 \<Rightarrow> u64 \<Rightarrow> u64" where
  "mix_hi_step hi v = hi XOR (v + 0x9E3779B97F4A7C15 + push_bit 6 hi + drop_bit 2 hi)"

definition mixer_feed :: "mixer \<Rightarrow> u64 \<Rightarrow> mixer" where
  "mixer_feed m v = \<lparr>mix_hi = mix_hi_step (mix_hi m) v, mix_lo = mix_lo_step (mix_lo m) v\<rparr>"

text \<open>The words \<^verbatim>\<open>derive_entry_id\<close> feeds, in order.\<close>

definition entry_id_words :: "ledger_entry \<Rightarrow> u64 list" where
  "entry_id_words e =
     [id_hi (e_ledger e), id_lo (e_ledger e), id_hi (e_tenant e), id_lo (e_tenant e),
      id_hi (e_workload e), id_lo (e_workload e), id_hi (e_request e), id_lo (e_request e),
      id_hi (e_model e), id_lo (e_model e), id_hi (e_model_revision e), id_lo (e_model_revision e),
      ucast (event_kind_val (e_event_kind e)), ucast (resource_kind_val (e_resource_kind e)),
      id_hi (s_worker (e_source e)) XOR id_lo (s_worker (e_source e)),
      id_hi (s_boot (e_source e)) XOR id_lo (s_boot (e_source e)),
      gen_value (s_accounting_generation (e_source e)),
      gen_value (a_epoch (e_authority e)), gen_value (a_accounting_generation (e_authority e)),
      gen_value (a_request_generation (e_authority e)),
      gen_value (a_attempt_generation (e_authority e)),
      id_hi (a_attempt (e_authority e)) XOR id_lo (a_attempt (e_authority e)),
      e_start_ts_ns e, dbl_bits (q_value (e_quantity e))]"

definition derive_entry_id :: "ledger_entry \<Rightarrow> ledger_entry_id" where
  "derive_entry_id e =
     (let m = foldl mixer_feed mixer_init (entry_id_words e) in Id128 (mix_hi m) (mix_lo m))"

section \<open>Equality of entries\<close>

lemma d_eq_refl: "d_eq a a \<longleftrightarrow> \<not> isnan a"
  by (simp add: d_eq_def)

lemma entry_eq_refl: "entry_eq e e \<longleftrightarrow> \<not> isnan (q_value (e_quantity e))"
  by (simp add: entry_eq_def d_eq_refl)

lemma d_eq_sym: "d_eq a b \<Longrightarrow> d_eq b a"
  by (auto simp: d_eq_def)

lemma d_eq_trans: "d_eq a b \<Longrightarrow> d_eq b c \<Longrightarrow> d_eq a c"
  by (auto simp: d_eq_def)

lemma entry_eq_sym: "entry_eq a b \<Longrightarrow> entry_eq b a"
  unfolding entry_eq_def by (auto intro: d_eq_sym)

lemma entry_eq_trans: "entry_eq a b \<Longrightarrow> entry_eq b c \<Longrightarrow> entry_eq a c"
  unfolding entry_eq_def by (auto intro: d_eq_trans)

lemma entry_eq_id: "entry_eq a b \<Longrightarrow> e_id a = e_id b"
  by (simp add: entry_eq_def)

section \<open>The derived identity notices a change of any one hashed word\<close>

lemma mult_unit_inj:
  fixes x y c d :: u64
  assumes "c * d = 1" and "x * c = y * c"
  shows "x = y"
proof -
  have "x * c * d = y * c * d" using assms(2) by (rule arg_cong)
  then show ?thesis using assms(1) by (simp only: mult.assoc mult_1_right)
qed

lemma golden_unit: "(0x9E3779B97F4A7C15 :: u64) * 0xF1DE83E19937733D = 1"
  by simp

lemma fnv_unit: "(0x100000001B3 :: u64) * 0xCE965057AFF6957B = 1"
  by simp

lemmas mult_golden_inj = mult_unit_inj [OF golden_unit]
lemmas mult_fnv_inj = mult_unit_inj [OF fnv_unit]

lemma xor_cancel_right: "a XOR c = b XOR c \<Longrightarrow> a = b" for a b c :: "'a::len word"
  by (metis xor.assoc xor.right_neutral xor_self_eq)

lemma xor_cancel_left: "c XOR a = c XOR b \<Longrightarrow> a = b" for a b c :: "'a::len word"
  by (metis xor.assoc xor.left_neutral xor_self_eq)

interpretation mixer_lane: injective_step mix_lo_step
  by unfold_locales
    (auto simp: mix_lo_step_def dest: mult_golden_inj mult_fnv_inj xor_cancel_right xor_cancel_left)

lemma mix_lo_foldl: "mix_lo (foldl mixer_feed m vs) = foldl mix_lo_step (mix_lo m) vs"
  by (induction vs arbitrary: m) (simp_all add: mixer_feed_def)

end
