(* ===== verification/Codec.thy ===== *)
theory Codec
  imports Entry
begin

text \<open>
  \<^verbatim>\<open>codec.hpp\<close> and \<^verbatim>\<open>codec.cpp\<close>: the byte writer and reader, the CRC-32 and the
  framed entry codec.

  A \<^verbatim>\<open>ByteWriter\<close> is the bytes it appends, one \<open>put\<close> function per method. A
  \<^verbatim>\<open>ByteReader\<close> is the list of its unread bytes (\<^verbatim>\<open>p_ + pos_\<close> up to
  \<^verbatim>\<open>p_ + n_\<close>, so \<^verbatim>\<open>remaining()\<close> is its length); a method that returns false, and
  clears \<^verbatim>\<open>ok_\<close>, is \<^term>\<open>None\<close>. The contract \<open>byte_format\<close> says that a writer's
  output is read back by its reader whatever follows it.
\<close>

section \<open>Writer\<close>

definition put_u8 :: "u8 \<Rightarrow> bytes" where
  "put_u8 v = [v]"

definition put_u16 :: "u16 \<Rightarrow> bytes" where
  "put_u16 v = [ucast (drop_bit 8 v), ucast v]"

definition put_u32 :: "u32 \<Rightarrow> bytes" where
  "put_u32 v = put_u8 (ucast (drop_bit 24 v)) @ put_u8 (ucast (drop_bit 16 v)) @
     put_u8 (ucast (drop_bit 8 v)) @ put_u8 (ucast v)"

definition put_u64 :: "u64 \<Rightarrow> bytes" where
  "put_u64 v = put_u32 (ucast (drop_bit 32 v)) @ put_u32 (ucast v)"

definition put_bool8 :: "bool \<Rightarrow> bytes" where
  "put_bool8 v = put_u8 (if v then 1 else 0)"

definition put_id :: "'tag id128 \<Rightarrow> bytes" where
  "put_id x = to_bytes x"

text \<open>A string is its bytes; one that does not fit a 32-bit length writes nothing.\<close>

definition string_bytes :: "string \<Rightarrow> bytes" where
  "string_bytes s = map of_char s"

definition put_string :: "string \<Rightarrow> bytes" where
  "put_string s =
     (if 0xFFFFFFFF < length s then []
      else put_u32 (word_of_nat (length s)) @ string_bytes s)"

section \<open>Reader\<close>

definition get_u8 :: "bytes \<Rightarrow> (u8 \<times> bytes) option" where
  "get_u8 r = (case r of [] \<Rightarrow> None | b # r' \<Rightarrow> Some (b, r'))"

definition get_u16 :: "bytes \<Rightarrow> (u16 \<times> bytes) option" where
  "get_u16 r = do {
     (a, r) \<leftarrow> get_u8 r;
     (b, r) \<leftarrow> get_u8 r;
     Some (push_bit 8 (ucast a) OR ucast b, r)
   }"

definition get_u32 :: "bytes \<Rightarrow> (u32 \<times> bytes) option" where
  "get_u32 r = do {
     (a, r) \<leftarrow> get_u8 r;
     (b, r) \<leftarrow> get_u8 r;
     (c, r) \<leftarrow> get_u8 r;
     (d, r) \<leftarrow> get_u8 r;
     Some (push_bit 24 (ucast a) OR push_bit 16 (ucast b) OR push_bit 8 (ucast c) OR ucast d, r)
   }"

definition get_u64 :: "bytes \<Rightarrow> (u64 \<times> bytes) option" where
  "get_u64 r = do {
     (hi, r) \<leftarrow> get_u32 r;
     (lo, r) \<leftarrow> get_u32 r;
     Some (push_bit 32 (ucast hi) OR ucast lo, r)
   }"

definition get_bytes :: "nat \<Rightarrow> bytes \<Rightarrow> (bytes \<times> bytes) option" where
  "get_bytes n r = (if length r < n then None else Some (take n r, drop n r))"

definition get_bool8 :: "bytes \<Rightarrow> (bool \<times> bytes) option" where
  "get_bool8 r = do { (v, r) \<leftarrow> get_u8 r; Some (v \<noteq> 0, r) }"

definition get_id :: "bytes \<Rightarrow> ('tag id128 \<times> bytes) option" where
  "get_id r = do { (b, r) \<leftarrow> get_bytes kIdentityBytes r; Some (from_bytes b, r) }"

definition bytes_string :: "bytes \<Rightarrow> string" where
  "bytes_string bs = map (\<lambda>b. char_of (unat b)) bs"

definition get_string :: "bytes \<Rightarrow> (string \<times> bytes) option" where
  "get_string r = do {
     (len, r) \<leftarrow> get_u32 r;
     (b, r) \<leftarrow> get_bytes (unat len) r;
     Some (bytes_string b, r)
   }"

section \<open>Checksum\<close>

definition crc_bit :: "u32 \<Rightarrow> u32" where
  "crc_bit crc = (let mask = 0 - (crc AND 1) in drop_bit 1 crc XOR (0xEDB88320 AND mask))"

definition crc_byte :: "u32 \<Rightarrow> u8 \<Rightarrow> u32" where
  "crc_byte crc b = (crc_bit ^^ 8) (crc XOR ucast b)"

definition crc32 :: "bytes \<Rightarrow> u32" where
  "crc32 data = NOT (foldl crc_byte 0xFFFFFFFF data)"

section \<open>Frames\<close>

text \<open>The payload of an entry's frame, field by field in the order of \<^verbatim>\<open>encode_entry\<close>.\<close>

definition put_opt_id :: "bool \<Rightarrow> 'tag id128 \<Rightarrow> bytes" where
  "put_opt_id has x = put_bool8 has @ (if has then put_id x else [])"

definition put_quantity :: "quantity \<Rightarrow> bytes" where
  "put_quantity q =
     put_u64 (dbl_bits (q_value q)) @ put_u8 (unit_val (q_unit q)) @
     put_u8 (provenance_val (q_provenance q))"

definition put_source :: "source_identity \<Rightarrow> bytes" where
  "put_source s = put_id (s_worker s) @ put_id (s_boot s) @
     put_u64 (gen_value (s_accounting_generation s))"

definition put_authority :: "authority_envelope \<Rightarrow> bytes" where
  "put_authority a =
     put_u64 (gen_value (a_epoch a)) @ put_id (a_worker_boot a) @
     put_u64 (gen_value (a_request_generation a)) @
     put_u64 (gen_value (a_accounting_generation a)) @ put_id (a_attempt a) @
     put_u64 (gen_value (a_attempt_generation a)) @ put_id (a_dispatch a)"

definition put_kv :: "string \<times> string \<Rightarrow> bytes" where
  "put_kv kv = put_string (fst kv) @ put_string (snd kv)"

definition put_metadata :: "(string, string) omap \<Rightarrow> bytes" where
  "put_metadata m = put_u32 (word_of_nat (length m)) @ concat (map put_kv m)"

definition entry_payload :: "ledger_entry \<Rightarrow> bytes" where
  "entry_payload e =
     put_u8 kCodecEndianMarker @ put_u32 kSchemaVersion @
     put_id (e_id e) @ put_id (e_ledger e) @ put_id (e_tenant e) @ put_id (e_workload e) @
     put_id (e_request e) @ put_id (e_model e) @ put_id (e_model_revision e) @
     put_opt_id (e_has_adapter e) (e_adapter e) @
     put_id (e_attempt e) @ put_id (e_dispatch e) @ put_id (e_worker e) @ put_id (e_node e) @
     put_id (e_device e) @
     put_u8 (event_kind_val (e_event_kind e)) @ put_u8 (resource_kind_val (e_resource_kind e)) @
     put_quantity (e_quantity e) @
     put_u64 (e_start_ts_ns e) @ put_u64 (e_end_ts_ns e) @ put_bool8 (e_has_end e) @
     put_source (e_source e) @ put_authority (e_authority e) @
     put_opt_id (e_has_accounting_policy e) (e_accounting_policy e) @
     put_opt_id (e_has_pricing_policy e) (e_pricing_policy e) @
     put_metadata (e_metadata e)"

text \<open>\<^verbatim>\<open>[u32 payload_len][u32 crc32][payload]\<close>; the length is cast to 32 bits.\<close>

definition frame :: "bytes \<Rightarrow> bytes" where
  "frame payload = put_u32 (word_of_nat (length payload)) @ put_u32 (crc32 payload) @ payload"

text \<open>\<^verbatim>\<open>encode_entry\<close>; \<^term>\<open>None\<close> is the return value false.\<close>

definition encode_entry :: "ledger_entry \<Rightarrow> bytes option" where
  "encode_entry e =
     (if \<not> isfinite (q_value (e_quantity e)) then None
      else if is_physical_resource (e_resource_kind e) \<and> d_lt (q_value (e_quantity e)) d_zero
      then None
      else if q_unit (e_quantity e) = Count \<and> \<not> q_is_integral (e_quantity e) then None
      else if 0xFFFFFFFF < length (e_metadata e) then None
      else Some (frame (entry_payload e)))"

text \<open>
  Decoding. Besides acceptance and rejection there is a third outcome: \<^verbatim>\<open>decode_entry\<close> adds the
  8 header bytes to the 32-bit length in 32-bit arithmetic, so for lengths from \<open>0xFFFFFFF8\<close> on
  the sum wraps, passes the truncation test, and the checksum reads past the end of the buffer.
\<close>

datatype 'a decoded = Decoded 'a nat | Rejected | OutOfBounds

definition get_opt_id :: "bytes \<Rightarrow> ((bool \<times> 'tag id128) \<times> bytes) option" where
  "get_opt_id r = do {
     (has, r) \<leftarrow> get_bool8 r;
     if has then do { (x, r) \<leftarrow> get_id r; Some ((True, x), r) }
     else Some ((False, id_default), r)
   }"

definition get_quantity :: "bytes \<Rightarrow> (quantity \<times> bytes) option" where
  "get_quantity r = do {
     (qbits, r) \<leftarrow> get_u64 r;
     (qu, r) \<leftarrow> get_u8 r;
     (qp, r) \<leftarrow> get_u8 r;
     if \<not> valid_unit qu \<or> \<not> valid_provenance qp then None
     else Some (\<lparr>q_value = Dbl qbits, q_unit = unit_of qu, q_provenance = provenance_of qp\<rparr>, r)
   }"

definition get_source :: "bytes \<Rightarrow> (source_identity \<times> bytes) option" where
  "get_source r = do {
     (w, r) \<leftarrow> get_id r;
     (b, r) \<leftarrow> get_id r;
     (ag, r) \<leftarrow> get_u64 r;
     Some (\<lparr>s_worker = w, s_boot = b, s_accounting_generation = Generation ag\<rparr>, r)
   }"

definition get_authority :: "bytes \<Rightarrow> (authority_envelope \<times> bytes) option" where
  "get_authority r = do {
     (epoch, r) \<leftarrow> get_u64 r;
     (boot, r) \<leftarrow> get_id r;
     (rg, r) \<leftarrow> get_u64 r;
     (agg, r) \<leftarrow> get_u64 r;
     (att, r) \<leftarrow> get_id r;
     (atg, r) \<leftarrow> get_u64 r;
     (disp, r) \<leftarrow> get_id r;
     Some (\<lparr>a_epoch = Generation epoch, a_worker_boot = boot,
            a_request_generation = Generation rg, a_accounting_generation = Generation agg,
            a_attempt = att, a_attempt_generation = Generation atg, a_dispatch = disp\<rparr>, r)
   }"

definition get_kv :: "bytes \<Rightarrow> ((string \<times> string) \<times> bytes) option" where
  "get_kv r = do { (k, r) \<leftarrow> get_string r; (v, r) \<leftarrow> get_string r; Some ((k, v), r) }"

primrec get_kvs :: "nat \<Rightarrow> (string, string) omap \<Rightarrow> bytes \<Rightarrow> ((string, string) omap \<times> bytes) option"
where
  "get_kvs 0 m r = Some (m, r)"
| "get_kvs (Suc n) m r = do { (kv, r) \<leftarrow> get_kv r; get_kvs n (map_emplace (fst kv) (snd kv) m) r }"

definition get_metadata :: "bytes \<Rightarrow> ((string, string) omap \<times> bytes) option" where
  "get_metadata r = do { (meta_count, r) \<leftarrow> get_u32 r; get_kvs (unat meta_count) [] r }"

definition get_kinds :: "bytes \<Rightarrow> ((event_kind \<times> resource_kind) \<times> bytes) option" where
  "get_kinds r = do {
     (ek, r) \<leftarrow> get_u8 r;
     (rk, r) \<leftarrow> get_u8 r;
     if \<not> valid_event_kind ek \<or> \<not> valid_resource_kind rk then None
     else Some ((event_kind_of ek, resource_kind_of rk), r)
   }"

definition decode_payload :: "bytes \<Rightarrow> ledger_entry option" where
  "decode_payload r = do {
     (marker, r) \<leftarrow> get_u8 r;
     if marker \<noteq> kCodecEndianMarker then None else do {
     (ver, r) \<leftarrow> get_u32 r;
     if ver \<noteq> kSchemaVersion then None else do {
     (i, r) \<leftarrow> get_id r;
     (ledger, r) \<leftarrow> get_id r;
     (tenant, r) \<leftarrow> get_id r;
     (workload, r) \<leftarrow> get_id r;
     (request, r) \<leftarrow> get_id r;
     (model, r) \<leftarrow> get_id r;
     (model_revision, r) \<leftarrow> get_id r;
     ((has_adapter, adapter), r) \<leftarrow> get_opt_id r;
     (attempt, r) \<leftarrow> get_id r;
     (dispatch, r) \<leftarrow> get_id r;
     (worker, r) \<leftarrow> get_id r;
     (node, r) \<leftarrow> get_id r;
     (device, r) \<leftarrow> get_id r;
     ((ek, rk), r) \<leftarrow> get_kinds r;
     (q, r) \<leftarrow> get_quantity r;
     (start_ts, r) \<leftarrow> get_u64 r;
     (end_ts, r) \<leftarrow> get_u64 r;
     (has_end, r) \<leftarrow> get_bool8 r;
     (source, r) \<leftarrow> get_source r;
     (authority, r) \<leftarrow> get_authority r;
     ((has_ap, ap), r) \<leftarrow> get_opt_id r;
     ((has_pp, pp), r) \<leftarrow> get_opt_id r;
     (metadata, r) \<leftarrow> get_metadata r;
     if length r \<noteq> 0 then None
     else if \<not> isfinite (q_value q) then None
     else if is_physical_resource rk \<and> d_lt (q_value q) d_zero then None
     else Some
       \<lparr>e_id = i, e_ledger = ledger, e_tenant = tenant, e_workload = workload,
        e_request = request, e_model = model, e_model_revision = model_revision,
        e_has_adapter = has_adapter, e_adapter = adapter, e_attempt = attempt,
        e_dispatch = dispatch, e_worker = worker, e_node = node, e_device = device,
        e_event_kind = ek, e_resource_kind = rk, e_quantity = q,
        e_start_ts_ns = start_ts, e_end_ts_ns = end_ts, e_has_end = has_end,
        e_source = source, e_authority = authority, e_has_accounting_policy = has_ap,
        e_accounting_policy = ap, e_has_pricing_policy = has_pp, e_pricing_policy = pp,
        e_metadata = metadata\<rparr> }}}"

definition be32_at :: "bytes \<Rightarrow> nat \<Rightarrow> u32" where
  "be32_at p k =
     push_bit 24 (ucast (p ! k)) OR push_bit 16 (ucast (p ! (k + 1))) OR
     push_bit 8 (ucast (p ! (k + 2))) OR ucast (p ! (k + 3))"

definition decode_entry :: "bytes \<Rightarrow> ledger_entry decoded" where
  "decode_entry data =
     (let n = length data in
      if n < 8 then Rejected
      else let len = be32_at data 0;
               crc_want = be32_at data 4;
               total = unat (8 + len)
           in if n < total then Rejected
              else if n < 8 + unat len then OutOfBounds
              else let payload = take (unat len) (drop 8 data)
                   in if crc32 payload \<noteq> crc_want then Rejected
                      else case decode_payload payload of
                             None \<Rightarrow> Rejected
                           | Some e \<Rightarrow> Decoded e total)"

section \<open>The contract between a writer and its reader\<close>

locale byte_format =
  fixes put :: "'a \<Rightarrow> bytes"
    and get :: "bytes \<Rightarrow> ('a \<times> bytes) option"
    and ok :: "'a \<Rightarrow> bool"
  assumes get_put: "ok x \<Longrightarrow> get (put x @ r) = Some (x, r)"
begin

lemma get_put_end: "ok x \<Longrightarrow> get (put x) = Some (x, [])"
  using get_put [of x "[]"] by simp

lemma put_prefix_free:
  assumes "ok x" "ok y" "put x @ r = put y @ r'"
  shows "x = y \<and> r = r'"
proof -
  have "Some (x, r) = get (put x @ r)" using assms(1) by (rule get_put [symmetric])
  also have "\<dots> = get (put y @ r')" using assms(3) by (rule arg_cong)
  also have "\<dots> = Some (y, r')" using assms(2) by (rule get_put)
  finally show ?thesis by simp
qed

lemma put_concat_inj:
  "list_all ok xs \<Longrightarrow> list_all ok ys \<Longrightarrow> length xs = length ys \<Longrightarrow>
     concat (map put xs) @ r = concat (map put ys) @ r' \<Longrightarrow> xs = ys \<and> r = r'"
proof (induction xs ys rule: list_induct2')
  case (4 x xs y ys)
  then have "x = y \<and> concat (map put xs) @ r = concat (map put ys) @ r'"
    using put_prefix_free [of x y] by simp
  with "4" show ?case by simp
qed simp_all

end

lemma get_u8_Cons [simp]: "get_u8 (b # r) = Some (b, r)"
  by (simp add: get_u8_def)

interpretation u8_format: byte_format put_u8 get_u8 "\<lambda>_. True"
  by unfold_locales (simp add: put_u8_def)

interpretation u16_format: byte_format put_u16 get_u16 "\<lambda>_. True"
proof
  fix x :: u16 and r
  have "push_bit 8 (take_bit 8 (drop_bit 8 x)) OR take_bit 8 x = take_bit 16 x"
    by (simp add: join_digit)
  then show "get_u16 (put_u16 x @ r) = Some (x, r)"
    by (simp add: get_u16_def put_u16_def ucast_ucast_u8 take_bit_full)
qed

interpretation u32_format: byte_format put_u32 get_u32 "\<lambda>_. True"
proof
  fix x :: u32 and r
  have "push_bit 24 (take_bit 8 (drop_bit 24 x)) OR push_bit 16 (take_bit 8 (drop_bit 16 x)) OR
      push_bit 8 (take_bit 8 (drop_bit 8 x)) OR take_bit 8 x = take_bit 32 x"
    by (simp add: join_digit)
  then show "get_u32 (put_u32 x @ r) = Some (x, r)"
    by (simp add: get_u32_def put_u32_def put_u8_def ucast_ucast_u8 take_bit_full)
qed

lemma ucast_ucast_u32: "ucast (ucast w :: u32) = take_bit 32 w" for w :: u64
  by (rule bit_word_eqI) (auto simp: bit_simps)

interpretation u64_format: byte_format put_u64 get_u64 "\<lambda>_. True"
proof
  fix x :: u64 and r
  have "push_bit 32 (take_bit 32 (drop_bit 32 x)) OR take_bit 32 x = take_bit 64 x"
    by (simp add: join_digit)
  then show "get_u64 (put_u64 x @ r) = Some (x, r)"
    by (simp add: get_u64_def put_u64_def u32_format.get_put ucast_ucast_u32 take_bit_full)
qed

interpretation bool8_format: byte_format put_bool8 get_bool8 "\<lambda>_. True"
  by unfold_locales (simp add: get_bool8_def put_bool8_def put_u8_def)

interpretation id_format: byte_format put_id get_id "\<lambda>_. True"
proof
  fix x :: "'tag id128" and r
  have "from_bytes (to_bytes x) = x"
    using from_to_bytes [of x "[]"] by simp
  then show "get_id (put_id x @ r) = Some (x, r)"
    by (simp add: get_id_def put_id_def get_bytes_def kIdentityBytes_def)
qed

definition string_fits :: "string \<Rightarrow> bool" where
  "string_fits s = (length s \<le> 0xFFFFFFFF)"

lemma bytes_string_bytes [simp]: "bytes_string (string_bytes s) = s"
proof (induction s)
  case (Cons c s)
  have "char_of (unat (of_char c :: u8)) = c"
  proof -
    have "unat (of_char c :: u8) = of_char c"
      unfolding of_nat_of_char [symmetric, where 'a = u8]
      by (simp add: unat_of_nat take_bit_eq_mod)
    then show ?thesis by simp
  qed
  with Cons show ?case by (simp add: bytes_string_def string_bytes_def)
qed (simp add: bytes_string_def string_bytes_def)

lemma length_string_bytes [simp]: "length (string_bytes s) = length s"
  by (simp add: string_bytes_def)

lemma unat_word_of_length:
  "n \<le> 0xFFFFFFFF \<Longrightarrow> unat (word_of_nat n :: u32) = n"
  by (simp add: unat_of_nat take_bit_nat_eq_self)

interpretation string_format: byte_format put_string get_string string_fits
  by unfold_locales
    (simp add: string_fits_def get_string_def put_string_def u32_format.get_put
      unat_word_of_length get_bytes_def)

interpretation kv_format: byte_format put_kv get_kv "\<lambda>kv. string_fits (fst kv) \<and> string_fits (snd kv)"
  by unfold_locales (simp add: put_kv_def get_kv_def string_format.get_put)

lemmas field_formats =
  u8_format.get_put u32_format.get_put u64_format.get_put bool8_format.get_put id_format.get_put

interpretation quantity_format: byte_format put_quantity get_quantity "\<lambda>_. True"
  by unfold_locales (simp add: put_quantity_def get_quantity_def field_formats)

interpretation source_format: byte_format put_source get_source "\<lambda>_. True"
  by unfold_locales (simp add: put_source_def get_source_def field_formats)

interpretation authority_format: byte_format put_authority get_authority "\<lambda>_. True"
  by unfold_locales (simp add: put_authority_def get_authority_def field_formats)

text \<open>An absent optional identity is not written and reads back as the default.\<close>

lemma get_put_opt_id:
  "get_opt_id (put_opt_id has x @ r) = Some ((has, if has then x else id_default), r)"
  by (simp add: get_opt_id_def put_opt_id_def field_formats)

lemma get_put_kinds:
  "get_kinds (put_u8 (event_kind_val k) @ put_u8 (resource_kind_val r) @ bs) = Some ((k, r), bs)"
  by (simp add: get_kinds_def field_formats)

text \<open>Metadata: storing the pairs in increasing key order rebuilds the map.\<close>

definition metadata_ok :: "(string, string) omap \<Rightarrow> bool" where
  "metadata_ok m = (map_wf m \<and> length m \<le> 0xFFFFFFFF \<and>
     list_all (\<lambda>kv. string_fits (fst kv) \<and> string_fits (snd kv)) m)"

lemma get_put_kvs:
  "map_wf (m @ kvs) \<Longrightarrow> list_all (\<lambda>kv. string_fits (fst kv) \<and> string_fits (snd kv)) kvs \<Longrightarrow>
     get_kvs (length kvs) m (concat (map put_kv kvs) @ r) = Some (m @ kvs, r)"
proof (induction kvs arbitrary: m)
  case (Cons kv kvs)
  have "map_emplace (fst kv) (snd kv) m = m @ [kv]"
    using map_wf_append_Cons [OF Cons.prems(1)] map_emplace_append [of m "fst kv" "snd kv"] by simp
  with Cons show ?case
    by (simp add: kv_format.get_put)
qed simp

interpretation metadata_format: byte_format put_metadata get_metadata metadata_ok
proof
  fix m r
  assume "metadata_ok m"
  then show "get_metadata (put_metadata m @ r) = Some (m, r)"
    using get_put_kvs [of "[]" m r]
    by (simp add: metadata_ok_def get_metadata_def put_metadata_def field_formats
        unat_word_of_length)
qed

section \<open>Decoding what was encoded\<close>

text \<open>What a record is after a round trip: absent optional identities become the default.\<close>

definition normalize_entry :: "ledger_entry \<Rightarrow> ledger_entry" where
  "normalize_entry e =
     e\<lparr>e_adapter := (if e_has_adapter e then e_adapter e else id_default),
       e_accounting_policy := (if e_has_accounting_policy e then e_accounting_policy e else id_default),
       e_pricing_policy := (if e_has_pricing_policy e then e_pricing_policy e else id_default)\<rparr>"

definition content_encodable :: "ledger_entry \<Rightarrow> bool" where
  "content_encodable e =
     (isfinite (q_value (e_quantity e)) \<and>
      \<not> (is_physical_resource (e_resource_kind e) \<and> d_lt (q_value (e_quantity e)) d_zero))"

lemma normalize_entry_eq:
  "isfinite (q_value (e_quantity e)) \<Longrightarrow> entry_eq (normalize_entry e) e"
  by (simp add: entry_eq_def normalize_entry_def d_eq_refl isfinite_not)

lemma normalize_entry_simps [simp]:
  "e_id (normalize_entry e) = e_id e" "e_quantity (normalize_entry e) = e_quantity e"
  "e_resource_kind (normalize_entry e) = e_resource_kind e"
  "e_metadata (normalize_entry e) = e_metadata e"
  by (simp_all add: normalize_entry_def)

lemma entry_payload_normalize [simp]: "entry_payload (normalize_entry e) = entry_payload e"
  by (simp add: entry_payload_def normalize_entry_def put_opt_id_def)

lemma normalize_idem [simp]: "normalize_entry (normalize_entry e) = normalize_entry e"
  by (simp add: normalize_entry_def)

lemmas entry_formats [codec_simps] =
  field_formats get_put_opt_id get_put_kinds quantity_format.get_put source_format.get_put
  authority_format.get_put metadata_format.get_put_end

lemma decode_entry_payload:
  assumes "content_encodable e" and "metadata_ok (e_metadata e)"
  shows "decode_payload (entry_payload e) = Some (normalize_entry e)"
  using assms
  by (simp add: decode_payload_def entry_payload_def codec_simps content_encodable_def)
    (simp add: normalize_entry_def)

lemma length_put_u32 [simp]: "length (put_u32 v) = 4"
  by (simp add: put_u32_def put_u8_def)

lemma be32_at_append: "be32_at (pre @ put_u32 v @ post) (length pre) = v"
proof -
  have "push_bit 24 (take_bit 8 (drop_bit 24 v)) OR push_bit 16 (take_bit 8 (drop_bit 16 v)) OR
      push_bit 8 (take_bit 8 (drop_bit 8 v)) OR take_bit 8 v = take_bit 32 v"
    by (simp add: join_digit)
  then show ?thesis
    by (simp add: be32_at_def put_u32_def put_u8_def nth_append ucast_ucast_u8 take_bit_full)
qed

lemma be32_at_header: "be32_at (put_u32 v @ r) 0 = v" "be32_at (put_u32 u @ put_u32 v @ r) 4 = v"
  using be32_at_append [of "[]"] be32_at_append [of "put_u32 u"] by simp_all

lemma length_frame [simp]: "length (frame p) = 8 + length p"
  by (simp add: frame_def)

lemma unat_add8:
  "length p < 2 ^ 32 - 8 \<Longrightarrow> unat (8 + word_of_nat (length p) :: u32) = 8 + length p"
proof -
  assume "length p < 2 ^ 32 - 8"
  then have "unat (word_of_nat (8 + length p) :: u32) = 8 + length p"
    by (intro unat_word_of_length) simp
  then show ?thesis by simp
qed

text \<open>A frame decodes as its payload does, whatever follows it, as long as 32 bits hold its size.\<close>

lemma decode_raw_frame:
  assumes "length p < 2 ^ 32 - 8"
  shows "decode_entry (put_u32 (word_of_nat (length p)) @ put_u32 c @ p @ rest) =
    (if crc32 p \<noteq> c then Rejected
     else case decode_payload p of None \<Rightarrow> Rejected | Some e \<Rightarrow> Decoded e (8 + length p))"
  using assms unat_add8 [OF assms] unat_word_of_length [of "length p"]
  by (simp add: decode_entry_def be32_at_header Let_def split: option.split)

lemma decode_frame:
  assumes "length p < 2 ^ 32 - 8"
  shows "decode_entry (frame p @ rest) =
    (case decode_payload p of None \<Rightarrow> Rejected | Some e \<Rightarrow> Decoded e (length (frame p)))"
proof -
  have "frame p @ rest = put_u32 (word_of_nat (length p)) @ put_u32 (crc32 p) @ p @ rest"
    by (simp add: frame_def)
  then show ?thesis
    using decode_raw_frame [OF assms, of "crc32 p" rest] by (simp split: option.split)
qed

definition encodable :: "ledger_entry \<Rightarrow> bool" where
  "encodable e = (encode_entry e \<noteq> None \<and> metadata_ok (e_metadata e) \<and>
     length (entry_payload e) < 2 ^ 32 - 8)"

lemma encode_entry_Some:
  "encode_entry e = Some f \<Longrightarrow> f = frame (entry_payload e) \<and> content_encodable e"
  by (auto simp: encode_entry_def content_encodable_def split: if_splits)

lemma decode_encode_append:
  assumes "encodable e" and "encode_entry e = Some f"
  shows "decode_entry (f @ rest) = Decoded (normalize_entry e) (length f)"
  using assms encode_entry_Some [OF assms(2)]
  by (simp add: encodable_def decode_frame decode_entry_payload)

section \<open>The checksum notices a changed byte\<close>

lemma crc_bit_eq:
  "crc_bit c = drop_bit 1 c XOR (if odd c then 0xEDB88320 else 0)"
proof -
  have "c AND 1 = (if odd c then 1 else 0)"
    by (simp add: and_one_eq mod2_eq_if)
  then show ?thesis by (simp add: crc_bit_def)
qed

lemma bit31_crc_bit: "bit (crc_bit c) 31 = odd c"
  by (simp add: crc_bit_eq bit_xor_iff bit_drop_bit_eq) (simp add: bit_word_iff_drop_bit_and)

lemma drop_bit_1_odd_inj:
  fixes c d :: u32
  assumes "drop_bit 1 c = drop_bit 1 d" and "odd c = odd d"
  shows "c = d"
proof (rule bit_word_eqI)
  fix n
  assume "n < LENGTH(32)"
  show "bit c n = bit d n"
  proof (cases n)
    case 0
    then show ?thesis using assms(2) by (simp add: bit_0)
  next
    case (Suc k)
    have "bit (drop_bit 1 c) k = bit (drop_bit 1 d) k" using assms(1) by simp
    then show ?thesis by (simp add: bit_drop_bit_eq Suc)
  qed
qed

lemma crc_bit_inj:
  assumes eq: "crc_bit c = crc_bit d"
  shows "c = d"
proof (rule drop_bit_1_odd_inj)
  show odd: "odd c = odd d"
    using arg_cong [OF eq, of "\<lambda>w. bit w 31"] by (simp only: bit31_crc_bit)
  show "drop_bit 1 c = drop_bit 1 d"
    by (rule xor_cancel_right [where c = "if odd c then 0xEDB88320 else 0"])
      (use eq odd in \<open>simp only: crc_bit_eq\<close>)
qed

lemma crc_bits_inj: "(crc_bit ^^ n) c = (crc_bit ^^ n) d \<Longrightarrow> c = d"
  by (induction n) (auto dest: crc_bit_inj)

lemma ucast_u8_u32_inj: "(ucast a :: u32) = ucast b \<Longrightarrow> a = b" for a b :: u8
proof (rule bit_word_eqI)
  fix n
  assume "(ucast a :: u32) = ucast b" and n: "n < LENGTH(8)"
  then have "bit (ucast a :: u32) n = bit (ucast b :: u32) n" by simp
  with n show "bit a n = bit b n" by (simp add: bit_simps)
qed

interpretation crc: injective_step crc_byte
proof
  fix s t :: u32 and a b :: u8
  show "crc_byte s a = crc_byte t a \<Longrightarrow> s = t"
    by (auto simp: crc_byte_def dest!: crc_bits_inj xor_cancel_right)
  show "crc_byte s a = crc_byte s b \<Longrightarrow> a = b"
  proof -
    assume "crc_byte s a = crc_byte s b"
    then have "(ucast a :: u32) = ucast b"
      by (auto simp: crc_byte_def dest!: crc_bits_inj xor_cancel_left)
    then show "a = b" by (rule ucast_u8_u32_inj)
  qed
qed

lemma crc32_one_change: "crc32 (pre @ a # post) = crc32 (pre @ b # post) \<longleftrightarrow> a = b"
  by (simp only: crc32_def bit.compl_eq_compl_iff crc.foldl_one_change_iff)

lemma crc32_list_update:
  assumes "i < length p" and "b \<noteq> p ! i"
  shows "crc32 (p[i := b]) \<noteq> crc32 p"
proof -
  have p: "p = take i p @ p ! i # drop (Suc i) p"
    using assms(1) by (rule id_take_nth_drop)
  have "p[i := b] = take i p @ b # drop (Suc i) p"
    using assms(1) by (rule upd_conv_take_nth_drop)
  moreover have "crc32 (take i p @ b # drop (Suc i) p) \<noteq> crc32 (take i p @ p ! i # drop (Suc i) p)"
    using assms(2) crc32_one_change by blast
  ultimately show ?thesis using p by simp
qed

section \<open>What a decoded record satisfies\<close>

lemma get_kvs_wf: "get_kvs n m r = Some (m', r') \<Longrightarrow> map_wf m \<Longrightarrow> map_wf m'"
  by (induction n arbitrary: m r) (auto split: bind_splits)

lemma get_metadata_wf: "get_metadata r = Some (m, r') \<Longrightarrow> map_wf m"
  by (auto simp: get_metadata_def dest: get_kvs_wf split: bind_splits)

lemma decode_payload_sound:
  "decode_payload r = Some e \<Longrightarrow> content_encodable e \<and> map_wf (e_metadata e)"
  unfolding decode_payload_def content_encodable_def
  by (auto dest!: get_metadata_wf split: bind_splits if_splits)

lemma decode_entry_Decoded:
  assumes "decode_entry data = Decoded e n"
  shows "8 \<le> length data" "n = unat (8 + be32_at data 0)" "n \<le> length data"
    "8 + unat (be32_at data 0) \<le> length data"
    "decode_payload (take (unat (be32_at data 0)) (drop 8 data)) = Some e"
    "crc32 (take (unat (be32_at data 0)) (drop 8 data)) = be32_at data 4"
  using assms by (auto simp: decode_entry_def Let_def split: if_splits option.splits)

lemma put_u32_be32_at:
  "length bs = 4 \<Longrightarrow> put_u32 (be32_at bs 0) = bs"
proof -
  assume "length bs = 4"
  then obtain a b c d where bs: "bs = [a, b, c, d]"
    by (auto simp: numeral_eq_Suc length_Suc_conv)
  have "ucast (drop_bit 24 w) = a" "ucast (drop_bit 16 w) = b" "ucast (drop_bit 8 w) = c" "ucast w = d"
    if "w = push_bit 24 (ucast a) OR push_bit 16 (ucast b) OR push_bit 8 (ucast c) OR ucast d"
    for w :: u32
    unfolding that by (rule bit_word_eqI; auto simp: bit_simps dest: bit_imp_le_length)+
  then show ?thesis by (simp add: bs be32_at_def put_u32_def put_u8_def)
qed

section \<open>Properties\<close>

lemma length_put [simp]:
  "length (put_u8 a) = 1" "length (put_u64 b) = 8" "length (put_bool8 c) = 1" "length (put_id i) = 16"
  by (simp_all add: put_u8_def put_u64_def put_bool8_def put_id_def)

lemma entry_default_encodable: "encodable (entry_default\<lparr>e_id := x\<rparr>)"
proof -
  have "encode_entry (entry_default\<lparr>e_id := x\<rparr>) \<noteq> None"
    by (simp add: encode_entry_def entry_default_def quantity_default_def is_physical_resource_def)
  moreover have "length (entry_payload (entry_default\<lparr>e_id := x\<rparr>)) < 2 ^ 32 - 8"
    by (simp add: entry_payload_def entry_default_def put_opt_id_def put_quantity_def
        put_source_def put_authority_def put_metadata_def)
  ultimately show ?thesis
    by (simp add: encodable_def metadata_ok_def entry_default_def map_wf_def)
qed

lemma encodable_frame:
  "encodable e \<Longrightarrow> encode_entry e = Some (frame (entry_payload e)) \<and> content_encodable e"
  by (auto simp: encodable_def dest: encode_entry_Some)

text \<open>C14: An encoded entry decodes, whatever bytes follow its frame in the buffer, to an entry that
  the code's equality identifies with it (only absent optional identities are reset), and exactly
  the bytes of the frame are consumed.\<close>

theorem decode_encode_entry:
  assumes "encodable e" and "encode_entry e = Some f"
  shows "decode_entry (f @ rest) = Decoded (normalize_entry e) (length f) \<and>
    entry_eq (normalize_entry e) e"
  using decode_encode_append [OF assms] encode_entry_Some [OF assms(2)]
  by (simp add: normalize_entry_eq content_encodable_def)

theorem decode_encode_entry_witness:
  "decode_entry (frame (entry_payload (entry_default\<lparr>e_id := Id128 0 7\<rparr>)) @ [1, 2]) =
     Decoded (normalize_entry (entry_default\<lparr>e_id := Id128 0 7\<rparr>))
       (length (frame (entry_payload (entry_default\<lparr>e_id := Id128 0 7\<rparr>))))"
  using decode_encode_entry [OF entry_default_encodable, of "Id128 0 7"]
    encodable_frame [OF entry_default_encodable, of "Id128 0 7"] by blast

text \<open>The encoding is a code: when two frames start the same buffer they are the same frame of
  the same entry (up to absent optional identities), so a stream of frames has one reading.\<close>

theorem encode_entry_unambiguous:
  assumes "encodable a" "encodable b" "encode_entry a = Some f" "encode_entry b = Some g"
    and "f @ r = g @ r'"
  shows "normalize_entry a = normalize_entry b \<and> f = g \<and> r = r'"
proof -
  have "Decoded (normalize_entry a) (length f) = Decoded (normalize_entry b) (length g)"
    using decode_encode_append [OF assms(1,3), of r] decode_encode_append [OF assms(2,4), of r']
      assms(5) by simp
  with assms(5) show ?thesis by simp
qed

theorem encode_entry_unambiguous_witness:
  "normalize_entry (entry_default\<lparr>e_id := Id128 0 7\<rparr>) = normalize_entry (entry_default\<lparr>e_id := Id128 0 7\<rparr>) \<and>
   [1 :: u8] = [1]"
  using encode_entry_unambiguous [OF entry_default_encodable entry_default_encodable,
      of "Id128 0 7" _ "Id128 0 7" _ "[1]" "[1]"]
    encodable_frame [OF entry_default_encodable, of "Id128 0 7"] by blast

text \<open>A frame with one byte of the checksum or the payload changed no longer matches its checksum.\<close>

lemma frame_update:
  assumes "4 \<le> i" "i < length (frame p)" and "b \<noteq> frame p ! i"
  obtains c p' where "(frame p)[i := b] = put_u32 (word_of_nat (length p')) @ put_u32 c @ p'"
    "length p' = length p" "crc32 p' \<noteq> c"
proof (cases "i < 8")
  case True
  let ?c = "(put_u32 (crc32 p))[i - 4 := b]"
  have i4: "i - 4 < 4" using True assms(1) by linarith
  have "(frame p)[i := b] = put_u32 (word_of_nat (length p)) @ ?c @ p"
    using True assms(1) by (auto simp: frame_def list_update_append)
  moreover have "?c \<noteq> put_u32 (crc32 p)"
    using assms(1,3) i4 by (auto simp: frame_def nth_append list_update_same_conv)
  then have "crc32 p \<noteq> be32_at ?c 0"
    using put_u32_be32_at [of ?c] by auto
  ultimately show thesis
    using that [of p "be32_at ?c 0"] put_u32_be32_at [of ?c] by simp
next
  case False
  let ?p = "p[i - 8 := b]"
  have "(frame p)[i := b] = put_u32 (word_of_nat (length p)) @ put_u32 (crc32 p) @ ?p"
    using False by (auto simp: frame_def list_update_append)
  moreover have "crc32 ?p \<noteq> crc32 p"
  proof (rule crc32_list_update)
    show "i - 8 < length p" using False assms(2) by simp
    have "\<not> i - 4 < 4" using False by linarith
    then show "b \<noteq> p ! (i - 8)" using False assms(3) by (simp add: frame_def nth_append)
  qed
  ultimately show thesis using that [of ?p "crc32 p"] by simp
qed

text \<open>C30: Corruption is noticed: a frame in which one byte of the payload or of the stored checksum
  differs is rejected.\<close>

theorem decode_corrupted_payload:
  assumes "encodable e" and "encode_entry e = Some f" and "4 \<le> i" "i < length f" and "b \<noteq> f ! i"
  shows "decode_entry (f[i := b] @ rest) = Rejected"
proof -
  have f: "f = frame (entry_payload e)" and len: "length (entry_payload e) < 2 ^ 32 - 8"
    using assms(1) encode_entry_Some [OF assms(2)] by (auto simp: encodable_def)
  show ?thesis
    using assms(3-5) unfolding f
  proof (rule frame_update)
    fix c p'
    assume "(frame (entry_payload e))[i := b] = put_u32 (word_of_nat (length p')) @ put_u32 c @ p'"
      "length p' = length (entry_payload e)" "crc32 p' \<noteq> c"
    with len decode_raw_frame [of p' c rest]
    show "decode_entry ((frame (entry_payload e))[i := b] @ rest) = Rejected" by simp
  qed
qed

theorem decode_corrupted_payload_witness:
  "decode_entry ((frame (entry_payload (entry_default\<lparr>e_id := Id128 0 7\<rparr>)))[8 := 9] @ []) = Rejected"
proof -
  let ?f = "frame (entry_payload (entry_default\<lparr>e_id := Id128 0 7\<rparr>))"
  have "?f ! 8 = 0xBE" "8 < length ?f"
    by (simp_all add: frame_def nth_append entry_payload_def put_u8_def kCodecEndianMarker_def)
  then show ?thesis
    using decode_corrupted_payload [OF entry_default_encodable, of "Id128 0 7" ?f 8 9 "[]"]
      encodable_frame [OF entry_default_encodable, of "Id128 0 7"] by simp
qed

lemma unat_add8_word:
  "unat (8 + w) = (if unat w < 4294967288 then 8 + unat w else unat w - 4294967288)" for w :: u32
  using unat_u32_lt [of w] by (auto simp: unat_word_ariths mod_if)

text \<open>What the decoder accepts is sound whatever bytes it is given: the quantity is finite and
  non-negative for physical resources, the metadata keys are in strictly increasing order, and the
  bytes it reports as consumed lie inside the buffer; in a buffer below 4 GiB they are the whole
  frame.\<close>

theorem decode_entry_sound:
  assumes "decode_entry data = Decoded e n"
  shows "content_encodable e \<and> map_wf (e_metadata e) \<and> n \<le> length data \<and>
    (length data < 2 ^ 32 \<longrightarrow> n = 8 + unat (be32_at data 0))"
  using decode_payload_sound [OF decode_entry_Decoded(5) [OF assms]]
    decode_entry_Decoded(2,3,4) [OF assms]
  by (simp add: unat_add8_word split: if_splits)

theorem decode_entry_sound_witness:
  "content_encodable (normalize_entry (entry_default\<lparr>e_id := Id128 0 7\<rparr>))"
  using decode_entry_sound decode_encode_append [OF entry_default_encodable, of "Id128 0 7"]
    encodable_frame [OF entry_default_encodable, of "Id128 0 7"] by blast

text \<open>C32: The decoder leaves its buffer exactly when the 32-bit length field is at least
  \<open>0xFFFFFFF8\<close> and the buffer is shorter than the frame it announces: adding the 8 header bytes then
  wraps around and the truncation test passes.\<close>

theorem decode_entry_out_of_bounds:
  "decode_entry data = OutOfBounds \<longleftrightarrow>
     8 \<le> length data \<and> 0xFFFFFFF8 \<le> be32_at data 0 \<and> length data < 8 + unat (be32_at data 0)"
proof -
  let ?len = "be32_at data 0"
  have small: "unat ?len < 4294967296" using unat_u32_lt [of ?len] by simp
  have big: "0xFFFFFFF8 \<le> ?len \<longleftrightarrow> 4294967288 \<le> unat ?len"
    by (simp add: word_le_nat_alt)
  show ?thesis
    unfolding decode_entry_def Let_def unat_add8_word big using small
    by (auto split: option.splits)
qed

end
