(* ===== verification/Authority.thy ===== *)
theory Authority
  imports Entry
begin

text \<open>
  \<^verbatim>\<open>authority_state.hpp\<close>: the coordinator-held view of the world against which every event is
  fenced, and \<^verbatim>\<open>validate_authority\<close>.
\<close>

record authority_state =
  st_epoch :: coordinator_epoch
  st_accounting_generation :: accounting_generation
  st_request_generation :: "(request_id, request_generation) omap"
  st_current_attempt :: "(request_id, attempt_id) omap"
  st_attempt_generation :: "(request_id, attempt_generation) omap"
  st_worker_boot :: "(worker_id, worker_boot_id) omap"
  st_request_rolled :: "(request_id, bool) omap"
  st_enforce_request_scope :: bool

definition authority_default :: authority_state where
  "authority_default =
     \<lparr>st_epoch = gen_default, st_accounting_generation = gen_default, st_request_generation = [],
      st_current_attempt = [], st_attempt_generation = [], st_worker_boot = [],
      st_request_rolled = [], st_enforce_request_scope = True\<rparr>"

datatype authority_verdict =
    Accept | StaleEpoch | StaleWorker | StaleGeneration | UnknownWorker | InvalidAuthority

primrec authority_verdict_name :: "authority_verdict \<Rightarrow> string" where
  "authority_verdict_name Accept = ''accept''"
| "authority_verdict_name StaleEpoch = ''stale_epoch''"
| "authority_verdict_name StaleWorker = ''stale_worker''"
| "authority_verdict_name StaleGeneration = ''stale_generation''"
| "authority_verdict_name UnknownWorker = ''unknown_worker''"
| "authority_verdict_name InvalidAuthority = ''invalid''"

definition validate_authority :: "ledger_entry \<Rightarrow> authority_state \<Rightarrow> authority_verdict" where
  "validate_authority e s =
     (if a_epoch (e_authority e) \<noteq> st_epoch s then StaleEpoch
      else if a_accounting_generation (e_authority e) \<noteq> st_accounting_generation s
      then StaleGeneration
      else case map_find (st_worker_boot s) (e_worker e) of
        None \<Rightarrow> UnknownWorker
      | Some boot \<Rightarrow>
          if boot \<noteq> a_worker_boot (e_authority e) then StaleWorker
          else if \<not> st_enforce_request_scope s then Accept
          else if map_find (st_request_rolled s) (e_request e) = Some True
                  \<and> e_event_kind e \<noteq> RequestStart
          then StaleGeneration
          else if (case map_find (st_request_generation s) (e_request e) of
                     None \<Rightarrow> False | Some rg \<Rightarrow> rg \<noteq> a_request_generation (e_authority e))
          then StaleGeneration
          else if (case map_find (st_current_attempt s) (e_request e) of
                     None \<Rightarrow> False | Some at \<Rightarrow> at \<noteq> a_attempt (e_authority e))
          then StaleGeneration
          else if (case map_find (st_attempt_generation s) (e_request e) of
                     None \<Rightarrow> False | Some g \<Rightarrow> g \<noteq> a_attempt_generation (e_authority e))
          then StaleGeneration
          else Accept)"

section \<open>The specification of the fence\<close>

text \<open>An axis of the envelope agrees with the state when the state says nothing or the same.\<close>

definition agrees :: "'a option \<Rightarrow> 'a \<Rightarrow> bool" where
  "agrees known observed = (known = None \<or> known = Some observed)"

definition current_authority :: "ledger_entry \<Rightarrow> authority_state \<Rightarrow> bool" where
  "current_authority e s =
     (a_epoch (e_authority e) = st_epoch s \<and>
      a_accounting_generation (e_authority e) = st_accounting_generation s \<and>
      map_find (st_worker_boot s) (e_worker e) = Some (a_worker_boot (e_authority e)) \<and>
      (st_enforce_request_scope s \<longrightarrow>
         (e_event_kind e = RequestStart \<or> map_find (st_request_rolled s) (e_request e) \<noteq> Some True) \<and>
         agrees (map_find (st_request_generation s) (e_request e))
           (a_request_generation (e_authority e)) \<and>
         agrees (map_find (st_current_attempt s) (e_request e)) (a_attempt (e_authority e)) \<and>
         agrees (map_find (st_attempt_generation s) (e_request e))
           (a_attempt_generation (e_authority e))))"

lemma validate_authority_Accept: "validate_authority e s = Accept \<longleftrightarrow> current_authority e s"
  by (auto simp: validate_authority_def current_authority_def agrees_def split: option.splits)

lemma validate_authority_never_invalid: "validate_authority e s \<noteq> InvalidAuthority"
  by (auto simp: validate_authority_def split: option.splits)

section \<open>Properties\<close>

text \<open>The fence accepts exactly the events of current authority: the epoch and the accounting
  generation are the coordinator's, the worker registered with this boot, and, with request scope
  enforced, the request is not rolled (unless the event starts it) and no known request generation,
  attempt or attempt generation differs. The verdict for malformed authority is never given.\<close>

theorem validate_authority_exact:
  "(validate_authority e s = Accept \<longleftrightarrow> current_authority e s) \<and>
   validate_authority e s \<noteq> InvalidAuthority \<and>
   (validate_authority e s = StaleEpoch \<longleftrightarrow> a_epoch (e_authority e) \<noteq> st_epoch s) \<and>
   (validate_authority e s = UnknownWorker \<longleftrightarrow>
      a_epoch (e_authority e) = st_epoch s \<and>
      a_accounting_generation (e_authority e) = st_accounting_generation s \<and>
      map_find (st_worker_boot s) (e_worker e) = None)"
  using validate_authority_Accept [of e s] validate_authority_never_invalid [of e s]
  by (auto simp: validate_authority_def split: option.splits)

end
