(* ===== verification/Ledger.thy ===== *)
theory Ledger
  imports Authority "HOL-Library.Multiset"
begin

text \<open>
  \<^verbatim>\<open>ledger.hpp\<close>: the append-only ledger. Every method holds the ledger's mutex for its whole
  body, so a call is one atomic step and any interleaving of calls is a sequence of them. The hash
  index maps an entry's identity to its position. The authority a ledger may have attached is a
  pointer to a state that others change: the record keeps the address, \<open>authority_of\<close> reads it in
  a store, and \<open>ledger_append\<close> takes the state read at the call (\<^term>\<open>None\<close> when detached).
\<close>

section \<open>State and operations\<close>

datatype append_status = Accepted | Duplicate | DuplicateConflict | Stale | Invalid

primrec append_status_name :: "append_status \<Rightarrow> string" where
  "append_status_name Accepted = ''accepted''"
| "append_status_name Duplicate = ''duplicate''"
| "append_status_name DuplicateConflict = ''duplicate_conflict''"
| "append_status_name Stale = ''stale''"
| "append_status_name Invalid = ''invalid''"

record append_result =
  ar_status :: append_status
  ar_reason :: string

definition stored :: "append_result \<Rightarrow> bool" where
  "stored r = (ar_status r = Accepted)"

record ledger =
  l_id :: ledger_id
  l_entries :: "ledger_entry list"
  l_index :: "ledger_entry_id \<rightharpoonup> nat"
  l_authority :: "nat option"

definition ledger_new :: "ledger_id \<Rightarrow> ledger" where
  "ledger_new i = \<lparr>l_id = i, l_entries = [], l_index = Map.empty, l_authority = None\<rparr>"

definition attach_authority :: "ledger \<Rightarrow> nat \<Rightarrow> ledger" where
  "attach_authority l p = l\<lparr>l_authority := Some p\<rparr>"

definition detach_authority :: "ledger \<Rightarrow> ledger" where
  "detach_authority l = l\<lparr>l_authority := None\<rparr>"

definition authority_of :: "(nat \<Rightarrow> authority_state) \<Rightarrow> ledger \<Rightarrow> authority_state option" where
  "authority_of store l = map_option store (l_authority l)"

definition content_is_valid :: "ledger_entry \<Rightarrow> bool" where
  "content_is_valid e =
     (if \<not> q_is_finite (e_quantity e) then False
      else let physical =
             (e_resource_kind e = RCompute \<or> e_resource_kind e = RMemory \<or>
              e_resource_kind e = RKv \<or> e_resource_kind e = RTensor \<or>
              e_resource_kind e = RTransfer \<or> e_resource_kind e = RResidency \<or>
              e_resource_kind e = RCache \<or> e_resource_kind e = REnergy)
           in if physical \<and> d_lt (q_value (e_quantity e)) d_zero then False
              else if q_unit (e_quantity e) = Count \<and> \<not> q_is_integral (e_quantity e) then False
              else True)"

definition ledger_append ::
    "authority_state option \<Rightarrow> ledger \<Rightarrow> ledger_entry \<Rightarrow> append_result \<times> ledger" where
  "ledger_append auth l e =
     (if \<not> content_is_valid e
      then (\<lparr>ar_status = Invalid, ar_reason = ''invalid content''\<rparr>, l)
      else case (case auth of None \<Rightarrow> Accept | Some s \<Rightarrow> validate_authority e s) of
        Accept \<Rightarrow>
          (case l_index l (e_id e) of
             Some i \<Rightarrow>
               if entry_eq (l_entries l ! i) e
               then (\<lparr>ar_status = Duplicate, ar_reason = ''idempotent duplicate ignored''\<rparr>, l)
               else (\<lparr>ar_status = DuplicateConflict,
                      ar_reason = ''same id with differing content rejected''\<rparr>, l)
           | None \<Rightarrow>
               (\<lparr>ar_status = Accepted, ar_reason = ''accepted''\<rparr>,
                l\<lparr>l_index := (l_index l)(e_id e \<mapsto> length (l_entries l)),
                  l_entries := l_entries l @ [e]\<rparr>))
      | v \<Rightarrow> (\<lparr>ar_status = Stale, ar_reason = authority_verdict_name v\<rparr>, l))"

definition snapshot :: "ledger \<Rightarrow> ledger_entry list" where
  "snapshot l = l_entries l"

definition ledger_size :: "ledger \<Rightarrow> nat" where
  "ledger_size l = length (l_entries l)"

definition ledger_find :: "ledger \<Rightarrow> ledger_entry_id \<Rightarrow> ledger_entry option" where
  "ledger_find l i = (case l_index l i of None \<Rightarrow> None | Some k \<Rightarrow> Some (l_entries l ! k))"

text \<open>A sequence of appends, in the order in which the callers obtain the mutex.\<close>

primrec append_all :: "authority_state option \<Rightarrow> ledger \<Rightarrow> ledger_entry list \<Rightarrow> ledger" where
  "append_all auth l [] = l"
| "append_all auth l (e # es) = append_all auth (snd (ledger_append auth l e)) es"

section \<open>Invariant\<close>

definition ledger_inv :: "ledger \<Rightarrow> bool" where
  "ledger_inv l =
     ((\<forall>i k. l_index l i = Some k \<longleftrightarrow> k < length (l_entries l) \<and> e_id (l_entries l ! k) = i) \<and>
      (\<forall>e \<in> set (l_entries l). content_is_valid e))"

definition passes_fence :: "authority_state option \<Rightarrow> ledger_entry \<Rightarrow> bool" where
  "passes_fence auth e = (case auth of None \<Rightarrow> True | Some s \<Rightarrow> current_authority e s)"

lemma content_is_valid_iff:
  "content_is_valid e \<longleftrightarrow>
     isfinite (q_value (e_quantity e)) \<and>
     \<not> (is_physical_resource (e_resource_kind e) \<and> d_lt (q_value (e_quantity e)) d_zero) \<and>
     \<not> (q_unit (e_quantity e) = Count \<and> \<not> q_is_integral (e_quantity e))"
  by (auto simp: content_is_valid_def is_physical_resource_def q_is_finite_def Let_def)

text \<open>The outcome of an append, by case.\<close>

lemma append_invalid:
  "\<not> content_is_valid e \<Longrightarrow> ledger_append auth l e = (\<lparr>ar_status = Invalid, ar_reason = ''invalid content''\<rparr>, l)"
  by (simp add: ledger_append_def)

lemma passes_fence_Accept:
  "passes_fence auth e \<longleftrightarrow> (case auth of None \<Rightarrow> Accept | Some s \<Rightarrow> validate_authority e s) = Accept"
  by (auto simp: passes_fence_def validate_authority_Accept split: option.splits)

lemma append_stale:
  "content_is_valid e \<Longrightarrow> \<not> passes_fence auth e \<Longrightarrow>
     ar_status (fst (ledger_append auth l e)) = Stale \<and> snd (ledger_append auth l e) = l"
  by (auto simp: ledger_append_def passes_fence_Accept split: authority_verdict.splits)

lemma append_passed:
  "content_is_valid e \<Longrightarrow> passes_fence auth e \<Longrightarrow> ledger_append auth l e =
     (case l_index l (e_id e) of
        Some i \<Rightarrow>
          if entry_eq (l_entries l ! i) e
          then (\<lparr>ar_status = Duplicate, ar_reason = ''idempotent duplicate ignored''\<rparr>, l)
          else (\<lparr>ar_status = DuplicateConflict,
                 ar_reason = ''same id with differing content rejected''\<rparr>, l)
      | None \<Rightarrow>
          (\<lparr>ar_status = Accepted, ar_reason = ''accepted''\<rparr>,
           l\<lparr>l_index := (l_index l)(e_id e \<mapsto> length (l_entries l)),
             l_entries := l_entries l @ [e]\<rparr>))"
  by (simp add: ledger_append_def passes_fence_Accept)

lemma append_status_Accepted:
  "ar_status (fst (ledger_append auth l e)) = Accepted \<longleftrightarrow>
     content_is_valid e \<and> passes_fence auth e \<and> l_index l (e_id e) = None"
proof (cases "content_is_valid e \<and> passes_fence auth e")
  case True
  then show ?thesis by (auto simp: append_passed split: option.splits)
next
  case False
  then show ?thesis
    using append_stale [of e auth l] append_invalid [of e auth l]
    by (cases "content_is_valid e") auto
qed

lemma append_entries_cases:
  "l_entries (snd (ledger_append auth l e)) =
     (if ar_status (fst (ledger_append auth l e)) = Accepted then l_entries l @ [e] else l_entries l)"
  "ar_status (fst (ledger_append auth l e)) \<noteq> Accepted \<Longrightarrow> snd (ledger_append auth l e) = l"
proof -
  show 2: "ar_status (fst (ledger_append auth l e)) \<noteq> Accepted \<Longrightarrow> snd (ledger_append auth l e) = l"
    using append_stale [of e auth l] append_invalid [of e auth l] append_passed [of e auth l]
    by (cases "content_is_valid e"; cases "passes_fence auth e") (auto split: option.splits if_splits)
  show "l_entries (snd (ledger_append auth l e)) =
     (if ar_status (fst (ledger_append auth l e)) = Accepted then l_entries l @ [e] else l_entries l)"
    using 2 by (auto simp: append_status_Accepted append_passed)
qed

lemma ledger_inv_new [simp]: "ledger_inv (ledger_new i)"
  by (simp add: ledger_inv_def ledger_new_def)

lemma ledger_inv_append: "ledger_inv l \<Longrightarrow> ledger_inv (snd (ledger_append auth l e))"
proof (cases "ar_status (fst (ledger_append auth l e)) = Accepted")
  case True
  assume inv: "ledger_inv l"
  from True have *: "content_is_valid e" "passes_fence auth e" "l_index l (e_id e) = None"
    by (simp_all add: append_status_Accepted)
  have fresh: "e_id (l_entries l ! k) \<noteq> e_id e" if "k < length (l_entries l)" for k
    using inv *(3) that unfolding ledger_inv_def by (metis option.distinct(1))
  from inv have idx: "l_index l i = Some k \<longleftrightarrow> k < length (l_entries l) \<and> e_id (l_entries l ! k) = i"
    for i k by (simp add: ledger_inv_def)
  have "((l_index l)(e_id e \<mapsto> length (l_entries l))) i = Some k \<longleftrightarrow>
      k < length (l_entries l @ [e]) \<and> e_id ((l_entries l @ [e]) ! k) = i" for i k
    using fresh [of k] by (auto simp: idx nth_append less_Suc_eq)
  moreover have "\<forall>x \<in> set (l_entries l @ [e]). content_is_valid x"
    using inv *(1) by (simp add: ledger_inv_def)
  ultimately show ?thesis using * by (simp add: append_passed ledger_inv_def)
next
  case False
  assume "ledger_inv l"
  with False show ?thesis by (simp add: append_entries_cases(2))
qed

lemma ledger_inv_append_all: "ledger_inv l \<Longrightarrow> ledger_inv (append_all auth l es)"
  by (induction es arbitrary: l) (simp_all add: ledger_inv_append)

lemma ledger_inv_index_None:
  "ledger_inv l \<Longrightarrow> l_index l i = None \<longleftrightarrow> i \<notin> e_id ` set (l_entries l)"
proof -
  assume inv: "ledger_inv l"
  have "l_index l i \<noteq> None \<longleftrightarrow> (\<exists>k. k < length (l_entries l) \<and> e_id (l_entries l ! k) = i)"
    using inv by (auto simp: ledger_inv_def)
  also have "\<dots> \<longleftrightarrow> i \<in> e_id ` set (l_entries l)"
    by (auto simp: image_iff in_set_conv_nth Bex_def)
  finally show ?thesis by blast
qed

lemma ledger_inv_distinct: "ledger_inv l \<Longrightarrow> distinct (map e_id (l_entries l))"
proof -
  assume inv: "ledger_inv l"
  show ?thesis
    unfolding distinct_conv_nth
  proof (intro allI impI)
    fix i j
    assume ij: "i < length (map e_id (l_entries l))" "j < length (map e_id (l_entries l))" "i \<noteq> j"
    have "l_index l (e_id (l_entries l ! i)) = Some i" "l_index l (e_id (l_entries l ! j)) = Some j"
      using inv ij by (auto simp: ledger_inv_def)
    with ij show "map e_id (l_entries l) ! i \<noteq> map e_id (l_entries l) ! j" by auto
  qed
qed

lemma ledger_find_scan:
  assumes inv: "ledger_inv l"
  shows "ledger_find l i = find (\<lambda>e. e_id e = i) (snapshot l)"
proof (cases "l_index l i")
  case None
  then have "i \<notin> e_id ` set (l_entries l)" using ledger_inv_index_None [OF inv] by simp
  then have "find (\<lambda>e. e_id e = i) (l_entries l) = None" by (auto simp: find_None_iff)
  with None show ?thesis by (simp add: ledger_find_def snapshot_def)
next
  case (Some k)
  with inv have k: "k < length (l_entries l)" "e_id (l_entries l ! k) = i"
    by (simp_all add: ledger_inv_def)
  have "e_id (l_entries l ! j) \<noteq> i" if "j < k" for j
    using ledger_inv_distinct [OF inv] that k by (auto simp: distinct_conv_nth)
  then have "find (\<lambda>e. e_id e = i) (l_entries l) = Some (l_entries l ! k)"
    using k by (auto simp: find_Some_iff)
  with Some show ?thesis by (simp add: ledger_find_def snapshot_def)
qed

section \<open>The log contract\<close>

text \<open>
  What the accounting layers above rely on: a log keeps its entries in order of acceptance, accepts
  exactly the admissible entries whose key is new, and an offer it does not accept changes nothing.
  \<open>keep_first\<close> is the abstract log: the admissible entries of the offered sequence, each key once,
  at its first admissible offer.
\<close>

primrec keep_first :: "('e \<Rightarrow> bool) \<Rightarrow> ('e \<Rightarrow> 'k) \<Rightarrow> 'k set \<Rightarrow> 'e list \<Rightarrow> 'e list" where
  "keep_first ok key K [] = []"
| "keep_first ok key K (e # es) =
     (if ok e \<and> key e \<notin> K then e # keep_first ok key (insert (key e) K) es
      else keep_first ok key K es)"

lemma keep_first_all:
  "distinct (map key es) \<Longrightarrow> key ` set es \<inter> K = {} \<Longrightarrow> keep_first ok key K es = filter ok es"
  by (induction es arbitrary: K) auto

lemma keep_first_append:
  "keep_first ok key K (es @ fs) =
     keep_first ok key K es @ keep_first ok key (K \<union> key ` set (keep_first ok key K es)) fs"
  by (induction es arbitrary: K) (simp_all add: insert_commute)

lemma keep_first_nothing_new:
  "(\<forall>e \<in> set es. ok e \<longrightarrow> key e \<in> K) \<Longrightarrow> keep_first ok key K es = []"
  by (induction es arbitrary: K) auto

lemma keep_first_covers:
  "e \<in> set es \<Longrightarrow> ok e \<Longrightarrow> key e \<in> K \<union> key ` set (keep_first ok key K es)"
  by (induction es arbitrary: K) auto

locale append_log =
  fixes offer :: "'s \<Rightarrow> 'e \<Rightarrow> 's"
    and accepted :: "'s \<Rightarrow> 'e \<Rightarrow> bool"
    and entries :: "'s \<Rightarrow> 'e list"
    and inv :: "'s \<Rightarrow> bool"
    and key :: "'e \<Rightarrow> 'k"
    and ok :: "'e \<Rightarrow> bool"
  assumes inv_offer: "inv s \<Longrightarrow> inv (offer s e)"
    and accepted_iff: "inv s \<Longrightarrow> accepted s e \<longleftrightarrow> ok e \<and> key e \<notin> key ` set (entries s)"
    and entries_accepted: "accepted s e \<Longrightarrow> entries (offer s e) = entries s @ [e]"
    and not_accepted: "\<not> accepted s e \<Longrightarrow> offer s e = s"
begin

lemma inv_run: "inv s \<Longrightarrow> inv (foldl offer s es)"
  by (induction es arbitrary: s) (simp_all add: inv_offer)

lemma entries_run:
  "inv s \<Longrightarrow> entries (foldl offer s es) = entries s @ keep_first ok key (key ` set (entries s)) es"
proof (induction es arbitrary: s)
  case (Cons e es)
  show ?case
  proof (cases "accepted s e")
    case True
    with Cons show ?thesis
      using accepted_iff [of s e] entries_accepted [of s e] inv_offer [of s e] by simp
  next
    case False
    with Cons show ?thesis using accepted_iff [of s e] not_accepted [of s e] by auto
  qed
qed simp

lemma run_prefix: "inv s \<Longrightarrow> \<exists>new. entries (foldl offer s es) = entries s @ new"
  by (simp add: entries_run)

text \<open>Offering again what was offered already changes nothing, in any order and multiplicity.\<close>

lemma run_replayed:
  assumes "inv s" "set fs \<subseteq> set es"
  shows "foldl offer (foldl offer s es) fs = foldl offer s es"
proof -
  let ?t = "foldl offer s es"
  have inv: "inv ?t" by (rule inv_run) fact
  have known: "key e \<in> key ` set (entries ?t)" if "e \<in> set es" "ok e" for e
    using keep_first_covers [of e es ok key "key ` set (entries s)"] that assms(1)
    by (auto simp: entries_run)
  have "\<not> accepted ?t e" if "e \<in> set fs" for e
    using known [of e] accepted_iff [OF inv, of e] that assms(2) by blast
  then show ?thesis by (induction fs) (simp_all add: not_accepted)
qed

lemma run_fresh:
  "inv s \<Longrightarrow> distinct (map key es) \<Longrightarrow> key ` set es \<inter> key ` set (entries s) = {} \<Longrightarrow>
     entries (foldl offer s es) = entries s @ filter ok es"
  by (simp add: entries_run keep_first_all)

end

lemma append_all_foldl: "append_all auth l es = foldl (\<lambda>l e. snd (ledger_append auth l e)) l es"
  by (induction es arbitrary: l) simp_all

definition admissible :: "authority_state option \<Rightarrow> ledger_entry \<Rightarrow> bool" where
  "admissible auth e = (content_is_valid e \<and> passes_fence auth e)"

interpretation log: append_log
  "\<lambda>l e. snd (ledger_append auth l e)" "\<lambda>l e. ar_status (fst (ledger_append auth l e)) = Accepted"
  l_entries ledger_inv e_id "admissible auth" for auth
proof unfold_locales
  show "ledger_inv s \<Longrightarrow> ledger_inv (snd (ledger_append auth s e))" for s e
    by (rule ledger_inv_append)
  show "ledger_inv s \<Longrightarrow> (ar_status (fst (ledger_append auth s e)) = Accepted) =
      (admissible auth e \<and> e_id e \<notin> e_id ` set (l_entries s))" for s e
    by (simp add: append_status_Accepted ledger_inv_index_None admissible_def)
  show "ar_status (fst (ledger_append auth s e)) = Accepted \<Longrightarrow>
      l_entries (snd (ledger_append auth s e)) = l_entries s @ [e]" for s e
    by (simp add: append_entries_cases(1))
  show "ar_status (fst (ledger_append auth s e)) \<noteq> Accepted \<Longrightarrow> snd (ledger_append auth s e) = s" for s e
    by (rule append_entries_cases(2))
qed

lemma entry_default_admissible: "admissible None (entry_default\<lparr>e_id := x\<rparr>)"
  by (simp add: admissible_def passes_fence_def content_is_valid_iff entry_default_def
      quantity_default_def is_physical_resource_def)

section \<open>Properties\<close>

text \<open>C7: Any sequence of appends to a new ledger leaves exactly the admissible entries (valid
  content, current authority) in order of their first admissible offer, one per entry identity, and
  the hash index then finds for every identity what a scan of the entries finds.\<close>

theorem append_all_keeps_first:
  "snapshot (append_all auth (ledger_new i) es) = keep_first (admissible auth) e_id {} es \<and>
   ledger_find (append_all auth (ledger_new i) es) k =
     find (\<lambda>e. e_id e = k) (keep_first (admissible auth) e_id {} es)"
  using log.entries_run [OF ledger_inv_new [of i], of auth es]
    ledger_find_scan [OF log.inv_run [OF ledger_inv_new [of i], of auth es]]
  by (simp add: append_all_foldl snapshot_def ledger_new_def)

text \<open>The index invariant (the index maps an identity to a position exactly when the entry there
  has that identity, every stored entry has valid content) holds after any appends, identities stay
  distinct, and the log only grows: what was stored before is a prefix of what is stored after.\<close>

theorem append_all_invariant:
  assumes "ledger_inv l"
  shows "ledger_inv (append_all auth l es) \<and> distinct (map e_id (snapshot (append_all auth l es))) \<and>
     (\<exists>new. snapshot (append_all auth l es) = snapshot l @ new)"
  using log.inv_run [OF assms, of auth es] log.run_prefix [OF assms, of auth es]
    ledger_inv_distinct [OF log.inv_run [OF assms, of auth es]]
  by (simp add: append_all_foldl snapshot_def)

theorem append_all_invariant_witness:
  "ledger_inv (append_all None (ledger_new (Id128 0 1)) [entry_default, entry_default]) \<and>
   distinct (map e_id (snapshot (append_all None (ledger_new (Id128 0 1)) [entry_default, entry_default])))"
  using append_all_invariant [OF ledger_inv_new [of "Id128 0 1"], of None "[entry_default, entry_default]"]
  by simp

text \<open>Appends of two producers with distinct entry identities store the same multiset of entries
  in every interleaving of the two: exactly the admissible ones, none lost and none counted
  twice.\<close>

theorem append_interleavings:
  assumes "zs \<in> shuffles xs ys" "distinct (map e_id (xs @ ys))"
  shows "mset (snapshot (append_all auth (ledger_new i) zs)) = mset (filter (admissible auth) (xs @ ys))"
proof -
  have m: "mset zs = mset (xs @ ys)"
    using assms(1) by (simp add: mset_shuffles)
  then have "mset (map e_id zs) = mset (map e_id (xs @ ys))" by simp
  then have d: "distinct (map e_id zs)"
    using assms(2) mset_eq_imp_distinct_iff by blast
  have "snapshot (append_all auth (ledger_new i) zs) = filter (admissible auth) zs"
    using log.run_fresh [OF ledger_inv_new d, of i auth]
    by (simp add: append_all_foldl snapshot_def ledger_new_def)
  with m show ?thesis by (simp add: mset_filter)
qed

theorem append_interleavings_witness:
  "mset (snapshot (append_all None (ledger_new (Id128 0 1))
     [entry_default\<lparr>e_id := Id128 0 2\<rparr>, entry_default\<lparr>e_id := Id128 0 3\<rparr>])) =
   {# entry_default\<lparr>e_id := Id128 0 2\<rparr>, entry_default\<lparr>e_id := Id128 0 3\<rparr> #}"
  using append_interleavings [of "[entry_default\<lparr>e_id := Id128 0 2\<rparr>, entry_default\<lparr>e_id := Id128 0 3\<rparr>]"
      "[entry_default\<lparr>e_id := Id128 0 3\<rparr>]" "[entry_default\<lparr>e_id := Id128 0 2\<rparr>]" None "Id128 0 1"]
  by (simp add: entry_default_admissible)

text \<open>Retries are idempotent: offering again entries that were all offered before (in any order,
  any number of times) leaves the whole ledger as it is.\<close>

theorem append_all_idempotent:
  assumes "ledger_inv l" "set fs \<subseteq> set es"
  shows "append_all auth (append_all auth l es) fs = append_all auth l es"
  using log.run_replayed [OF assms, of auth] by (simp add: append_all_foldl)

theorem append_all_idempotent_witness:
  "append_all None (append_all None (ledger_new (Id128 0 1)) [entry_default]) [entry_default, entry_default] =
   append_all None (ledger_new (Id128 0 1)) [entry_default]"
  using append_all_idempotent [OF ledger_inv_new [of "Id128 0 1"],
      of "[entry_default, entry_default]" "[entry_default]" None]
  by simp

text \<open>C24: The status an append reports, on every branch: invalid content first, then the fence, then
  the identity (equal content under a known identity is a duplicate, different content a conflict),
  and only an accepted append changes the ledger.\<close>

theorem append_status_spec:
  assumes "ledger_inv l"
  shows "ar_status (fst (ledger_append auth l e)) =
      (if \<not> content_is_valid e then Invalid
       else if \<not> passes_fence auth e then Stale
       else case find (\<lambda>x. e_id x = e_id e) (snapshot l) of
         None \<Rightarrow> Accepted
       | Some x \<Rightarrow> if entry_eq x e then Duplicate else DuplicateConflict) \<and>
     (if stored (fst (ledger_append auth l e))
      then snapshot (snd (ledger_append auth l e)) = snapshot l @ [e]
      else snd (ledger_append auth l e) = l)"
proof -
  have "ledger_find l (e_id e) = find (\<lambda>x. e_id x = e_id e) (snapshot l)"
    by (rule ledger_find_scan [OF assms])
  moreover have "ar_status (fst (ledger_append auth l e)) =
      (if \<not> content_is_valid e then Invalid
       else if \<not> passes_fence auth e then Stale
       else case ledger_find l (e_id e) of
         None \<Rightarrow> Accepted
       | Some x \<Rightarrow> if entry_eq x e then Duplicate else DuplicateConflict)"
    using append_stale [of e auth l] append_invalid [of e auth l] append_passed [of e auth l]
    by (simp add: ledger_find_def split: option.split)
  ultimately show ?thesis
    using append_entries_cases [of auth l e] by (simp add: stored_def snapshot_def)
qed

theorem append_status_spec_witness:
  "ar_status (fst (ledger_append None (append_all None (ledger_new (Id128 0 1)) [entry_default])
     entry_default)) = Duplicate"
proof -
  have snap: "snapshot (append_all None (ledger_new (Id128 0 1)) [entry_default]) = [entry_default]"
    using log.run_fresh [OF ledger_inv_new [of "Id128 0 1"], of "[entry_default]" None]
      entry_default_admissible [of "e_id entry_default"]
    by (simp add: append_all_foldl snapshot_def ledger_new_def)
  have "content_is_valid entry_default" "entry_eq entry_default entry_default"
    using entry_default_admissible [of "e_id entry_default"]
    by (simp_all add: admissible_def content_is_valid_iff entry_eq_refl isfinite_not)
  with snap append_status_spec [OF ledger_inv_append_all [OF ledger_inv_new],
      of "None" None "Id128 0 1" "[entry_default]" entry_default]
  show ?thesis by (simp add: passes_fence_def)
qed

end
