(* ===== verification/Protocol.thy ===== *)
theory Protocol
  imports Codec Ledger
begin

text \<open>
  \<^verbatim>\<open>protocol.hpp\<close> and \<^verbatim>\<open>protocol.cpp\<close>: the messages between workers and the
  coordinator, their framed encoding, and the loops that send and receive a frame over a socket.
  A \<^verbatim>\<open>Message\<close> is the field its type selects. The status in an acknowledgement is the
  enum's underlying byte, which the decoder does not check. The socket calls are parameters:
  \<open>send\<close> says how many of the offered bytes the kernel takes, \<open>recv\<close> which bytes it delivers. Socket
  set-up (\<^verbatim>\<open>bind\<close>, \<^verbatim>\<open>listen\<close>, \<^verbatim>\<open>accept\<close>, \<^verbatim>\<open>connect\<close>) is
  operating system I/O and is not modelled.
\<close>

section \<open>Messages\<close>

datatype message =
    Register worker_id worker_boot_id
  | RegisterAck bool coordinator_epoch accounting_generation string
  | EventSubmit ledger_entry
  | EventAck u8 string
  | Roll coordinator_epoch accounting_generation
  | Shutdown
  | Ping

datatype message_type =
    TRegister | TRegisterAck | TEventSubmit | TEventAck | TRoll | TShutdown | TPing

primrec message_type_of :: "message \<Rightarrow> message_type" where
  "message_type_of (Register w b) = TRegister"
| "message_type_of (RegisterAck k e g r) = TRegisterAck"
| "message_type_of (EventSubmit e) = TEventSubmit"
| "message_type_of (EventAck s r) = TEventAck"
| "message_type_of (Roll e g) = TRoll"
| "message_type_of Shutdown = TShutdown"
| "message_type_of Ping = TPing"

primrec msg_type_val :: "message_type \<Rightarrow> u8" where
  "msg_type_val TRegister = 1"
| "msg_type_val TRegisterAck = 2"
| "msg_type_val TEventSubmit = 3"
| "msg_type_val TEventAck = 4"
| "msg_type_val TRoll = 5"
| "msg_type_val TShutdown = 6"
| "msg_type_val TPing = 7"

definition msg_type_from :: "u8 \<Rightarrow> message_type" where
  "msg_type_from v =
     (if v = 1 then TRegister else if v = 2 then TRegisterAck else if v = 3 then TEventSubmit
      else if v = 4 then TEventAck else if v = 5 then TRoll else if v = 6 then TShutdown
      else if v = 7 then TPing else TPing)"

primrec append_status_val :: "append_status \<Rightarrow> u8" where
  "append_status_val Accepted = 0"
| "append_status_val Duplicate = 1"
| "append_status_val DuplicateConflict = 2"
| "append_status_val Stale = 3"
| "append_status_val Invalid = 4"

primrec message_payload :: "message \<Rightarrow> bytes option" where
  "message_payload (Register w b) = Some (put_id w @ put_id b)"
| "message_payload (RegisterAck k e g r) =
     Some (put_bool8 k @ put_u64 (gen_value e) @ put_u64 (gen_value g) @ put_string r)"
| "message_payload (EventSubmit e) =
     map_option (\<lambda>f. put_u32 (word_of_nat (length f)) @ f) (encode_entry e)"
| "message_payload (EventAck s r) = Some (put_u8 s @ put_string r)"
| "message_payload (Roll e g) = Some (put_u64 (gen_value e) @ put_u64 (gen_value g))"
| "message_payload Shutdown = Some []"
| "message_payload Ping = Some []"

definition encode_message :: "message \<Rightarrow> bytes option" where
  "encode_message msg =
     (case message_payload msg of
        None \<Rightarrow> None
      | Some payload \<Rightarrow>
          let content = msg_type_val (message_type_of msg) # payload;
              crc = crc32 content;
              len = word_of_nat (length content)
          in Some (put_u32 len @ put_u32 crc @ content))"

text \<open>The outcome of a fallible read: a value, an error (with the text left in \<^verbatim>\<open>err\<close>), or an
  access outside the buffer.\<close>

datatype 'a outcome = Value 'a | Failure string | BadAccess

definition finish :: "('a \<times> bytes) option \<Rightarrow> 'a outcome" where
  "finish res = (case res of None \<Rightarrow> Failure '''' | Some (x, r) \<Rightarrow> if r = [] then Value x else Failure '''')"

definition decode_message :: "bytes \<Rightarrow> message outcome" where
  "decode_message data =
     (case data of
        [] \<Rightarrow> Failure ''''
      | t # r \<Rightarrow>
          (case msg_type_from t of
             TRegister \<Rightarrow> finish (do {
               (w, r) \<leftarrow> get_id r;
               (b, r) \<leftarrow> get_id r;
               Some (Register w b, r) })
           | TRegisterAck \<Rightarrow> finish (do {
               (k, r) \<leftarrow> get_bool8 r;
               (e, r) \<leftarrow> get_u64 r;
               (g, r) \<leftarrow> get_u64 r;
               (s, r) \<leftarrow> get_string r;
               Some (RegisterAck k (Generation e) (Generation g) s, r) })
           | TEventSubmit \<Rightarrow>
               (case get_u32 r of
                  None \<Rightarrow> Failure ''''
                | Some (flen, r) \<Rightarrow>
                    if length r \<noteq> unat flen then Failure ''''
                    else case decode_entry r of
                      Rejected \<Rightarrow> Failure ''''
                    | OutOfBounds \<Rightarrow> BadAccess
                    | Decoded e consumed \<Rightarrow>
                        if consumed = unat flen \<and> consumed = length r then Value (EventSubmit e)
                        else Failure '''')
           | TEventAck \<Rightarrow> finish (do {
               (st, r) \<leftarrow> get_u8 r;
               (s, r) \<leftarrow> get_string r;
               Some (EventAck st s, r) })
           | TRoll \<Rightarrow> finish (do {
               (e, r) \<leftarrow> get_u64 r;
               (g, r) \<leftarrow> get_u64 r;
               Some (Roll (Generation e) (Generation g), r) })
           | TShutdown \<Rightarrow> finish (Some (Shutdown, r))
           | TPing \<Rightarrow> finish (Some (Ping, r))))"

section \<open>Sockets\<close>

text \<open>\<open>write_all\<close> offers what is left; \<open>wire\<close> collects what the peer will see.\<close>

function write_all ::
    "('s \<Rightarrow> nat \<Rightarrow> int \<times> 's) \<Rightarrow> 's \<Rightarrow> bytes \<Rightarrow> bytes \<Rightarrow> (string + unit) \<times> 's \<times> bytes" where
  "write_all send s p wire =
     (if p = [] then (Inr (), s, wire)
      else case send s (length p) of (r, s') \<Rightarrow>
        if r = 0 then (Inl ''connection closed during send'', s', wire)
        else if r < 0 then (Inl ''send error'', s', wire)
        else write_all send s' (drop (nat r) p) (wire @ take (nat r) p))"
  by pat_completeness auto
termination
  by (relation "measure (\<lambda>(send, s, p, wire). length p)") auto

declare write_all.simps [simp del]

datatype received = Got bytes | RecvError

function read_all ::
    "('s \<Rightarrow> nat \<Rightarrow> received \<times> 's) \<Rightarrow> 's \<Rightarrow> nat \<Rightarrow> bytes \<Rightarrow> (string + bytes) \<times> 's" where
  "read_all recv s n got =
     (if n = 0 then (Inr got, s)
      else case recv s n of
        (RecvError, s') \<Rightarrow> (Inl ''recv error'', s')
      | (Got bs, s') \<Rightarrow>
          if bs = [] then (Inl ''connection closed during recv'', s')
          else read_all recv s' (n - length bs) (got @ bs))"
  by pat_completeness auto
termination
  by (relation "measure (\<lambda>(recv, s, n, got). n)") auto

declare read_all.simps [simp del]

definition send_message ::
    "('s \<Rightarrow> nat \<Rightarrow> int \<times> 's) \<Rightarrow> 's \<Rightarrow> message \<Rightarrow> bytes \<Rightarrow> (string + unit) \<times> 's \<times> bytes" where
  "send_message send s msg wire =
     (case encode_message msg of
        None \<Rightarrow> (Inl ''message encode failed'', s, wire)
      | Some f \<Rightarrow> write_all send s f wire)"

definition recv_message ::
    "('s \<Rightarrow> nat \<Rightarrow> received \<times> 's) \<Rightarrow> 's \<Rightarrow> message outcome \<times> 's" where
  "recv_message recv s =
     (case read_all recv s 8 [] of
        (Inl err, s) \<Rightarrow> (Failure err, s)
      | (Inr hdr, s) \<Rightarrow>
          let len = be32_at hdr 0; crc_want = be32_at hdr 4 in
          if len = 0 then (Failure ''zero-length frame'', s)
          else if push_bit 20 16 < len then (Failure ''frame too large'', s)
          else case read_all recv s (unat len) [] of
            (Inl err, s) \<Rightarrow> (Failure err, s)
          | (Inr content, s) \<Rightarrow>
              if crc32 content \<noteq> crc_want then (Failure ''frame checksum mismatch'', s)
              else (decode_message content, s))"

section \<open>The contract of a byte stream\<close>

text \<open>
  What TCP promises a reader: the bytes still to come are delivered in order, in pieces of any size
  up to what was asked, and an end of stream only when none are left.
\<close>

locale byte_stream =
  fixes recv :: "'s \<Rightarrow> nat \<Rightarrow> received \<times> 's"
    and pending :: "'s \<Rightarrow> bytes"
  assumes deliver: "0 < n \<Longrightarrow> pending s \<noteq> [] \<Longrightarrow>
      \<exists>k s'. 0 < k \<and> k \<le> n \<and> k \<le> length (pending s) \<and>
        recv s n = (Got (take k (pending s)), s') \<and> pending s' = drop k (pending s)"
    and end_of_stream: "0 < n \<Longrightarrow> pending s = [] \<Longrightarrow> fst (recv s n) = Got []"
begin

lemma read_all_complete:
  "n \<le> length (pending s) \<Longrightarrow>
     \<exists>s'. read_all recv s n got = (Inr (got @ take n (pending s)), s') \<and> pending s' = drop n (pending s)"
proof (induction n arbitrary: s got rule: less_induct)
  case (less n)
  show ?case
  proof (cases "n = 0")
    case True
    then show ?thesis by (simp add: read_all.simps)
  next
    case False
    with less.prems have "pending s \<noteq> []" by auto
    with False obtain k s' where k: "0 < k" "k \<le> n" "k \<le> length (pending s)"
        "recv s n = (Got (take k (pending s)), s')" "pending s' = drop k (pending s)"
      using deliver [of n s] by auto
    then have step: "read_all recv s n got = read_all recv s' (n - k) (got @ take k (pending s))"
      using False \<open>pending s \<noteq> []\<close> by (subst read_all.simps) (auto simp: min_def)
    obtain s'' where "read_all recv s' (n - k) (got @ take k (pending s)) =
        (Inr ((got @ take k (pending s)) @ take (n - k) (pending s')), s'')"
        "pending s'' = drop (n - k) (pending s')"
      using less.IH [of "n - k" s'] k less.prems by fastforce
    moreover have "take k (pending s) @ take (n - k) (pending s') = take n (pending s)"
      using k(2,5) take_add [of k "n - k" "pending s"] by simp
    ultimately show ?thesis
      unfolding step using k(2,5) by simp
  qed
qed

text \<open>A reader asking for more than will come reports the end of the stream.\<close>

lemma read_all_short:
  "length (pending s) < n \<Longrightarrow> \<exists>s'. read_all recv s n got = (Inl ''connection closed during recv'', s')"
proof (induction n arbitrary: s got rule: less_induct)
  case (less n)
  show ?case
  proof (cases "pending s = []")
    case True
    with less.prems have "fst (recv s n) = Got []" by (simp add: end_of_stream)
    with less.prems show ?thesis
      by (subst read_all.simps) (auto split: prod.splits)
  next
    case False
    obtain k s' where k: "0 < k" "k \<le> n" "k \<le> length (pending s)"
        "recv s n = (Got (take k (pending s)), s')" "pending s' = drop k (pending s)"
      using deliver [of n s] False less.prems by auto
    then have "read_all recv s n got = read_all recv s' (n - k) (got @ take k (pending s))"
      using False by (subst read_all.simps) (auto simp: min_def)
    then show ?thesis using less.IH [of "n - k" s'] k less.prems by auto
  qed
qed

end

text \<open>
  A TCP connection as the reader sees it: the bytes on the wire and the sizes in which the network
  happens to deliver them (any schedule; when it is used up, as many as are asked for).
\<close>

type_synonym tcp = "bytes \<times> nat list"

definition tcp_recv :: "tcp \<Rightarrow> nat \<Rightarrow> received \<times> tcp" where
  "tcp_recv c n =
     (case c of (wire, sched) \<Rightarrow>
        let k = (case sched of [] \<Rightarrow> n | m # _ \<Rightarrow> min n (max 1 m))
        in (Got (take k wire), (drop k wire, tl sched)))"

interpretation tcp: byte_stream tcp_recv fst
proof unfold_locales
  fix n :: nat and s :: tcp
  assume n: "0 < n"
  obtain wire sched where s: "s = (wire, sched)" by (cases s)
  {
    assume "fst s = []"
    then show "fst (tcp_recv s n) = Got []" by (simp add: tcp_recv_def s Let_def)
  }
  assume ne: "fst s \<noteq> []"
  define k where "k = (case sched of [] \<Rightarrow> n | m # _ \<Rightarrow> min n (max 1 m))"
  have k: "0 < k" "k \<le> n" using n by (auto simp: k_def split: list.split)
  have "tcp_recv s n = (Got (take k wire), (drop k wire, tl sched))"
    by (simp add: tcp_recv_def s Let_def k_def)
  then show "\<exists>k s'. 0 < k \<and> k \<le> n \<and> k \<le> length (fst s) \<and>
      tcp_recv s n = (Got (take k (fst s)), s') \<and> fst s' = drop k (fst s)"
    using k ne
    by (intro exI [of _ "min k (length wire)"] exI [of _ "(drop k wire, tl sched)"])
      (auto simp: s min_def)
qed

text \<open>
  What a live connection promises a writer: each call takes some of the bytes offered, and writing
  does not touch what is to be read.
\<close>

locale byte_sink =
  fixes send :: "'s \<Rightarrow> nat \<Rightarrow> int \<times> 's"
    and pending :: "'s \<Rightarrow> bytes"
  assumes takes: "0 < n \<Longrightarrow> \<exists>k s'. 0 < k \<and> k \<le> n \<and> send s n = (int k, s') \<and> pending s' = pending s"
begin

lemma write_all_complete:
  "\<exists>s'. write_all send s p wire = (Inr (), s', wire @ p) \<and> pending s' = pending s"
proof (induction "length p" arbitrary: s p wire rule: less_induct)
  case less
  show ?case
  proof (cases "p = []")
    case True
    then show ?thesis by (simp add: write_all.simps)
  next
    case False
    then obtain k s' where k: "0 < k" "k \<le> length p" "send s (length p) = (int k, s')"
        "pending s' = pending s" using takes [of "length p" s] by auto
    then have "write_all send s p wire = write_all send s' (drop k p) (wire @ take k p)"
      using False by (simp add: write_all.simps [of send s p])
    with less [of "drop k p" s' "wire @ take k p"] k show ?thesis by auto
  qed
qed

lemma send_complete:
  assumes "encode_message m = Some f"
  shows "\<exists>s'. send_message send s m wire = (Inr (), s', wire @ f) \<and> pending s' = pending s"
  using write_all_complete [of s f wire] by (simp add: send_message_def assms)

end

definition tcp_send :: "tcp \<Rightarrow> nat \<Rightarrow> int \<times> tcp" where
  "tcp_send c n =
     (case c of (wire, sched) \<Rightarrow>
        (int (case sched of [] \<Rightarrow> n | m # _ \<Rightarrow> min n (max 1 m)), (wire, tl sched)))"

interpretation tcp_out: byte_sink tcp_send fst
proof unfold_locales
  fix n :: nat and s :: tcp
  assume "0 < n"
  obtain wire sched where s: "s = (wire, sched)" by (cases s)
  show "\<exists>k s'. 0 < k \<and> k \<le> n \<and> tcp_send s n = (int k, s') \<and> fst s' = fst s"
    using \<open>0 < n\<close> by (cases sched) (auto simp: tcp_send_def s)
qed

section \<open>Messages survive the wire\<close>

primrec message_ok :: "message \<Rightarrow> bool" where
  "message_ok (Register w b) = True"
| "message_ok (RegisterAck k e g r) = string_fits r"
| "message_ok (EventSubmit e) = encodable e"
| "message_ok (EventAck s r) = string_fits r"
| "message_ok (Roll e g) = True"
| "message_ok Shutdown = True"
| "message_ok Ping = True"

primrec normalize_message :: "message \<Rightarrow> message" where
  "normalize_message (Register w b) = Register w b"
| "normalize_message (RegisterAck k e g r) = RegisterAck k e g r"
| "normalize_message (EventSubmit e) = EventSubmit (normalize_entry e)"
| "normalize_message (EventAck s r) = EventAck s r"
| "normalize_message (Roll e g) = Roll e g"
| "normalize_message Shutdown = Shutdown"
| "normalize_message Ping = Ping"

lemma msg_type_from_val [simp]: "msg_type_from (msg_type_val t) = t"
  by (cases t) (simp_all add: msg_type_from_def)

lemmas message_formats [codec_simps] =
  field_formats string_format.get_put_end u64_format.get_put_end id_format.get_put_end finish_def

lemma decode_event_submit:
  assumes "encodable e" "encode_entry e = Some f" "length f \<le> 0xFFFFFFFF"
  shows "decode_message (3 # put_u32 (word_of_nat (length f)) @ f) = Value (EventSubmit (normalize_entry e))"
  using decode_encode_append [OF assms(1,2), of "[]"] unat_word_of_length [OF assms(3)]
  by (simp add: decode_message_def msg_type_from_def u32_format.get_put)

lemma decode_message_payload:
  assumes "message_ok m" "message_payload m = Some p" "length p < 2 ^ 32"
  shows "decode_message (msg_type_val (message_type_of m) # p) = Value (normalize_message m)"
proof (cases m)
  case (EventSubmit e)
  then show ?thesis using assms decode_event_submit [of e] by auto
qed (use assms in \<open>auto simp: decode_message_def msg_type_from_def codec_simps\<close>)

lemma encode_message_Some:
  assumes "encode_message m = Some f"
  obtains p where "message_payload m = Some p"
    "f = frame (msg_type_val (message_type_of m) # p)"
  using assms by (auto simp: encode_message_def frame_def Let_def split: option.splits)

context byte_stream
begin

text \<open>Over any stream that keeps the contract, a frame is read as a whole.\<close>

lemma recv_frame:
  assumes "pending s = put_u32 (word_of_nat (length c)) @ put_u32 x @ c @ rest"
    and "0 < length c" "length c \<le> 2 ^ 24"
  shows "\<exists>s'. recv_message recv s =
      (if crc32 c \<noteq> x then Failure ''frame checksum mismatch'' else decode_message c, s') \<and>
    pending s' = rest"
proof -
  let ?h = "put_u32 (word_of_nat (length c)) @ put_u32 x"
  have len: "unat (word_of_nat (length c) :: u32) = length c"
    using assms(3) by (intro unat_word_of_length) simp
  have ok: "(word_of_nat (length c) :: u32) \<noteq> 0" "\<not> push_bit 20 16 < (word_of_nat (length c) :: u32)"
    using assms(2,3) len by (auto simp: word_less_nat_alt simp flip: unat_eq_0)
  obtain s1 where s1: "read_all recv s 8 [] = (Inr ?h, s1)" "pending s1 = c @ rest"
    using read_all_complete [of 8 s "[]"] by (auto simp: assms(1))
  obtain s2 where s2: "read_all recv s1 (length c) [] = (Inr c, s2)" "pending s2 = rest"
    using read_all_complete [of "length c" s1 "[]"] s1(2) by auto
  have hdr: "be32_at ?h 0 = word_of_nat (length c)" "be32_at ?h 4 = x"
    using be32_at_header(1) [of "word_of_nat (length c)" "put_u32 x"]
      be32_at_header(2) [of "word_of_nat (length c)" x "[]"] by simp_all
  have "recv_message recv s =
      (if crc32 c \<noteq> x then Failure ''frame checksum mismatch'' else decode_message c, s2)"
    using s1 s2 ok len unfolding recv_message_def by (simp add: hdr Let_def)
  then show ?thesis using s2(2) by blast
qed

lemma recv_encoded:
  assumes "message_ok m" "encode_message m = Some f" "length f \<le> 2 ^ 24 + 8" "pending s = f @ rest"
  shows "\<exists>s'. recv_message recv s = (Value (normalize_message m), s') \<and> pending s' = rest"
proof -
  obtain p where p: "message_payload m = Some p" "f = frame (msg_type_val (message_type_of m) # p)"
    using assms(2) by (rule encode_message_Some)
  let ?c = "msg_type_val (message_type_of m) # p"
  have len: "length p < 2 ^ 32" "length ?c \<le> 2 ^ 24" using assms(3) p(2) by auto
  have "pending s = put_u32 (word_of_nat (length ?c)) @ put_u32 (crc32 ?c) @ ?c @ rest"
    by (simp add: assms(4) p(2) frame_def)
  from recv_frame [OF this _ len(2)] show ?thesis
    using decode_message_payload [OF assms(1) p(1) len(1)] by simp
qed

end

lemma recv_raw_frame:
  assumes "0 < length c" "length c \<le> 2 ^ 24"
  shows "\<exists>sched'. recv_message tcp_recv
      (put_u32 (word_of_nat (length c)) @ put_u32 x @ c @ rest, sched) =
    (if crc32 c \<noteq> x then Failure ''frame checksum mismatch'' else decode_message c, (rest, sched'))"
  using tcp.recv_frame [OF _ assms, of "(_, sched)"] by (metis fst_conv prod.collapse)

lemma write_all_prefix:
  "\<exists>k. snd (snd (write_all send s p wire)) = wire @ take k p \<and>
     (fst (write_all send s p wire) = Inr () \<longrightarrow> length p \<le> k)"
proof (induction send s p wire rule: write_all.induct)
  case (1 send s p wire)
  obtain r s' where r: "send s (length p) = (r, s')" by (cases "send s (length p)")
  show ?case
  proof (cases "p = [] \<or> r \<le> 0")
    case True
    then show ?thesis using r by (intro exI [of _ 0]) (auto simp: write_all.simps [of send s p])
  next
    case False
    then have step: "write_all send s p wire = write_all send s' (drop (nat r) p) (wire @ take (nat r) p)"
      using r by (simp add: write_all.simps [of send s p])
    obtain k where "snd (snd (write_all send s' (drop (nat r) p) (wire @ take (nat r) p))) =
        (wire @ take (nat r) p) @ take k (drop (nat r) p)"
        "fst (write_all send s' (drop (nat r) p) (wire @ take (nat r) p)) = Inr () \<longrightarrow>
        length (drop (nat r) p) \<le> k"
      using 1 [OF _ r [symmetric]] False by auto
    then show ?thesis
      unfolding step by (intro exI [of _ "nat r + k"]) (auto simp: take_add)
  qed
qed

lemma encode_ping: "encode_message Ping = Some (frame [7])"
  by (simp add: encode_message_def frame_def Let_def)

section \<open>Properties\<close>

text \<open>C29: A message sent through any sequence of partial sends arrives as that message through any
  segmentation of the stream, and the reader is left at the first byte after its frame.\<close>

theorem send_recv_message:
  assumes "message_ok m" "send_message send s m [] = (Inr (), s', wire)"
    and "length wire \<le> 2 ^ 24 + 8"
  shows "\<exists>sched'. recv_message tcp_recv (wire @ rest, sched) = (Value (normalize_message m), (rest, sched'))"
proof -
  obtain f where f: "encode_message m = Some f" "write_all send s f [] = (Inr (), s', wire)"
    using assms(2) by (auto simp: send_message_def split: option.splits)
  then have "wire = f" using write_all_prefix [of send s f "[]"] by auto
  with tcp.recv_encoded [OF assms(1) f(1), of "(wire @ rest, sched)" rest] assms(3)
  show ?thesis by auto
qed

theorem send_recv_message_witness:
  "\<exists>wire sched'. send_message (\<lambda>s n. (int n, s)) () Ping [] = (Inr (), (), wire) \<and>
     recv_message tcp_recv (wire, [1, 2, 3]) = (Value Ping, ([], sched'))"
proof -
  have "send_message (\<lambda>s n. (int n, s)) () Ping [] = (Inr (), (), frame [7])"
    by (simp add: send_message_def encode_ping write_all.simps)
  with send_recv_message [of Ping "\<lambda>s n. (int n, s)" "()" "()" "frame [7]" "[]" "[1, 2, 3]"]
  show ?thesis by auto
qed

text \<open>A frame with one byte of its checksum or its content changed in transit is refused with the
  checksum error, for every message and every segmentation.\<close>

theorem recv_corrupted:
  assumes "encode_message m = Some f" "length f \<le> 2 ^ 24 + 8" "4 \<le> i" "i < length f" "b \<noteq> f ! i"
  shows "fst (recv_message tcp_recv (f[i := b] @ rest, sched)) = Failure ''frame checksum mismatch''"
proof -
  obtain p where "f = frame (msg_type_val (message_type_of m) # p)"
    using assms(1) by (rule encode_message_Some)
  then obtain c where f: "f = frame c" "0 < length c" "length c \<le> 2 ^ 24"
    using assms(2) by auto
  show ?thesis
    using assms(3-5) unfolding f(1)
  proof (rule frame_update)
    fix x c'
    assume "(frame c)[i := b] = put_u32 (word_of_nat (length c')) @ put_u32 x @ c'"
      "length c' = length c" "crc32 c' \<noteq> x"
    with f recv_raw_frame [of c' x rest sched]
    show "fst (recv_message tcp_recv ((frame c)[i := b] @ rest, sched)) =
        Failure ''frame checksum mismatch''" by auto
  qed
qed

theorem recv_corrupted_witness:
  "fst (recv_message tcp_recv ((frame [7])[8 := 1] @ [], [3])) = Failure ''frame checksum mismatch''"
proof -
  have "frame [7] ! 8 = 7" by (simp add: frame_def nth_append)
  then show ?thesis
    using recv_corrupted [of Ping "frame [7]" 8 1 "[]" "[3]"]
    by (simp add: encode_ping)
qed

text \<open>When the peer disappears in the middle of a frame the receiver reports a closed connection;
  it never returns a message from an incomplete frame.\<close>

theorem recv_incomplete:
  assumes "encode_message m = Some f" "length f \<le> 2 ^ 24 + 8" "k < length f"
  shows "fst (recv_message tcp_recv (take k f, sched)) = Failure ''connection closed during recv''"
proof -
  obtain p where "f = frame (msg_type_val (message_type_of m) # p)"
    using assms(1) by (rule encode_message_Some)
  then obtain c where f: "f = (put_u32 (word_of_nat (length c)) @ put_u32 (crc32 c)) @ c"
      "0 < length c" "length c \<le> 2 ^ 24"
    using assms(2) by (auto simp: frame_def)
  let ?h = "put_u32 (word_of_nat (length c)) @ put_u32 (crc32 c)"
  have len: "unat (word_of_nat (length c) :: u32) = length c"
    using f(3) by (intro unat_word_of_length) simp
  show ?thesis
  proof (cases "k < 8")
    case True
    then show ?thesis
      using tcp.read_all_short [of "(take k f, sched)" 8 "[]"] assms(3)
      by (auto simp: recv_message_def)
  next
    case False
    then have t: "take k f = ?h @ take (k - 8) c" by (simp add: f(1))
    obtain s1 where s1: "read_all tcp_recv (take k f, sched) 8 [] = (Inr ?h, s1)" "fst s1 = take (k - 8) c"
      using tcp.read_all_complete [of 8 "(take k f, sched)" "[]"] by (auto simp: t)
    have "length (fst s1) < length c" using s1(2) assms(3) False f by auto
    from tcp.read_all_short [OF this, of "[]"] obtain s2
      where "read_all tcp_recv s1 (length c) [] = (Inl ''connection closed during recv'', s2)" ..
    moreover have "be32_at ?h 0 = word_of_nat (length c)"
      using be32_at_header(1) [of "word_of_nat (length c)" "put_u32 (crc32 c)"] by simp
    moreover have "(word_of_nat (length c) :: u32) \<noteq> 0" "\<not> push_bit 20 16 < (word_of_nat (length c) :: u32)"
      using f len by (auto simp: word_less_nat_alt simp flip: unat_eq_0)
    ultimately show ?thesis using s1(1) len by (simp add: recv_message_def Let_def)
  qed
qed

theorem recv_incomplete_witness:
  "fst (recv_message tcp_recv (take 8 (frame [7]), [5])) = Failure ''connection closed during recv''"
  using recv_incomplete [of Ping "frame [7]" 8 "[5]"] by (simp add: encode_ping)

text \<open>C33: A peer can drive the receiver outside its buffer: a well-formed message frame of type
  event-submit whose inner entry announces a length from \<open>0xFFFFFFF8\<close> on passes every check up to the
  entry's checksum, which is then computed over bytes that do not exist.\<close>

theorem recv_out_of_bounds:
  assumes "0xFFFFFFF8 \<le> len"
  shows "fst (recv_message tcp_recv (frame (3 # put_u32 8 @ put_u32 len @ put_u32 x), sched)) = BadAccess"
proof -
  have "be32_at (put_u32 len @ put_u32 x) 0 = len" by (simp add: be32_at_header)
  moreover have "4294967288 \<le> unat len" using assms by (simp add: word_le_nat_alt)
  ultimately have "decode_entry (put_u32 len @ put_u32 x) = OutOfBounds"
    using assms by (simp add: decode_entry_def Let_def unat_add8_word) (use unat_u32_lt [of len] in auto)
  then have "decode_message (3 # put_u32 8 @ put_u32 len @ put_u32 x) = BadAccess"
    by (simp add: decode_message_def msg_type_from_def u32_format.get_put)
  then show ?thesis
    using recv_raw_frame [of "3 # put_u32 8 @ put_u32 len @ put_u32 x"
        "crc32 (3 # put_u32 8 @ put_u32 len @ put_u32 x)" "[]" sched]
    by (auto simp: frame_def)
qed

theorem recv_out_of_bounds_witness:
  "fst (recv_message tcp_recv (frame (3 # put_u32 8 @ put_u32 0xFFFFFFFF @ put_u32 0), [])) = BadAccess"
  by (rule recv_out_of_bounds) simp

end
