(* ===== verification/Coordinator.thy ===== *)
theory Coordinator
  imports Protocol
begin

text \<open>
  \<^verbatim>\<open>coordinator.hpp\<close> and \<^verbatim>\<open>coordinator.cpp\<close>: the coordinator that serialises
  events from worker connections through a queue into the ledger.

  Its threads are interleaved steps on one state. A step is a section of code under one lock, or a
  socket operation: the reader of a connection delivers a message or notices the end of the stream,
  the accounting thread takes the next item and works through the sections of its handler
  (\<open>co_pc\<close> says where it is), and other threads may call the public methods in between. A
  connection is named by its position in \<^verbatim>\<open>all_conns_\<close>, which only grows; \<open>cn_sent\<close> lists
  the messages handed to its socket (the result of sending is ignored by the code). Socket set-up
  succeeding or failing is an argument of \<open>coord_start\<close>.
\<close>

section \<open>State\<close>

record conn =
  cn_worker :: worker_id
  cn_registered :: bool
  cn_open :: bool
  cn_reading :: bool
  cn_sent :: "message list"

definition conn_new :: conn where
  "conn_new = \<lparr>cn_worker = id_default, cn_registered = False, cn_open = True, cn_reading = True,
     cn_sent = []\<rparr>"

text \<open>\<^verbatim>\<open>WorkItem\<close>; an event enqueued through the public method has a null connection.\<close>

datatype work_item =
    WEvent "nat option" ledger_entry
  | WRegister nat worker_id worker_boot_id
  | WLost nat worker_id

datatype accounting_pc =
    NotStarted
  | Idle
  | Registered nat worker_id coordinator_epoch accounting_generation
  | Appended nat append_result
  | LossRolled worker_id
  | LossAdvanced worker_id
  | Finished
  | NullConnection

record coordinator =
  co_ledger :: ledger
  co_authority :: authority_state
  co_in_flight :: "(request_id, unit) omap"
  co_running :: bool
  co_accepting :: bool
  co_stop_requested :: bool
  co_port :: u16
  co_conns :: "conn list"
  co_queue :: "work_item list"
  co_pc :: accounting_pc

definition coordinator_new :: "ledger_id \<Rightarrow> coordinator" where
  "coordinator_new i =
     \<lparr>co_ledger = attach_authority (ledger_new i) 0,
      co_authority = authority_default\<lparr>st_epoch := Generation 1, st_accounting_generation := Generation 1\<rparr>,
      co_in_flight = [], co_running = False, co_accepting = False,
      co_stop_requested = False, co_port = 0,
      co_conns = [], co_queue = [], co_pc = NotStarted\<rparr>"

section \<open>Public methods\<close>

definition coord_start :: "bool \<Rightarrow> u16 \<Rightarrow> coordinator \<Rightarrow> coordinator" where
  "coord_start listening port c =
     (if \<not> listening then c
      else c\<lparr>co_port := port, co_running := True, co_accepting := True, co_pc := Idle\<rparr>)"

definition coord_stop :: "coordinator \<Rightarrow> coordinator" where
  "coord_stop c =
     c\<lparr>co_stop_requested := True, co_running := False,
       co_conns := map (\<lambda>k. k\<lparr>cn_open := False\<rparr>) (co_conns c)\<rparr>"

definition advance_epoch :: "coordinator \<Rightarrow> coordinator" where
  "advance_epoch c =
     c\<lparr>co_authority := (co_authority c)
        \<lparr>st_epoch := gen_next (st_epoch (co_authority c)),
         st_accounting_generation := gen_next (st_accounting_generation (co_authority c))\<rparr>\<rparr>"

definition adopt_request :: "authority_state \<Rightarrow> ledger_entry \<Rightarrow> authority_state" where
  "adopt_request s e =
     s\<lparr>st_request_generation :=
         map_put (e_request e) (a_request_generation (e_authority e)) (st_request_generation s),
       st_current_attempt := map_put (e_request e) (a_attempt (e_authority e)) (st_current_attempt s),
       st_attempt_generation :=
         map_put (e_request e) (a_attempt_generation (e_authority e)) (st_attempt_generation s),
       st_request_rolled := map_put (e_request e) False (st_request_rolled s)\<rparr>"

definition set_request_authority :: "coordinator \<Rightarrow> ledger_entry \<Rightarrow> coordinator" where
  "set_request_authority c e = c\<lparr>co_authority := adopt_request (co_authority c) e\<rparr>"

definition connected_workers :: "coordinator \<Rightarrow> nat" where
  "connected_workers c = length (filter cn_registered (co_conns c))"

definition enqueue :: "coordinator \<Rightarrow> work_item \<Rightarrow> coordinator" where
  "enqueue c w = c\<lparr>co_queue := co_queue c @ [w]\<rparr>"

definition enqueue_event :: "coordinator \<Rightarrow> ledger_entry \<Rightarrow> coordinator" where
  "enqueue_event c e = enqueue c (WEvent None e)"

section \<open>Connections\<close>

definition upd_conn :: "coordinator \<Rightarrow> nat \<Rightarrow> (conn \<Rightarrow> conn) \<Rightarrow> coordinator" where
  "upd_conn c i f =
     (if i < length (co_conns c) then c\<lparr>co_conns := (co_conns c)[i := f (co_conns c ! i)]\<rparr> else c)"

definition conn_send :: "message \<Rightarrow> conn \<Rightarrow> conn" where
  "conn_send msg k = k\<lparr>cn_sent := cn_sent k @ [msg]\<rparr>"

text \<open>One turn of \<^verbatim>\<open>accept_loop\<close>: a connection arrives or accepting one fails, and the loop
  condition is tested again (\<open>co_accepting\<close>).\<close>

definition accept_conn :: "coordinator \<Rightarrow> coordinator" where
  "accept_conn c = c\<lparr>co_conns := co_conns c @ [conn_new], co_accepting := co_running c\<rparr>"

definition accept_failed :: "coordinator \<Rightarrow> coordinator" where
  "accept_failed c = c\<lparr>co_accepting := (\<not> co_stop_requested c \<and> co_running c)\<rparr>"

text \<open>One turn of \<^verbatim>\<open>read_loop\<close>: a message arrives, and the loop condition is tested again.\<close>

definition on_message :: "coordinator \<Rightarrow> nat \<Rightarrow> message \<Rightarrow> coordinator" where
  "on_message c i msg =
     upd_conn
       (case msg of
          Register w b \<Rightarrow> enqueue c (WRegister i w b)
        | EventSubmit e \<Rightarrow> enqueue c (WEvent (Some i) e)
        | Ping \<Rightarrow> upd_conn c i (conn_send Ping)
        | _ \<Rightarrow> c)
       i (\<lambda>k. k\<lparr>cn_reading := co_running c\<rparr>)"

definition on_disconnect :: "coordinator \<Rightarrow> nat \<Rightarrow> coordinator" where
  "on_disconnect c i =
     upd_conn
       (if cn_registered (co_conns c ! i)
        then enqueue c (WLost i (cn_worker (co_conns c ! i))) else c)
       i (\<lambda>k. k\<lparr>cn_reading := False\<rparr>)"

section \<open>Handlers\<close>

text \<open>Each handler by its locked sections, then as a whole.\<close>

definition register_boot :: "coordinator \<Rightarrow> worker_id \<Rightarrow> worker_boot_id \<Rightarrow> coordinator" where
  "register_boot c w b =
     c\<lparr>co_authority := (co_authority c)
        \<lparr>st_worker_boot := map_put w b (st_worker_boot (co_authority c))\<rparr>\<rparr>"

definition register_ack ::
    "coordinator \<Rightarrow> nat \<Rightarrow> worker_id \<Rightarrow> coordinator_epoch \<Rightarrow> accounting_generation \<Rightarrow> coordinator" where
  "register_ack c i w epoch ag =
     upd_conn c i (\<lambda>k. conn_send (RegisterAck True epoch ag ''registered'')
       (k\<lparr>cn_worker := w, cn_registered := True\<rparr>))"

definition handle_registration ::
    "coordinator \<Rightarrow> nat \<Rightarrow> worker_id \<Rightarrow> worker_boot_id \<Rightarrow> coordinator" where
  "handle_registration c i w b =
     (let c = register_boot c w b
      in register_ack c i w (st_epoch (co_authority c)) (st_accounting_generation (co_authority c)))"

definition account_event :: "coordinator \<Rightarrow> ledger_entry \<Rightarrow> append_result \<times> coordinator" where
  "account_event c e =
     (let c = (if e_event_kind e = RequestStart
               then c\<lparr>co_authority := adopt_request (co_authority c) e\<rparr> else c);
          (ar, l) = ledger_append (authority_of (\<lambda>_. co_authority c) (co_ledger c)) (co_ledger c) e;
          c = c\<lparr>co_ledger := l\<rparr>
      in (ar,
          if ar_status ar = Accepted then
            (if e_event_kind e = RequestStart
             then c\<lparr>co_in_flight := map_emplace (e_request e) () (co_in_flight c)\<rparr>
             else if e_event_kind e = RequestEnd
             then c\<lparr>co_in_flight := map_erase (e_request e) (co_in_flight c)\<rparr>
             else c)
          else c))"

definition event_ack :: "coordinator \<Rightarrow> nat \<Rightarrow> append_result \<Rightarrow> coordinator" where
  "event_ack c i ar =
     upd_conn c i (conn_send (EventAck (append_status_val (ar_status ar)) (ar_reason ar)))"

definition handle_event :: "coordinator \<Rightarrow> nat \<Rightarrow> ledger_entry \<Rightarrow> coordinator" where
  "handle_event c i e = (case account_event c e of (ar, c) \<Rightarrow> event_ack c i ar)"

definition roll_in_flight :: "coordinator \<Rightarrow> coordinator" where
  "roll_in_flight c =
     c\<lparr>co_authority := (co_authority c)
        \<lparr>st_request_rolled :=
           foldl (\<lambda>m r. map_put r True m) (st_request_rolled (co_authority c)) (map fst (co_in_flight c))\<rparr>\<rparr>"

definition broadcast_roll :: "coordinator \<Rightarrow> worker_id \<Rightarrow> coordinator" where
  "broadcast_roll c w =
     (let roll = Roll (st_epoch (co_authority c)) (st_accounting_generation (co_authority c))
      in c\<lparr>co_conns := map (\<lambda>k. if \<not> cn_registered k then k else if cn_worker k = w then k
             else conn_send roll k) (co_conns c)\<rparr>)"

definition handle_worker_lost :: "coordinator \<Rightarrow> worker_id \<Rightarrow> coordinator" where
  "handle_worker_lost c w = broadcast_roll (advance_epoch (roll_in_flight c)) w"

section \<open>The accounting thread\<close>

text \<open>
  One step of \<^verbatim>\<open>accounting_loop\<close>; \<^term>\<open>None\<close> when it waits or has ended. An item without a
  connection makes it dereference a null pointer.
\<close>

definition take_item :: "coordinator \<Rightarrow> work_item \<Rightarrow> coordinator" where
  "take_item c w =
     (case w of
        WRegister i wk b \<Rightarrow>
          (let c = register_boot c wk b
           in c\<lparr>co_pc := Registered i wk (st_epoch (co_authority c))
                (st_accounting_generation (co_authority c))\<rparr>)
      | WEvent None e \<Rightarrow> c\<lparr>co_pc := NullConnection\<rparr>
      | WEvent (Some i) e \<Rightarrow> (case account_event c e of (ar, c) \<Rightarrow> c\<lparr>co_pc := Appended i ar\<rparr>)
      | WLost i wk \<Rightarrow> (roll_in_flight c)\<lparr>co_pc := LossRolled wk\<rparr>)"

definition accounting_step :: "coordinator \<Rightarrow> coordinator option" where
  "accounting_step c =
     (case co_pc c of
        Idle \<Rightarrow>
          (case co_queue c of
             [] \<Rightarrow> if co_stop_requested c then Some (c\<lparr>co_pc := Finished\<rparr>) else None
           | w # q \<Rightarrow> Some (take_item (c\<lparr>co_queue := q\<rparr>) w))
      | Registered i w epoch ag \<Rightarrow> Some ((register_ack c i w epoch ag)\<lparr>co_pc := Idle\<rparr>)
      | Appended i ar \<Rightarrow> Some ((event_ack c i ar)\<lparr>co_pc := Idle\<rparr>)
      | LossRolled w \<Rightarrow> Some ((advance_epoch c)\<lparr>co_pc := LossAdvanced w\<rparr>)
      | LossAdvanced w \<Rightarrow> Some ((broadcast_roll c w)\<lparr>co_pc := Idle\<rparr>)
      | NotStarted \<Rightarrow> None
      | Finished \<Rightarrow> None
      | NullConnection \<Rightarrow> None)"

section \<open>All threads\<close>

inductive coord_step :: "coordinator \<Rightarrow> coordinator \<Rightarrow> bool" where
  start: "co_pc c = NotStarted \<Longrightarrow> coord_step c (coord_start listening port c)"
| stop: "coord_step c (coord_stop c)"
| accept: "co_accepting c \<Longrightarrow> coord_step c (accept_conn c)"
| no_accept: "co_accepting c \<Longrightarrow> coord_step c (accept_failed c)"
| message: "i < length (co_conns c) \<Longrightarrow> cn_reading (co_conns c ! i) \<Longrightarrow> coord_step c (on_message c i msg)"
| disconnect: "i < length (co_conns c) \<Longrightarrow> cn_reading (co_conns c ! i) \<Longrightarrow> coord_step c (on_disconnect c i)"
| accounting: "accounting_step c = Some c' \<Longrightarrow> coord_step c c'"
| advance: "coord_step c (advance_epoch c)"
| set_request: "coord_step c (set_request_authority c e)"
| submit: "coord_step c (enqueue_event c e)"

inductive_cases coord_stepE: "coord_step c c'"

inductive reachable :: "ledger_id \<Rightarrow> coordinator \<Rightarrow> bool" for i where
  init: "reachable i (coordinator_new i)"
| step: "reachable i c \<Longrightarrow> coord_step c c' \<Longrightarrow> reachable i c'"

section \<open>Steps seen from the accounting state\<close>

text \<open>The ledger, the authority and the open requests; connections and the queue do not matter to
  them.\<close>

definition core :: "coordinator \<Rightarrow> ledger \<times> authority_state \<times> (request_id, unit) omap" where
  "core c = (co_ledger c, co_authority c, co_in_flight c)"

lemma core_upd_conn [simp]: "core (upd_conn c i f) = core c"
  by (simp add: core_def upd_conn_def)

lemma core_more [simp]:
  "core (c\<lparr>co_pc := p\<rparr>) = core c" "core (c\<lparr>co_queue := q\<rparr>) = core c"
  "core (c\<lparr>co_conns := k\<rparr>) = core c"
  "core (enqueue c w) = core c" "core (accept_conn c) = core c" "core (accept_failed c) = core c"
  "core (coord_stop c) = core c"
  "core (coord_start l port c) = core c" "core (broadcast_roll c wk) = core c"
  "core (enqueue_event c e) = core c"
  by (simp_all add: core_def enqueue_def accept_conn_def accept_failed_def coord_stop_def coord_start_def
      broadcast_roll_def enqueue_event_def Let_def)

lemma core_conn [simp]:
  "core (register_ack c i w ep ag) = core c" "core (event_ack c i ar) = core c"
  "core (on_disconnect c i) = core c" "core (on_message c i msg) = core c"
  by (simp_all add: register_ack_def event_ack_def on_disconnect_def on_message_def
      split: message.split)

text \<open>
  The rule for invariants of the accounting state: an invariant preserved by the locked sections
  that change it holds in every reachable state, whatever the threads interleave.
\<close>

locale accounting_invariant =
  fixes I :: "coordinator \<Rightarrow> bool"
  assumes same_core: "core c' = core c \<Longrightarrow> I c \<Longrightarrow> I c'"
    and boot: "I c \<Longrightarrow> I (register_boot c w b)"
    and event: "I c \<Longrightarrow> I (snd (account_event c e))"
    and roll: "I c \<Longrightarrow> I (roll_in_flight c)"
    and advance: "I c \<Longrightarrow> I (advance_epoch c)"
    and adopt: "I c \<Longrightarrow> I (set_request_authority c e)"
    and initial: "I (coordinator_new i)"
begin

lemma take_item: "I c \<Longrightarrow> I (take_item c w)"
proof (cases w)
  case (WEvent k e)
  assume "I c"
  show ?thesis
  proof (cases k)
    case None
    then show ?thesis using same_core [of "take_item c w" c] \<open>I c\<close> WEvent by (simp add: take_item_def)
  next
    case (Some i)
    then show ?thesis
      using same_core [of "take_item c w" "snd (account_event c e)"] event [OF \<open>I c\<close>] WEvent
      by (simp add: take_item_def case_prod_beta)
  qed
next
  case (WRegister i wk b)
  assume "I c"
  then show ?thesis
    using same_core [of "take_item c w" "register_boot c wk b"] boot WRegister
    by (simp add: take_item_def Let_def)
next
  case (WLost i wk)
  assume "I c"
  then show ?thesis
    using same_core [of "take_item c w" "roll_in_flight c"] roll WLost by (simp add: take_item_def)
qed

lemma accounting_step: "accounting_step c = Some c' \<Longrightarrow> I c \<Longrightarrow> I c'"
proof -
  assume st: "accounting_step c = Some c'" and I: "I c"
  have q: "I (c\<lparr>co_queue := q\<rparr>)" for q using same_core [OF _ I] by simp
  consider (take) w q where "c' = take_item (c\<lparr>co_queue := q\<rparr>) w" | (same) "core c' = core c"
    | (adv) "core c' = core (advance_epoch c)"
    using st by (auto simp: accounting_step_def split: accounting_pc.splits list.splits if_splits)
  then show "I c'"
  proof cases
    case take
    then show ?thesis using take_item [OF q] by simp
  next
    case same
    then show ?thesis using same_core I by blast
  next
    case adv
    then show ?thesis using same_core [OF _ advance [OF I]] by blast
  qed
qed

lemma step: "coord_step c c' \<Longrightarrow> I c \<Longrightarrow> I c'"
  by (erule coord_stepE) (auto intro: accounting_step advance adopt same_core [of _ c])

lemma reachable: "reachable i c \<Longrightarrow> I c"
  by (induction rule: reachable.induct) (auto intro: step initial)

lemma path: "(coord_step ^^ n) c c' \<Longrightarrow> I c \<Longrightarrow> I c'"
  by (induction n arbitrary: c') (auto intro: step)

end

section \<open>What a section does\<close>

text \<open>The authority an event is checked against: a start first installs its own request authority.\<close>

definition authority_for :: "coordinator \<Rightarrow> ledger_entry \<Rightarrow> authority_state" where
  "authority_for c e =
     (if e_event_kind e = RequestStart then adopt_request (co_authority c) e else co_authority c)"

lemma l_authority_append [simp]: "l_authority (snd (ledger_append auth l e)) = l_authority l"
  by (simp add: ledger_append_def split: authority_verdict.split option.split)

lemma account_event_parts:
  assumes "l_authority (co_ledger c) = Some p"
  shows "fst (account_event c e) = fst (ledger_append (Some (authority_for c e)) (co_ledger c) e)"
    "co_ledger (snd (account_event c e)) = snd (ledger_append (Some (authority_for c e)) (co_ledger c) e)"
    "co_authority (snd (account_event c e)) = authority_for c e"
    "co_in_flight (snd (account_event c e)) =
       (if ar_status (fst (account_event c e)) = Accepted then
          (if e_event_kind e = RequestStart then map_emplace (e_request e) () (co_in_flight c)
           else if e_event_kind e = RequestEnd then map_erase (e_request e) (co_in_flight c)
           else co_in_flight c)
        else co_in_flight c)"
  using assms
  by (simp_all add: account_event_def authority_for_def authority_of_def Let_def case_prod_beta)

lemma adopt_request_same [simp]:
  "st_epoch (adopt_request s e) = st_epoch s"
  "st_accounting_generation (adopt_request s e) = st_accounting_generation s"
  "st_worker_boot (adopt_request s e) = st_worker_boot s"
  "st_enforce_request_scope (adopt_request s e) = st_enforce_request_scope s"
  by (simp_all add: adopt_request_def)

lemma authority_for_same [simp]:
  "st_epoch (authority_for c e) = st_epoch (co_authority c)"
  "st_accounting_generation (authority_for c e) = st_accounting_generation (co_authority c)"
  "st_worker_boot (authority_for c e) = st_worker_boot (co_authority c)"
  "st_enforce_request_scope (authority_for c e) = st_enforce_request_scope (co_authority c)"
  by (simp_all add: authority_for_def)

lemmas section_defs = register_boot_def roll_in_flight_def advance_epoch_def set_request_authority_def

section \<open>Invariants\<close>

definition fenced :: "coordinator \<Rightarrow> bool" where
  "fenced c =
     (ledger_inv (co_ledger c) \<and> l_authority (co_ledger c) = Some 0 \<and>
      gen_value (st_epoch (co_authority c)) = gen_value (st_accounting_generation (co_authority c)) \<and>
      st_enforce_request_scope (co_authority c) \<and>
      (\<forall>e \<in> set (snapshot (co_ledger c)).
         gen_value (a_epoch (e_authority e)) = gen_value (a_accounting_generation (e_authority e))))"

lemma accepted_current:
  "ar_status (fst (ledger_append (Some s) l e)) = Accepted \<Longrightarrow> content_is_valid e \<and> current_authority e s"
  by (simp add: append_status_Accepted passes_fence_def)

lemma fenced_event: "fenced c \<Longrightarrow> fenced (snd (account_event c e))"
proof -
  assume f: "fenced c"
  then have l: "l_authority (co_ledger c) = Some 0" by (simp add: fenced_def)
  note parts = account_event_parts [OF l, of e]
  have "gen_value (a_epoch (e_authority x)) = gen_value (a_accounting_generation (e_authority x))"
    if "x \<in> set (snapshot (co_ledger (snd (account_event c e))))" for x
    using that f accepted_current [of "authority_for c e" "co_ledger c" e]
    by (auto simp: parts(2) snapshot_def append_entries_cases(1) fenced_def current_authority_def
        split: if_splits)
  with f show ?thesis
    by (simp add: fenced_def parts ledger_inv_append)
qed

interpretation fence: accounting_invariant fenced
proof unfold_locales
  fix c c' w b e i
  show "core c' = core c \<Longrightarrow> fenced c \<Longrightarrow> fenced c'" by (simp add: core_def fenced_def)
  show "fenced c \<Longrightarrow> fenced (snd (account_event c e))" by (rule fenced_event)
  show "fenced c \<Longrightarrow> fenced (register_boot c w b)" by (simp add: fenced_def section_defs)
  show "fenced c \<Longrightarrow> fenced (roll_in_flight c)" by (simp add: fenced_def section_defs)
  show "fenced c \<Longrightarrow> fenced (advance_epoch c)" by (simp add: fenced_def section_defs gen_next_def)
  show "fenced c \<Longrightarrow> fenced (set_request_authority c e)" by (simp add: fenced_def section_defs)
  show "fenced (coordinator_new i)"
    using ledger_inv_new [of i]
    by (simp add: fenced_def coordinator_new_def attach_authority_def authority_default_def
        snapshot_def ledger_inv_def ledger_new_def)
qed

text \<open>Open requests were started: each has its start in the ledger.\<close>

definition open_started :: "coordinator \<Rightarrow> bool" where
  "open_started c =
     (l_authority (co_ledger c) = Some 0 \<and> map_wf (co_in_flight c) \<and>
      (\<forall>r. map_find (co_in_flight c) r \<noteq> None \<longrightarrow>
         (\<exists>e \<in> set (snapshot (co_ledger c)). e_request e = r \<and> e_event_kind e = RequestStart)))"

lemma snapshot_append_mono:
  "x \<in> set (snapshot l) \<Longrightarrow> x \<in> set (snapshot (snd (ledger_append auth l e)))"
  by (simp add: snapshot_def append_entries_cases(1))

lemma open_started_event: "open_started c \<Longrightarrow> open_started (snd (account_event c e))"
proof -
  assume o: "open_started c"
  then have l: "l_authority (co_ledger c) = Some 0" by (simp add: open_started_def)
  note parts = account_event_parts [OF l, of e]
  have old: "\<exists>x \<in> set (snapshot (co_ledger (snd (account_event c e)))). e_request x = r \<and> e_event_kind x = RequestStart"
    if "map_find (co_in_flight c) r \<noteq> None" for r
    using that o snapshot_append_mono by (fastforce simp: open_started_def parts(2))
  have new: "e \<in> set (snapshot (co_ledger (snd (account_event c e))))"
    if "ar_status (fst (account_event c e)) = Accepted"
    using that by (simp add: parts(1,2) snapshot_def append_entries_cases(1))
  show ?thesis
    using o old new
    by (auto simp: open_started_def parts map_find_emplace map_find_erase map_wf_emplace map_wf_erase
        split: if_splits)
qed

interpretation started: accounting_invariant open_started
proof unfold_locales
  fix c c' w b e i
  show "core c' = core c \<Longrightarrow> open_started c \<Longrightarrow> open_started c'" by (simp add: core_def open_started_def)
  show "open_started c \<Longrightarrow> open_started (snd (account_event c e))" by (rule open_started_event)
  show "open_started c \<Longrightarrow> open_started (register_boot c w b)" by (simp add: open_started_def section_defs)
  show "open_started c \<Longrightarrow> open_started (roll_in_flight c)" by (simp add: open_started_def section_defs)
  show "open_started c \<Longrightarrow> open_started (advance_epoch c)" by (simp add: open_started_def section_defs)
  show "open_started c \<Longrightarrow> open_started (set_request_authority c e)"
    by (simp add: open_started_def section_defs)
  show "open_started (coordinator_new i)"
    by (simp add: open_started_def coordinator_new_def attach_authority_def map_find_def map_wf_def)
qed

section \<open>Effects of steps\<close>

lemma accounting_step_core:
  assumes "accounting_step c = Some c'"
  shows "core c' = core c \<or> (\<exists>w b. core c' = core (register_boot c w b)) \<or>
    (\<exists>e. core c' = core (snd (account_event c e))) \<or> core c' = core (roll_in_flight c) \<or>
    core c' = core (advance_epoch c)"
proof -
  have ev: "core (snd (account_event (c\<lparr>co_queue := q\<rparr>) e)) = core (snd (account_event c e))" for q e
    by (simp add: account_event_def core_def Let_def case_prod_beta)
  have bt: "core (register_boot (c\<lparr>co_queue := q\<rparr>) w b) = core (register_boot c w b)" for q w b
    by (simp add: core_def section_defs)
  have rl: "core (roll_in_flight (c\<lparr>co_queue := q\<rparr>)) = core (roll_in_flight c)" for q
    by (simp add: core_def section_defs)
  show ?thesis
    using assms
    by (auto simp: accounting_step_def take_item_def Let_def case_prod_beta ev bt rl
        split: accounting_pc.splits list.splits if_splits work_item.splits option.splits) blast
qed

lemma coord_step_core:
  assumes "coord_step c c'"
  shows "core c' = core c \<or> (\<exists>w b. core c' = core (register_boot c w b)) \<or>
    (\<exists>e. core c' = core (snd (account_event c e))) \<or> core c' = core (roll_in_flight c) \<or>
    core c' = core (advance_epoch c) \<or> (\<exists>e. core c' = core (set_request_authority c e))"
  using assms by (rule coord_stepE) (use accounting_step_core in auto)

lemma coord_step_epoch:
  assumes "coord_step c c'" "fenced c"
  shows "st_epoch (co_authority c') = st_epoch (co_authority c) \<or>
    st_epoch (co_authority c') = gen_next (st_epoch (co_authority c))"
proof -
  have "l_authority (co_ledger c) = Some 0" using assms(2) by (simp add: fenced_def)
  from account_event_parts [OF this]
  show ?thesis using coord_step_core [OF assms(1)] by (auto simp: core_def section_defs)
qed

lemma path_epoch:
  "(coord_step ^^ n) c c' \<Longrightarrow> fenced c \<Longrightarrow>
     \<exists>k \<le> n. gen_value (st_epoch (co_authority c')) = gen_value (st_epoch (co_authority c)) + word_of_nat k"
proof (induction n arbitrary: c')
  case (Suc n)
  then obtain d where d: "(coord_step ^^ n) c d" "coord_step d c'" by auto
  then obtain k where k: "k \<le> n"
      "gen_value (st_epoch (co_authority d)) = gen_value (st_epoch (co_authority c)) + word_of_nat k"
    using Suc by blast
  have "fenced d" using fence.path d(1) Suc.prems(2) by blast
  from coord_step_epoch [OF d(2) this] show ?case
  proof
    assume "st_epoch (co_authority c') = st_epoch (co_authority d)"
    with k show ?thesis by (intro exI [of _ k]) simp
  next
    assume "st_epoch (co_authority c') = gen_next (st_epoch (co_authority d))"
    with k show ?thesis by (intro exI [of _ "Suc k"]) (simp add: gen_next_def)
  qed
qed simp

lemma coord_step_grows:
  assumes "coord_step c c'" "fenced c"
  shows "\<exists>new. snapshot (co_ledger c') = snapshot (co_ledger c) @ new"
proof -
  have "l_authority (co_ledger c) = Some 0" using assms(2) by (simp add: fenced_def)
  note parts = account_event_parts [OF this]
  have "\<exists>new. snapshot (co_ledger (snd (account_event c e))) = snapshot (co_ledger c) @ new" for e
    by (auto simp: parts snapshot_def append_entries_cases(1))
  then show ?thesis
    using coord_step_core [OF assms(1)] by (auto simp: core_def section_defs)
qed

lemma path_grows:
  "(coord_step ^^ n) c c' \<Longrightarrow> fenced c \<Longrightarrow> \<exists>new. snapshot (co_ledger c') = snapshot (co_ledger c) @ new"
proof (induction n arbitrary: c')
  case (Suc n)
  then obtain d where d: "(coord_step ^^ n) c d" "coord_step d c'" by auto
  have "fenced d" using fence.path d(1) Suc.prems(2) by blast
  with coord_step_grows [OF d(2)] Suc.IH [OF d(1) Suc.prems(2)] show ?case by auto
qed simp

lemma map_find_roll:
  "map_find (foldl (\<lambda>m r. map_put r True m) m rs) r =
     (if r \<in> set rs then Some True else map_find m r)"
  by (induction rs arbitrary: m) (auto simp: map_find_put)

section \<open>The accounting thread implements the handlers\<close>

definition process_item :: "coordinator \<Rightarrow> work_item \<Rightarrow> coordinator option" where
  "process_item c w =
     (case w of
        WRegister i wk b \<Rightarrow> Some (handle_registration c i wk b)
      | WEvent None e \<Rightarrow> None
      | WEvent (Some i) e \<Rightarrow> Some (handle_event c i e)
      | WLost i wk \<Rightarrow> Some (handle_worker_lost c wk))"

primrec process_all :: "coordinator \<Rightarrow> work_item list \<Rightarrow> coordinator option" where
  "process_all c [] = Some c"
| "process_all c (w # q) = do { c' \<leftarrow> process_item (c\<lparr>co_queue := q\<rparr>) w; process_all c' q }"

definition acct :: "coordinator \<Rightarrow> coordinator \<Rightarrow> bool" where
  "acct c c' = (accounting_step c = Some c')"

text \<open>The fields no handler touches.\<close>

definition frame_of_thread :: "coordinator \<Rightarrow> work_item list \<times> bool \<times> bool \<times> accounting_pc" where
  "frame_of_thread c = (co_queue c, co_stop_requested c, co_running c, co_pc c)"

lemma frame_upd_conn [simp]: "frame_of_thread (upd_conn c i f) = frame_of_thread c"
  by (simp add: frame_of_thread_def upd_conn_def)

lemma frame_account_event [simp]: "frame_of_thread (snd (account_event c e)) = frame_of_thread c"
  by (simp add: frame_of_thread_def account_event_def Let_def case_prod_beta)

lemma frame_process_item: "process_item c w = Some c' \<Longrightarrow> frame_of_thread c' = frame_of_thread c"
proof -
  have s: "frame_of_thread (register_boot c wk b) = frame_of_thread c" "frame_of_thread (roll_in_flight c) = frame_of_thread c"
    "frame_of_thread (advance_epoch c) = frame_of_thread c" "frame_of_thread (broadcast_roll c wk) = frame_of_thread c" for c wk b
    by (simp_all add: frame_of_thread_def section_defs broadcast_roll_def Let_def)
  show "process_item c w = Some c' \<Longrightarrow> ?thesis"
    by (auto simp: process_item_def handle_registration_def register_ack_def handle_event_def
        event_ack_def handle_worker_lost_def s Let_def case_prod_beta
        split: work_item.splits option.splits)
qed

lemma pc_upd_conn [simp]: "(upd_conn (c\<lparr>co_pc := p\<rparr>) i f) = (upd_conn c i f)\<lparr>co_pc := p\<rparr>"
  by (simp add: upd_conn_def)

lemma pc_same [simp]: "co_pc c = p \<Longrightarrow> c\<lparr>co_pc := p\<rparr> = c"
  by (cases c) simp

lemma pc_sections [simp]:
  "(advance_epoch (c\<lparr>co_pc := p\<rparr>)) = (advance_epoch c)\<lparr>co_pc := p\<rparr>"
  "(broadcast_roll (c\<lparr>co_pc := p\<rparr>) w) = (broadcast_roll c w)\<lparr>co_pc := p\<rparr>"
  by (simp_all add: advance_epoch_def broadcast_roll_def Let_def)

lemma item_steps:
  assumes "co_pc c = Idle" "co_queue c = w # q" "process_item (c\<lparr>co_queue := q\<rparr>) w = Some c'"
  shows "\<exists>k \<le> 3. (acct ^^ k) c c'"
proof -
  let ?c = "c\<lparr>co_queue := q\<rparr>"
  have pc: "co_pc c' = Idle"
    using frame_process_item [OF assms(3)] assms(1) by (simp add: frame_of_thread_def)
  have take: "acct c (take_item ?c w)"
    using assms(1,2) by (simp add: acct_def accounting_step_def)
  show ?thesis
  proof (cases w)
    case (WRegister i wk b)
    let ?d = "register_boot ?c wk b"
    have "acct (take_item ?c w) c'"
      using assms(3) pc WRegister
      by (auto simp: acct_def accounting_step_def take_item_def process_item_def
          handle_registration_def register_ack_def Let_def)
    with take have "(acct ^^ 2) c c'" by (auto simp: numeral_2_eq_2)
    then show ?thesis by (intro exI [of _ 2]) simp
  next
    case (WEvent k e)
    then obtain i where i: "k = Some i" using assms(3) by (cases k) (auto simp: process_item_def)
    have "acct (take_item ?c w) c'"
      using assms(3) pc WEvent i
      by (auto simp: acct_def accounting_step_def take_item_def process_item_def
          handle_event_def event_ack_def case_prod_beta)
    with take have "(acct ^^ 2) c c'" by (auto simp: numeral_2_eq_2)
    then show ?thesis by (intro exI [of _ 2]) simp
  next
    case (WLost i wk)
    let ?d = "(advance_epoch (roll_in_flight ?c))\<lparr>co_pc := LossAdvanced wk\<rparr>"
    have "acct (take_item ?c w) ?d" "acct ?d c'"
      using assms(3) pc WLost
      by (auto simp: acct_def accounting_step_def take_item_def process_item_def handle_worker_lost_def)
    with take have "(acct ^^ 3) c c'" by (auto simp: numeral_3_eq_3)
    then show ?thesis by (intro exI [of _ 3]) simp
  qed
qed

lemma drain_steps:
  "co_pc c = Idle \<Longrightarrow> process_all c (co_queue c) = Some c' \<Longrightarrow>
     (\<exists>k \<le> 3 * length (co_queue c). (acct ^^ k) c c') \<and> co_queue c' = [] \<and> co_pc c' = Idle \<and>
     co_stop_requested c' = co_stop_requested c"
proof (induction "co_queue c" arbitrary: c)
  case Nil
  then show ?case by (intro conjI exI [of _ 0]) auto
next
  case (Cons w q)
  then have qc: "co_queue c = w # q" by simp
  obtain d where d: "process_item (c\<lparr>co_queue := q\<rparr>) w = Some d" "process_all d q = Some c'"
    using Cons.prems(2) by (auto simp: qc split: bind_splits)
  have fr: "co_queue d = q" "co_pc d = Idle" "co_stop_requested d = co_stop_requested c"
    using frame_process_item [OF d(1)] Cons.prems(1) by (simp_all add: frame_of_thread_def)
  obtain k1 where k1: "k1 \<le> 3" "(acct ^^ k1) c d"
    using item_steps [OF Cons.prems(1) qc d(1)] by blast
  have "(\<exists>k \<le> 3 * length (co_queue d). (acct ^^ k) d c') \<and> co_queue c' = [] \<and> co_pc c' = Idle \<and>
      co_stop_requested c' = co_stop_requested d"
    using Cons.hyps(1) [of d] fr d(2) by simp
  then obtain k2 where k2: "k2 \<le> 3 * length q" "(acct ^^ k2) d c'" and rest: "co_queue c' = []"
      "co_pc c' = Idle" "co_stop_requested c' = co_stop_requested c"
    using fr by auto
  have "(acct ^^ (k1 + k2)) c c'" using k1(2) k2(2) by (auto simp: relpowp_add)
  then show ?case using k1(1) k2(1) rest by (auto simp: qc intro!: exI [of _ "k1 + k2"])
qed

definition has_connection :: "work_item \<Rightarrow> bool" where
  "has_connection w = (case w of WEvent None _ \<Rightarrow> False | _ \<Rightarrow> True)"

lemma process_all_defined: "list_all has_connection q \<Longrightarrow> \<exists>c'. process_all c q = Some c'"
proof (induction q arbitrary: c)
  case (Cons w q)
  then obtain d where "process_item (c\<lparr>co_queue := q\<rparr>) w = Some d"
    by (auto simp: process_item_def has_connection_def split: work_item.splits option.splits)
  with Cons show ?case by simp
qed simp

section \<open>A run\<close>

text \<open>A worker connects, registers and submits the start of a request, which is accepted.\<close>

definition program_ledger :: ledger_id where
  "program_ledger = Id128 0x494C4544474552 0x0000000000000001"

definition sample_start :: ledger_entry where
  "sample_start = entry_default\<lparr>e_id := Id128 0 1, e_request := Id128 0 3, e_worker := Id128 0 7,
     e_authority := envelope_default\<lparr>a_epoch := Generation 1, a_accounting_generation := Generation 1,
       a_worker_boot := Id128 0 8\<rparr>\<rparr>"

definition sample_registered :: coordinator where
  "sample_registered =
     (let c = accept_conn (coord_start True 80 (coordinator_new program_ledger));
          c = on_message c 0 (Register (Id128 0 7) (Id128 0 8))
      in the (accounting_step (the (accounting_step c))))"

definition sample_queued :: coordinator where
  "sample_queued = on_message sample_registered 0 (EventSubmit sample_start)"

definition sample_accepted :: coordinator where
  "sample_accepted = the (accounting_step sample_queued)"

lemmas sample_defs = accounting_step_def take_item_def on_message_def accept_conn_def coord_start_def
  coordinator_new_def upd_conn_def enqueue_def conn_new_def conn_send_def register_boot_def
  register_ack_def authority_default_def Let_def

lemma reachable_path: "(coord_step ^^ n) c c' \<Longrightarrow> reachable i c \<Longrightarrow> reachable i c'"
  by (induction n arbitrary: c') (auto intro: reachable.step)

lemma sample_registered_path: "(coord_step ^^ 5) (coordinator_new program_ledger) sample_registered"
proof -
  let ?s = "coord_start True 80 (coordinator_new program_ledger)"
  let ?m = "on_message (accept_conn ?s) 0 (Register (Id128 0 7) (Id128 0 8))"
  have "(coord_step ^^ Suc 0) (coordinator_new program_ledger) ?s"
    by (rule relpowp_Suc_I [OF relpowp_0_I]) (simp add: coord_step.start coordinator_new_def)
  then have "(coord_step ^^ Suc (Suc 0)) (coordinator_new program_ledger) (accept_conn ?s)"
    by (rule relpowp_Suc_I) (simp add: coord_step.accept coord_start_def)
  then have "(coord_step ^^ Suc (Suc (Suc 0))) (coordinator_new program_ledger) ?m"
    by (rule relpowp_Suc_I) (rule coord_step.message, simp_all add: sample_defs)
  then have "(coord_step ^^ Suc (Suc (Suc (Suc 0)))) (coordinator_new program_ledger) (the (accounting_step ?m))"
    by (rule relpowp_Suc_I) (rule coord_step.accounting, simp add: sample_defs)
  then have "(coord_step ^^ Suc (Suc (Suc (Suc (Suc 0))))) (coordinator_new program_ledger)
      (the (accounting_step (the (accounting_step ?m))))"
    by (rule relpowp_Suc_I) (rule coord_step.accounting, simp add: sample_defs)
  then show ?thesis by (simp add: sample_registered_def Let_def eval_nat_numeral del: relpowp.simps)
qed

lemma sample_registered_reachable: "reachable program_ledger sample_registered"
  by (rule reachable_path [OF sample_registered_path reachable.init])

lemma sample_registered:
  "sample_registered = (coordinator_new program_ledger)
     \<lparr>co_authority := authority_default\<lparr>st_epoch := Generation 1, st_accounting_generation := Generation 1,
        st_worker_boot := [(Id128 0 7, Id128 0 8)]\<rparr>,
      co_running := True, co_accepting := True, co_port := 80, co_pc := Idle,
      co_conns := [conn_new\<lparr>cn_worker := Id128 0 7, cn_registered := True,
        cn_sent := [RegisterAck True (Generation 1) (Generation 1) ''registered'']\<rparr>]\<rparr>"
  by (simp add: sample_registered_def sample_defs)

lemma sample_queued_path: "(coord_step ^^ 6) (coordinator_new program_ledger) sample_queued"
proof -
  have "coord_step sample_registered sample_queued"
    unfolding sample_queued_def by (rule coord_step.message) (simp_all add: sample_registered sample_defs)
  from relpowp_Suc_I [OF sample_registered_path this] show ?thesis by (simp del: relpowp.simps)
qed

lemma sample_queued_reachable: "reachable program_ledger sample_queued"
  by (rule reachable_path [OF sample_queued_path reachable.init])

lemma sample_start_valid: "content_is_valid sample_start"
  by (simp add: content_is_valid_iff sample_start_def entry_default_def quantity_default_def
      is_physical_resource_def)

lemma sample_accepted_step: "coord_step sample_queued sample_accepted"
  unfolding sample_accepted_def
  by (rule coord_step.accounting) (simp add: sample_queued_def sample_registered sample_defs)

lemma sample_appended:
  "account_event (sample_queued\<lparr>co_queue := []\<rparr>) sample_start =
     (\<lparr>ar_status = Accepted, ar_reason = ''accepted''\<rparr>,
      sample_queued\<lparr>co_queue := [], co_ledger := snd (ledger_append None (co_ledger sample_queued) sample_start),
        co_authority := adopt_request (co_authority sample_queued) sample_start,
        co_in_flight := [(Id128 0 3, ())]\<rparr>)"
proof -
  have "validate_authority sample_start (adopt_request (co_authority sample_queued) sample_start) = Accept"
    by (simp add: validate_authority_def adopt_request_def sample_queued_def sample_registered
        sample_defs sample_start_def entry_default_def envelope_default_def)
  moreover have "e_event_kind sample_start = RequestStart" "e_request sample_start = Id128 0 3"
    by (simp_all add: sample_start_def entry_default_def)
  moreover have "co_ledger sample_queued = attach_authority (ledger_new program_ledger) 0"
      "co_in_flight sample_queued = []"
    by (simp_all add: sample_queued_def sample_registered sample_defs)
  ultimately show ?thesis
    by (simp add: account_event_def ledger_append_def sample_start_valid authority_of_def
        attach_authority_def ledger_new_def Let_def)
qed

lemma sample_accepted:
  "snapshot (co_ledger sample_queued) = []" "snapshot (co_ledger sample_accepted) = [sample_start]"
  "co_in_flight sample_accepted = [(Id128 0 3, ())]"
  "st_epoch (co_authority sample_accepted) = Generation 1"
proof -
  have q: "co_pc sample_queued = Idle" "co_queue sample_queued = [WEvent (Some 0) sample_start]"
      "co_ledger sample_queued = attach_authority (ledger_new program_ledger) 0"
      "st_epoch (co_authority sample_queued) = Generation 1"
    by (simp_all add: sample_queued_def sample_registered sample_defs)
  show "snapshot (co_ledger sample_queued) = []"
    by (simp add: q attach_authority_def ledger_new_def snapshot_def)
  show "snapshot (co_ledger sample_accepted) = [sample_start]" "co_in_flight sample_accepted = [(Id128 0 3, ())]"
    "st_epoch (co_authority sample_accepted) = Generation 1"
    by (simp_all add: q sample_accepted_def accounting_step_def take_item_def sample_appended
        ledger_append_def sample_start_valid attach_authority_def ledger_new_def snapshot_def)
qed

section \<open>Properties\<close>

lemma account_event_stale:
  assumes "l_authority (co_ledger c) = Some p" "\<not> current_authority e (authority_for c e)"
  shows "ar_status (fst (account_event c e)) \<in> {Invalid, Stale} \<and>
    co_ledger (snd (account_event c e)) = co_ledger c"
  using assms(2) append_stale [of e "Some (authority_for c e)" "co_ledger c"]
    append_invalid [of e "Some (authority_for c e)" "co_ledger c"]
  by (cases "content_is_valid e") (auto simp: account_event_parts [OF assms(1)] passes_fence_def)

text \<open>C2: In every reachable state of the coordinator, under any interleaving of readers, the
  accounting thread and callers: the ledger's index is consistent and its content valid, the
  authority stays attached, the epoch and the accounting generation move together, every stored
  entry carries such a matching pair, and every open request has its start in the ledger.\<close>

theorem reachable_invariant:
  assumes "reachable i c"
  shows "fenced c \<and> open_started c"
  using fence.reachable [OF assms] started.reachable [OF assms] by blast

theorem reachable_invariant_witness: "fenced sample_accepted \<and> open_started sample_accepted"
  by (rule reachable_invariant [OF reachable.step [OF sample_queued_reachable sample_accepted_step]])

text \<open>C18: The ledger changes only by accepting: a step of a reachable coordinator leaves the stored
  entries as they are or adds one entry at the end, whose content is valid and whose authority
  agrees with the coordinator's at that moment.\<close>

theorem step_appends_current:
  assumes "reachable i c" "coord_step c c'"
  shows "snapshot (co_ledger c') = snapshot (co_ledger c) \<or>
    (\<exists>e. snapshot (co_ledger c') = snapshot (co_ledger c) @ [e] \<and> content_is_valid e \<and>
       current_authority e (co_authority c'))"
proof -
  have "l_authority (co_ledger c) = Some 0"
    using fence.reachable [OF assms(1)] by (simp add: fenced_def)
  note parts = account_event_parts [OF this]
  have "snapshot (co_ledger (snd (account_event c e))) = snapshot (co_ledger c) \<or>
      snapshot (co_ledger (snd (account_event c e))) = snapshot (co_ledger c) @ [e] \<and>
      content_is_valid e \<and> current_authority e (co_authority (snd (account_event c e)))" for e
    using accepted_current [of "authority_for c e" "co_ledger c" e]
    by (auto simp: parts snapshot_def append_entries_cases(1))
  then show ?thesis
    using coord_step_core [OF assms(2)] by (auto simp: core_def section_defs) metis
qed

theorem step_appends_current_witness: "current_authority sample_start (co_authority sample_accepted)"
  using step_appends_current [OF sample_queued_reachable sample_accepted_step]
  by (simp add: sample_accepted)





text \<open>A worker loss advances epoch and accounting generation once and tells every other registered
  worker: its connection, and no other, is handed a roll message with the new pair.\<close>

theorem worker_loss_broadcast:
  "st_epoch (co_authority (handle_worker_lost c w)) = gen_next (st_epoch (co_authority c)) \<and>
   st_accounting_generation (co_authority (handle_worker_lost c w)) =
     gen_next (st_accounting_generation (co_authority c)) \<and>
   map cn_sent (co_conns (handle_worker_lost c w)) =
     map (\<lambda>k. if cn_registered k \<and> cn_worker k \<noteq> w
              then cn_sent k @ [Roll (gen_next (st_epoch (co_authority c)))
                                     (gen_next (st_accounting_generation (co_authority c)))]
              else cn_sent k) (co_conns c)"
  by (simp add: handle_worker_lost_def broadcast_roll_def section_defs conn_send_def Let_def comp_def)



text \<open>A start is adopted before it is checked: a start event from a worker that never registered
  is rejected as stale, yet it replaces the request's current attempt and generations and clears the
  mark that a worker loss had left on the request.\<close>

theorem rejected_start_takes_over:
  assumes "reachable i c" "e_event_kind e = RequestStart"
    and "map_find (st_worker_boot (co_authority c)) (e_worker e) = None"
  shows "ar_status (fst (account_event c e)) \<in> {Invalid, Stale} \<and>
    map_find (st_current_attempt (co_authority (snd (account_event c e)))) (e_request e) =
      Some (a_attempt (e_authority e)) \<and>
    map_find (st_request_rolled (co_authority (snd (account_event c e)))) (e_request e) = Some False"
proof -
  have l: "l_authority (co_ledger c) = Some 0"
    using fence.reachable [OF assms(1)] by (simp add: fenced_def)
  have "\<not> current_authority e (authority_for c e)"
    using assms(3) by (simp add: current_authority_def)
  from account_event_stale [OF l this] show ?thesis
    using assms(2) account_event_parts(3) [OF l, of e]
    by (simp add: authority_for_def adopt_request_def map_find_put)
qed

theorem rejected_start_takes_over_witness:
  "map_find (st_request_rolled (co_authority (snd (account_event (coordinator_new program_ledger) entry_default))))
     id_default = Some False"
  using rejected_start_takes_over [OF reachable.init, of entry_default program_ledger]
  by (simp add: coordinator_new_def authority_default_def entry_default_def)

text \<open>An event submitted through the public method crashes the accounting thread: it has no
  connection, and the loop dereferences that null pointer when it takes the item.\<close>

theorem submitted_event_crashes:
  assumes "co_pc c = Idle" "co_queue c = []"
  shows "\<exists>c'. accounting_step (enqueue_event c e) = Some c' \<and> co_pc c' = NullConnection"
  using assms by (simp add: enqueue_event_def enqueue_def accounting_step_def take_item_def)

theorem submitted_event_crashes_witness:
  "\<exists>c'. accounting_step (enqueue_event (coord_start True 80 (coordinator_new program_ledger)) entry_default) = Some c' \<and>
     co_pc c' = NullConnection"
  by (rule submitted_event_crashes) (simp_all add: coord_start_def coordinator_new_def)

end
