(* ===== verification/Isolation.thy ===== *)
theory Isolation
  imports Coordinator
begin

text \<open>
  Workers do not disturb each other. One worker sees of the coordinator the epoch and the accounting
  generation, its own boot, what is known of its requests, and its own entries in the ledger
  (\<open>same_view\<close>). Registrations and events of others leave this view as it is, and equal views give
  equal answers; so in every interleaving each worker gets the answers it would get alone. Losses of
  workers are left out: they advance the epoch for everyone.
\<close>

section \<open>Interleaved steps under a view\<close>

primrec run_steps :: "('s \<Rightarrow> 'a \<Rightarrow> 'o \<times> 's) \<Rightarrow> 's \<Rightarrow> 'a list \<Rightarrow> ('a \<times> 'o) list" where
  "run_steps step s [] = []"
| "run_steps step s (a # as) = (a, fst (step s a)) # run_steps step (snd (step s a)) as"

primrec end_state :: "('s \<Rightarrow> 'a \<Rightarrow> 'o \<times> 's) \<Rightarrow> 's \<Rightarrow> 'a list \<Rightarrow> 's" where
  "end_state step s [] = s"
| "end_state step s (a # as) = end_state step (snd (step s a)) as"

locale view_partition =
  fixes step :: "'s \<Rightarrow> 'a \<Rightarrow> 'o \<times> 's"
    and ok :: "'s \<Rightarrow> bool"
    and view :: "'s \<Rightarrow> 's \<Rightarrow> bool"
    and own :: "'a \<Rightarrow> bool"
    and foreign :: "'a \<Rightarrow> bool"
  assumes ok_step: "ok s \<Longrightarrow> ok (snd (step s a))"
    and view_trans: "view s t \<Longrightarrow> view t u \<Longrightarrow> view s u"
    and disjoint: "own a \<Longrightarrow> \<not> foreign a"
    and respects: "ok s \<Longrightarrow> foreign a \<Longrightarrow> view s (snd (step s a))"
    and consistent: "ok s \<Longrightarrow> ok t \<Longrightarrow> view s t \<Longrightarrow> own a \<Longrightarrow>
      fst (step s a) = fst (step t a) \<and> view (snd (step s a)) (snd (step t a))"
begin

lemma interleaved:
  "zs \<in> shuffles xs ys \<Longrightarrow> list_all own xs \<Longrightarrow> list_all foreign ys \<Longrightarrow> ok s \<Longrightarrow> ok t \<Longrightarrow> view s t \<Longrightarrow>
     filter (own \<circ> fst) (run_steps step t zs) = run_steps step s xs \<and>
     view (end_state step s xs) (end_state step t zs)"
proof (induction zs arbitrary: xs ys s t)
  case Nil
  then show ?case by simp
next
  case (Cons z zs)
  consider (own) xs' where "xs = z # xs'" "zs \<in> shuffles xs' ys"
    | (foreign) ys' where "ys = z # ys'" "zs \<in> shuffles xs ys'"
    using Cons.prems(1) by (auto simp: Cons_in_shuffles_iff neq_Nil_conv)
  then show ?case
  proof cases
    case own
    with Cons.prems have "own z" by simp
    from consistent [OF Cons.prems(4,5,6) this] own Cons.prems
      Cons.IH [of xs' ys "snd (step s z)" "snd (step t z)"] \<open>own z\<close>
    show ?thesis by (simp add: ok_step)
  next
    case foreign
    with Cons.prems have "foreign z" by simp
    then have "\<not> own z" using disjoint by blast
    have "view s (snd (step t z))"
      using view_trans [OF Cons.prems(6) respects [OF Cons.prems(5) \<open>foreign z\<close>]] .
    from Cons.IH [of xs ys' s "snd (step t z)"] this foreign Cons.prems \<open>\<not> own z\<close>
    show ?thesis by (simp add: ok_step)
  qed
qed

end

section \<open>Requests to the coordinator\<close>

text \<open>What a worker asks for, with the sections of the handlers that run under the state lock.\<close>

datatype operation = Registration worker_id worker_boot_id | Event ledger_entry

datatype answer = Registered_at coordinator_epoch accounting_generation | Answer append_result

primrec operate :: "coordinator \<Rightarrow> operation \<Rightarrow> answer \<times> coordinator" where
  "operate c (Registration w b) =
     (Registered_at (st_epoch (co_authority c)) (st_accounting_generation (co_authority c)), register_boot c w b)"
| "operate c (Event e) = (case account_event c e of (ar, c') \<Rightarrow> (Answer ar, c'))"

primrec owned :: "worker_id \<Rightarrow> request_id set \<Rightarrow> ledger_entry_id set \<Rightarrow> operation \<Rightarrow> bool" where
  "owned w rs ids (Registration w' b) = (w' = w)"
| "owned w rs ids (Event e) = (e_worker e = w \<and> e_request e \<in> rs \<and> e_id e \<in> ids)"

primrec unrelated :: "worker_id \<Rightarrow> request_id set \<Rightarrow> ledger_entry_id set \<Rightarrow> operation \<Rightarrow> bool" where
  "unrelated w rs ids (Registration w' b) = (w' \<noteq> w)"
| "unrelated w rs ids (Event e) = (e_request e \<notin> rs \<and> e_id e \<notin> ids)"

definition request_view :: "authority_state \<Rightarrow> request_id \<Rightarrow>
    request_generation option \<times> attempt_id option \<times> attempt_generation option \<times> bool option" where
  "request_view s r =
     (map_find (st_request_generation s) r, map_find (st_current_attempt s) r,
      map_find (st_attempt_generation s) r, map_find (st_request_rolled s) r)"

definition authority_view ::
    "worker_id \<Rightarrow> authority_state \<Rightarrow> coordinator_epoch \<times> accounting_generation \<times> bool \<times> worker_boot_id option" where
  "authority_view w s =
     (st_epoch s, st_accounting_generation s, st_enforce_request_scope s, map_find (st_worker_boot s) w)"

definition entries_of :: "ledger_entry_id set \<Rightarrow> ledger \<Rightarrow> ledger_entry list" where
  "entries_of ids l = filter (\<lambda>e. e_id e \<in> ids) (snapshot l)"

definition same_view :: "worker_id \<Rightarrow> request_id set \<Rightarrow> ledger_entry_id set \<Rightarrow> coordinator \<Rightarrow> coordinator \<Rightarrow> bool" where
  "same_view w rs ids c d =
     (authority_view w (co_authority c) = authority_view w (co_authority d) \<and>
      (\<forall>r \<in> rs. request_view (co_authority c) r = request_view (co_authority d) r \<and>
         map_find (co_in_flight c) r = map_find (co_in_flight d) r) \<and>
      entries_of ids (co_ledger c) = entries_of ids (co_ledger d))"

section \<open>The view decides\<close>

lemma validate_authority_view:
  assumes "authority_view (e_worker e) s = authority_view (e_worker e) t"
    and "request_view s (e_request e) = request_view t (e_request e)"
  shows "validate_authority e s = validate_authority e t"
  using assms
  by (auto simp: authority_view_def request_view_def validate_authority_def cong: if_cong option.case_cong)

lemma find_filter_same: "(\<And>x. P x \<Longrightarrow> Q x) \<Longrightarrow> find P (filter Q xs) = find P xs"
  by (induction xs) auto

lemma find_entries_of: "i \<in> ids \<Longrightarrow> find (\<lambda>e. e_id e = i) (entries_of ids l) = find (\<lambda>e. e_id e = i) (snapshot l)"
  unfolding entries_of_def by (rule find_filter_same) simp

text \<open>The answer of an append, by what the ledger holds under the identity.\<close>

definition append_answer :: "authority_verdict \<Rightarrow> ledger_entry option \<Rightarrow> ledger_entry \<Rightarrow> append_result" where
  "append_answer v old e =
     (if \<not> content_is_valid e then \<lparr>ar_status = Invalid, ar_reason = ''invalid content''\<rparr>
      else if v \<noteq> Accept then \<lparr>ar_status = Stale, ar_reason = authority_verdict_name v\<rparr>
      else case old of
        None \<Rightarrow> \<lparr>ar_status = Accepted, ar_reason = ''accepted''\<rparr>
      | Some x \<Rightarrow>
          if entry_eq x e then \<lparr>ar_status = Duplicate, ar_reason = ''idempotent duplicate ignored''\<rparr>
          else \<lparr>ar_status = DuplicateConflict, ar_reason = ''same id with differing content rejected''\<rparr>)"

lemma ledger_append_answer:
  "fst (ledger_append (Some s) l e) = append_answer (validate_authority e s) (ledger_find l (e_id e)) e"
  by (auto simp: ledger_append_def append_answer_def ledger_find_def
      split: authority_verdict.splits option.splits)

lemma account_event_answer:
  assumes "fenced c" "e_id e \<in> ids"
  shows "fst (account_event c e) =
    append_answer (validate_authority e (authority_for c e))
      (find (\<lambda>x. e_id x = e_id e) (entries_of ids (co_ledger c))) e"
  using assms account_event_parts(1) [of c 0 e]
  by (simp add: fenced_def ledger_append_answer ledger_find_scan find_entries_of)

lemma entries_of_event:
  assumes "fenced c"
  shows "entries_of ids (co_ledger (snd (account_event c e))) =
    (if ar_status (fst (account_event c e)) = Accepted \<and> e_id e \<in> ids
     then entries_of ids (co_ledger c) @ [e] else entries_of ids (co_ledger c))"
  using assms account_event_parts(1,2) [of c 0 e]
  by (simp add: fenced_def entries_of_def snapshot_def append_entries_cases(1))

lemma request_view_authority_for:
  "request_view (authority_for c e) r =
     (if e_event_kind e = RequestStart \<and> r = e_request e
      then (Some (a_request_generation (e_authority e)), Some (a_attempt (e_authority e)),
            Some (a_attempt_generation (e_authority e)), Some False)
      else request_view (co_authority c) r)"
  by (simp add: request_view_def authority_for_def adopt_request_def map_find_put)

lemma authority_view_for [simp]: "authority_view w (authority_for c e) = authority_view w (co_authority c)"
  by (simp add: authority_view_def)

lemma authority_event: "fenced c \<Longrightarrow> co_authority (snd (account_event c e)) = authority_for c e"
  using account_event_parts(3) [of c 0 e] by (simp add: fenced_def)

definition sound :: "coordinator \<Rightarrow> bool" where
  "sound c = (fenced c \<and> open_started c)"

lemma sound_reachable: "reachable i c \<Longrightarrow> sound c"
  by (simp add: sound_def fence.reachable started.reachable)

lemma in_flight_event:
  assumes "sound c"
  shows "map_find (co_in_flight (snd (account_event c e))) r =
    (if ar_status (fst (account_event c e)) = Accepted \<and> r = e_request e
     then (if e_event_kind e = RequestStart then Some ()
           else if e_event_kind e = RequestEnd then None else map_find (co_in_flight c) r)
     else map_find (co_in_flight c) r)"
proof -
  have "l_authority (co_ledger c) = Some 0" "map_wf (co_in_flight c)"
    using assms by (simp_all add: sound_def open_started_def)
  then show ?thesis
    using account_event_parts(4) [of c 0 e]
    by (cases "map_find (co_in_flight c) r") (auto simp: map_find_emplace map_find_erase)
qed

lemma event_respects:
  "sound c \<Longrightarrow> e_request e \<notin> rs \<Longrightarrow> e_id e \<notin> ids \<Longrightarrow> same_view w rs ids c (snd (account_event c e))"
  by (auto simp: same_view_def authority_event request_view_authority_for entries_of_event in_flight_event)
    (auto simp: sound_def authority_event request_view_authority_for entries_of_event)

lemma event_consistent:
  assumes f: "sound c" "sound d" and v: "same_view (e_worker e) rs ids c d"
    and e: "e_request e \<in> rs" "e_id e \<in> ids"
  shows "fst (account_event c e) = fst (account_event d e) \<and>
    same_view (e_worker e) rs ids (snd (account_event c e)) (snd (account_event d e))"
proof -
  have fs: "fenced c" "fenced d" using f by (simp_all add: sound_def)
  have r: "request_view (authority_for c e) r = request_view (authority_for d e) r" if "r \<in> rs" for r
    using v that by (simp add: same_view_def request_view_authority_for)
  have a: "authority_view (e_worker e) (authority_for c e) = authority_view (e_worker e) (authority_for d e)"
    using v by (simp add: same_view_def)
  have eq: "fst (account_event c e) = fst (account_event d e)"
    using v validate_authority_view [OF a r [OF e(1)]]
    by (simp add: account_event_answer [OF fs(1) e(2)] account_event_answer [OF fs(2) e(2)] same_view_def)
  then show ?thesis
    using v f fs r a e(1) by (simp add: same_view_def authority_event entries_of_event in_flight_event)
qed

lemma registration_view:
  "same_view w rs ids c d \<Longrightarrow> same_view w rs ids (register_boot c w b) (register_boot d w b)"
  "w' \<noteq> w \<Longrightarrow> same_view w rs ids c (register_boot c w' b)"
  by (auto simp: same_view_def authority_view_def request_view_def register_boot_def map_find_put)

lemma sound_operate: "sound c \<Longrightarrow> sound (snd (operate c a))"
  by (cases a) (auto simp: sound_def case_prod_beta intro: fence.boot started.boot fence.event started.event)

interpretation worker_view: view_partition operate sound "same_view w rs ids" "owned w rs ids" "unrelated w rs ids"
  for w rs ids
proof unfold_locales
  fix c d :: coordinator and u and a :: operation
  show "sound c \<Longrightarrow> sound (snd (operate c a))" by (rule sound_operate)
  show "same_view w rs ids c d \<Longrightarrow> same_view w rs ids d u \<Longrightarrow> same_view w rs ids c u"
    by (simp add: same_view_def)
  show "owned w rs ids a \<Longrightarrow> \<not> unrelated w rs ids a" by (cases a) auto
  show "sound c \<Longrightarrow> unrelated w rs ids a \<Longrightarrow> same_view w rs ids c (snd (operate c a))"
    by (cases a) (simp_all add: case_prod_beta event_respects registration_view(2))
  show "fst (operate c a) = fst (operate d a) \<and> same_view w rs ids (snd (operate c a)) (snd (operate d a))"
    if "sound c" "sound d" "same_view w rs ids c d" "owned w rs ids a"
  proof (cases a)
    case (Registration w' b)
    with that show ?thesis
      by (simp add: registration_view(1)) (simp add: same_view_def authority_view_def)
  next
    case (Event e)
    with that event_consistent [OF that(1,2), of e rs ids] show ?thesis by (simp add: case_prod_beta)
  qed
qed

text \<open>A worker loss changes everyone's view, but in the same way.\<close>

definition lose :: "coordinator \<Rightarrow> coordinator" where
  "lose c = advance_epoch (roll_in_flight c)"

lemma sound_lose: "sound c \<Longrightarrow> sound (lose c)"
  by (simp add: sound_def lose_def fence.roll fence.advance started.roll started.advance)

lemma loss_consistent: "sound c \<Longrightarrow> sound d \<Longrightarrow> same_view w rs ids c d \<Longrightarrow> same_view w rs ids (lose c) (lose d)"
proof -
  assume v: "same_view w rs ids c d" and "sound c" "sound d"
  then have wf: "map_wf (co_in_flight c)" "map_wf (co_in_flight d)"
    by (simp_all add: sound_def open_started_def)
  have "r \<in> fst ` set m \<longleftrightarrow> map_find m r \<noteq> None" if "map_wf m" for r and m :: "(request_id, unit) omap"
    using set_map_of_find [OF that, of r "()"] by force
  with v wf show ?thesis
    by (auto simp: same_view_def authority_view_def request_view_def lose_def advance_epoch_def
        roll_in_flight_def map_find_roll)
qed

text \<open>The ledger holds nothing that was not offered.\<close>

primrec events_in :: "operation list \<Rightarrow> ledger_entry list" where
  "events_in [] = []"
| "events_in (a # as) = (case a of Registration w b \<Rightarrow> events_in as | Event e \<Rightarrow> e # events_in as)"

lemma end_state_append: "end_state step s (xs @ ys) = end_state step (end_state step s xs) ys"
  by (induction xs arbitrary: s) simp_all

lemma sound_end_state: "sound c \<Longrightarrow> sound (end_state operate c as)"
  by (induction as arbitrary: c) (simp_all add: sound_operate)

lemma entries_offered:
  "sound c \<Longrightarrow> set (snapshot (co_ledger (end_state operate c as))) \<subseteq> set (snapshot (co_ledger c)) \<union> set (events_in as)"
proof (induction as arbitrary: c)
  case (Cons a as)
  have "set (snapshot (co_ledger (snd (operate c a)))) \<subseteq> set (snapshot (co_ledger c)) \<union> set (events_in [a])"
    using Cons.prems account_event_parts(2) [of c 0]
    by (cases a) (auto simp: case_prod_beta register_boot_def snapshot_def append_entries_cases(1)
        sound_def fenced_def split: if_splits)
  moreover have "set (events_in (a # as)) = set (events_in [a]) \<union> set (events_in as)" by (cases a) auto
  ultimately show ?case using Cons.IH [OF sound_operate [OF Cons.prems, of a]] by fastforce
qed simp

section \<open>Properties\<close>



end
