(* ===== verification/Session.thy ===== *)
theory Session
  imports Isolation
begin

text \<open>
  What a worker that follows the protocol can rely on: after it registered and started a request, the
  events it sends under that authority are all accepted and stored in order; events under another
  authority are refused and change nothing.
\<close>

section \<open>Authority of a session\<close>

text \<open>The event carries the authority \<open>a\<close> (the dispatch is not looked at) of worker \<open>w\<close> and request \<open>r\<close>.\<close>

definition stamped :: "worker_id \<Rightarrow> request_id \<Rightarrow> authority_envelope \<Rightarrow> ledger_entry \<Rightarrow> bool" where
  "stamped w r a e =
     (e_worker e = w \<and> e_request e = r \<and>
      a_epoch (e_authority e) = a_epoch a \<and> a_worker_boot (e_authority e) = a_worker_boot a \<and>
      a_accounting_generation (e_authority e) = a_accounting_generation a \<and>
      a_request_generation (e_authority e) = a_request_generation a \<and>
      a_attempt (e_authority e) = a_attempt a \<and>
      a_attempt_generation (e_authority e) = a_attempt_generation a)"

text \<open>The worker is registered under the coordinator's epoch and generation; and it owns the request.\<close>

definition registered_as :: "coordinator \<Rightarrow> worker_id \<Rightarrow> authority_envelope \<Rightarrow> bool" where
  "registered_as c w a =
     (authority_view w (co_authority c) = (a_epoch a, a_accounting_generation a, True, Some (a_worker_boot a)))"

definition holds_request :: "coordinator \<Rightarrow> request_id \<Rightarrow> authority_envelope \<Rightarrow> bool" where
  "holds_request c r a =
     (request_view (co_authority c) r =
        (Some (a_request_generation a), Some (a_attempt a), Some (a_attempt_generation a), Some False))"

lemma stamped_current:
  assumes "stamped w r a e" "registered_as c w a" "holds_request c r a \<or> e_event_kind e = RequestStart"
  shows "validate_authority e (authority_for c e) = Accept"
proof -
  have "authority_view w (authority_for c e) = authority_view w (co_authority c)" by simp
  moreover have "request_view (authority_for c e) r =
      (Some (a_request_generation a), Some (a_attempt a), Some (a_attempt_generation a), Some False)"
    using assms(1,3) by (auto simp: request_view_authority_for holds_request_def stamped_def)
  ultimately show ?thesis
    using assms(1,2)
    by (simp add: validate_authority_Accept current_authority_def agrees_def stamped_def
        registered_as_def authority_view_def request_view_def)
qed

definition accepted :: answer where
  "accepted = Answer \<lparr>ar_status = Accepted, ar_reason = ''accepted''\<rparr>"

lemma stamped_accepted:
  assumes "sound c" "stamped w r a e" "registered_as c w a" "holds_request c r a \<or> e_event_kind e = RequestStart"
    and "content_is_valid e" "e_id e \<notin> e_id ` set (snapshot (co_ledger c))"
  shows "fst (account_event c e) = \<lparr>ar_status = Accepted, ar_reason = ''accepted''\<rparr>"
    "snapshot (co_ledger (snd (account_event c e))) = snapshot (co_ledger c) @ [e]"
    "registered_as (snd (account_event c e)) w a" "holds_request (snd (account_event c e)) r a"
proof -
  have f: "fenced c" using assms(1) by (simp add: sound_def)
  have "find (\<lambda>x. e_id x = e_id e) (snapshot (co_ledger c)) = None"
    using assms(6) unfolding find_None_iff by (metis image_eqI)
  then show ar: "fst (account_event c e) = \<lparr>ar_status = Accepted, ar_reason = ''accepted''\<rparr>"
    using account_event_answer [OF f, of e UNIV] stamped_current [OF assms(2-4)] assms(5)
    by (simp add: append_answer_def find_entries_of)
  show "snapshot (co_ledger (snd (account_event c e))) = snapshot (co_ledger c) @ [e]"
    using entries_of_event [OF f, of UNIV e] ar by (simp add: entries_of_def)
  show "registered_as (snd (account_event c e)) w a"
    using assms(3) f by (simp add: registered_as_def authority_event)
  show "holds_request (snd (account_event c e)) r a"
    using assms(2,4) f by (auto simp: holds_request_def authority_event request_view_authority_for stamped_def)
qed

text \<open>Whether the request is open after a sequence of accepted events.\<close>

definition open_step :: "unit option \<Rightarrow> ledger_entry \<Rightarrow> unit option" where
  "open_step s e =
     (if e_event_kind e = RequestStart then Some () else if e_event_kind e = RequestEnd then None else s)"

lemma session_accepted:
  "sound c \<Longrightarrow> registered_as c w a \<Longrightarrow> list_all (\<lambda>e. stamped w r a e \<and> content_is_valid e) es \<Longrightarrow>
   (es \<noteq> [] \<longrightarrow> holds_request c r a \<or> e_event_kind (hd es) = RequestStart) \<Longrightarrow>
   distinct (map e_id (snapshot (co_ledger c) @ es)) \<Longrightarrow>
   map snd (run_steps operate c (map Event es)) = replicate (length es) accepted \<and>
   snapshot (co_ledger (end_state operate c (map Event es))) = snapshot (co_ledger c) @ es \<and>
   registered_as (end_state operate c (map Event es)) w a \<and>
   (es \<noteq> [] \<or> holds_request c r a \<longrightarrow> holds_request (end_state operate c (map Event es)) r a) \<and>
   map_find (co_in_flight (end_state operate c (map Event es))) r =
     foldl open_step (map_find (co_in_flight c) r) es"
proof (induction es arbitrary: c)
  case (Cons e es)
  let ?c = "snd (account_event c e)"
  have e: "stamped w r a e" "content_is_valid e" "holds_request c r a \<or> e_event_kind e = RequestStart"
      "e_id e \<notin> e_id ` set (snapshot (co_ledger c))"
    using Cons.prems(3-5) by (auto simp: image_iff)
  note acc = stamped_accepted [OF Cons.prems(1) e(1) Cons.prems(2) e(3,2,4)]
  have "sound ?c" using sound_operate [OF Cons.prems(1), of "Event e"] by (simp add: case_prod_beta)
  moreover have "map_find (co_in_flight ?c) r = open_step (map_find (co_in_flight c) r) e"
    using in_flight_event [OF Cons.prems(1), of e r] acc(1) e(1) by (simp add: stamped_def open_step_def)
  moreover have "distinct (map e_id (snapshot (co_ledger ?c) @ es))" using Cons.prems(5) acc(2) by simp
  ultimately show ?case
    using Cons.IH [of ?c] Cons.prems(3) acc
    by (simp add: case_prod_beta accepted_def)
qed simp

text \<open>An event that the fence refuses, other than a start, changes nothing.\<close>

lemma refused_unchanged:
  assumes "sound c" "content_is_valid e" "validate_authority e (co_authority c) = v" "v \<noteq> Accept"
    and "e_event_kind e \<noteq> RequestStart"
  shows "operate c (Event e) = (Answer \<lparr>ar_status = Stale, ar_reason = authority_verdict_name v\<rparr>, c)"
proof -
  have f: "fenced c" using assms(1) by (simp add: sound_def)
  have a: "authority_for c e = co_authority c" using assms(5) by (simp add: authority_for_def)
  have ar: "fst (account_event c e) = \<lparr>ar_status = Stale, ar_reason = authority_verdict_name v\<rparr>"
    using account_event_answer [OF f, of e UNIV] assms a by (simp add: append_answer_def)
  moreover have "snd (account_event c e) = c"
    using ar assms(5) append_entries_cases(2) [of "Some (co_authority c)" "co_ledger c" e] f
      account_event_parts(1) [of c 0 e] a
    by (simp add: account_event_def authority_of_def fenced_def Let_def case_prod_beta)
  ultimately show ?thesis by (simp add: case_prod_beta)
qed

section \<open>Properties\<close>

text \<open>A well-behaved worker is served: from any reachable state in which it is registered under the
  current epoch and generation, a script that begins with the start of its request, carries one
  authority throughout, valid contents and fresh identities is accepted event by event, and the
  ledger grows by exactly the script, in order.\<close>

theorem session_all_accepted:
  assumes "reachable i c" "registered_as c w a" "e_event_kind e = RequestStart"
    and "list_all (\<lambda>x. stamped w r a x \<and> content_is_valid x) (e # es)"
    and "distinct (map e_id (snapshot (co_ledger c) @ e # es))"
  shows "map snd (run_steps operate c (map Event (e # es))) = replicate (Suc (length es)) accepted \<and>
    snapshot (co_ledger (end_state operate c (map Event (e # es)))) = snapshot (co_ledger c) @ e # es"
  using session_accepted [OF sound_reachable [OF assms(1)] assms(2,4)] assms(3,5) by simp

theorem session_all_accepted_witness:
  "map snd (run_steps operate sample_registered [Event sample_start]) = [accepted] \<and>
   snapshot (co_ledger (end_state operate sample_registered [Event sample_start])) = [sample_start]"
proof -
  have "registered_as sample_registered (Id128 0 7) (e_authority sample_start)"
    by (simp add: registered_as_def authority_view_def sample_registered sample_start_def
        envelope_default_def authority_default_def map_find_def)
  moreover have "list_all (\<lambda>x. stamped (Id128 0 7) (Id128 0 3) (e_authority sample_start) x \<and> content_is_valid x)
      (sample_start # [])"
    using sample_start_valid by (simp add: stamped_def) (simp add: sample_start_def)
  moreover have "snapshot (co_ledger sample_registered) = []"
    by (simp add: sample_registered coordinator_new_def attach_authority_def ledger_new_def snapshot_def)
  moreover have "e_event_kind sample_start = RequestStart" by (simp add: sample_start_def entry_default_def)
  ultimately show ?thesis
    using session_all_accepted [OF sample_registered_reachable, of "Id128 0 7" "e_authority sample_start"
        sample_start "Id128 0 3" "[]"] by simp
qed

end
