(* ===== verification/Console.thy ===== *)
theory Console
  imports Double
begin

text \<open>
  What the command-line programs use of the standard library: how a program ends, and numbers as
  text. \<open>stoi\<close> and \<open>stod\<close> are \<^verbatim>\<open>std::stoi\<close> and \<^verbatim>\<open>std::stod\<close>, with \<^term>\<open>None\<close> for
  the exception they throw; \<open>show_double\<close> is a double written to a stream of the default format
  (precision 6), correctly rounded from the exact value.
\<close>

section \<open>Exits\<close>

text \<open>
  A program returns a status, after writing a line to the standard error unless that is empty; or
  an exception leaves \<^verbatim>\<open>main\<close>; or it accesses memory it does not own (\<open>BadRead\<close>) or
  dereferences an empty optional (\<open>BadDeref\<close>), which is undefined behaviour; or it waits forever.
\<close>

datatype prog_exit =
    Exit nat string
  | Uncaught
  | BadRead
  | BadDeref
  | Holding

text \<open>A truth value written to a stream.\<close>

definition show_bool :: "bool \<Rightarrow> string" where
  "show_bool b = (if b then ''1'' else ''0'')"

section \<open>Numbers in arguments\<close>

definition c_isspace :: "char \<Rightarrow> bool" where
  "c_isspace c = (let v = of_char c :: nat in v = 32 \<or> 9 \<le> v \<and> v \<le> 13)"

definition c_isdigit :: "char \<Rightarrow> bool" where
  "c_isdigit c = (let v = of_char c :: nat in 48 \<le> v \<and> v \<le> 57)"

definition digits_value :: "string \<Rightarrow> nat" where
  "digits_value ds = foldl (\<lambda>n c. n * 10 + (of_char c - 48)) 0 ds"

text \<open>\<^verbatim>\<open>std::stoi\<close>; \<^term>\<open>None\<close> is an exception (no digits, or out of the range of int).\<close>

definition stoi :: "string \<Rightarrow> int option" where
  "stoi s =
     (let r = dropWhile c_isspace s;
          neg = (case r of c # _ \<Rightarrow> c = CHR ''-'' | [] \<Rightarrow> False);
          r = (case r of c # cs \<Rightarrow> if c = CHR ''-'' \<or> c = CHR ''+'' then cs else r | [] \<Rightarrow> r);
          ds = takeWhile c_isdigit r;
          v = (if neg then - int (digits_value ds) else int (digits_value ds))
      in if ds = [] \<or> v < - 2147483648 \<or> 2147483647 < v then None else Some v)"

section \<open>Printed numbers are read back\<close>

lemma digit_char: "d < 10 \<Longrightarrow> of_char (char_of (48 + d) :: char) = (48 + d :: nat)"
  by (simp add: of_char_of)

lemma digits_value_snoc: "digits_value (ds @ [c]) = digits_value ds * 10 + (of_char c - 48)"
  by (simp add: digits_value_def)

lemma show_nat_digits: "list_all c_isdigit (show_nat n) \<and> show_nat n \<noteq> [] \<and> digits_value (show_nat n) = n"
proof (induction n rule: show_nat.induct)
  case (1 n)
  show ?case
  proof (cases "n < 10")
    case True
    then show ?thesis
      by (simp add: show_nat.simps [of n] c_isdigit_def Let_def digit_char digits_value_def)
  next
    case False
    with 1 show ?thesis
      by (simp add: show_nat.simps [of n] c_isdigit_def Let_def digit_char digits_value_snoc)
  qed
qed

lemma stoi_show_nat: "n \<le> 2147483647 \<Longrightarrow> stoi (show_nat n) = Some (int n)"
proof -
  assume n: "n \<le> 2147483647"
  obtain c cs where s: "show_nat n = c # cs" using show_nat_digits [of n] by (cases "show_nat n") auto
  have d: "list_all c_isdigit (c # cs)" "digits_value (c # cs) = n" using show_nat_digits [of n] s by auto
  have "\<not> c_isspace c" "c \<noteq> CHR ''-''" "c \<noteq> CHR ''+''"
    using d(1) by (auto simp: c_isdigit_def c_isspace_def Let_def)
  moreover have "takeWhile c_isdigit (c # cs) = c # cs" using d(1) by (simp add: list_all_iff)
  ultimately show ?thesis using n d(2) by (simp add: stoi_def s Let_def)
qed

section \<open>Doubles as text\<close>

text \<open>
  \<open>dec_exponent a b\<close> is the exponent of the leading decimal digit of \<open>a / b\<close>, and
  \<open>dec_digits a b x\<close> the quotient rounded to six digits when that exponent is \<open>x\<close>.
\<close>

definition dec_exponent :: "nat \<Rightarrow> nat \<Rightarrow> int" where
  "dec_exponent a b =
     (if b \<le> a then int (length (show_nat (a div b))) - 1
      else - int (length (show_nat ((b - 1) div a))))"

definition dec_digits :: "nat \<Rightarrow> nat \<Rightarrow> int \<Rightarrow> nat" where
  "dec_digits a b x =
     (if 5 \<le> x then round_half_even a (b * 10 ^ nat (x - 5))
      else round_half_even (a * 10 ^ nat (5 - x)) b)"

definition strip_zeros :: "string \<Rightarrow> string" where
  "strip_zeros ds = rev (dropWhile (\<lambda>c. c = CHR ''0'') (rev ds))"

definition with_point :: "string \<Rightarrow> string \<Rightarrow> string" where
  "with_point ip fp = (if strip_zeros fp = [] then ip else ip @ ''.'' @ strip_zeros fp)"

definition show_exponent :: "int \<Rightarrow> string" where
  "show_exponent x =
     (let ds = show_nat (nat \<bar>x\<bar>)
      in ''e'' @ (if x < 0 then ''-'' else ''+'') @ (if length ds < 2 then ''0'' @ ds else ds))"

definition show_digits :: "int \<Rightarrow> string \<Rightarrow> string" where
  "show_digits x ds =
     (if x < - 4 \<or> 6 \<le> x then with_point (take 1 ds) (drop 1 ds) @ show_exponent x
      else if 0 \<le> x then with_point (take (nat x + 1) ds) (drop (nat x + 1) ds)
      else with_point ''0'' (replicate (nat (- x) - 1) (CHR ''0'') @ ds))"

definition show_positive :: "nat \<Rightarrow> nat \<Rightarrow> string" where
  "show_positive a b =
     (let x = dec_exponent a b; d = dec_digits a b x
      in if d = 10 ^ 6 then show_digits (x + 1) (show_nat (10 ^ 5)) else show_digits x (show_nat d))"

definition show_double :: "double \<Rightarrow> string" where
  "show_double d =
     (if dsign d then ''-'' else []) @
     (if isnan d then ''nan'' else if isinf d then ''inf''
      else if dmag d = 0 then ''0'' else show_positive (mag_val (dmag d)) d_unit)"

section \<open>Text as doubles\<close>

definition c_lower :: "char \<Rightarrow> char" where
  "c_lower c = (let v = of_char c :: nat in if 65 \<le> v \<and> v \<le> 90 then char_of (v + 32) else c)"

definition starts_ci :: "string \<Rightarrow> string \<Rightarrow> bool" where
  "starts_ci w s = (map c_lower (take (length w) s) = w)"

definition hex_value :: "char \<Rightarrow> nat option" where
  "hex_value c =
     (let v = of_char c :: nat
      in if 48 \<le> v \<and> v \<le> 57 then Some (v - 48)
         else if 97 \<le> v \<and> v \<le> 102 then Some (v - 87)
         else if 65 \<le> v \<and> v \<le> 70 then Some (v - 55) else None)"

definition dec_value :: "char \<Rightarrow> nat option" where
  "dec_value c = (if c_isdigit c then Some (of_char c - 48) else None)"

definition is_some :: "'a option \<Rightarrow> bool" where
  "is_some x = (x \<noteq> None)"

definition based_value :: "(char \<Rightarrow> nat option) \<Rightarrow> nat \<Rightarrow> string \<Rightarrow> nat" where
  "based_value val base ds = foldl (\<lambda>n c. n * base + (case val c of None \<Rightarrow> 0 | Some d \<Rightarrow> d)) 0 ds"

text \<open>Digits with at most one point: the value of all digits, how many follow the point, the rest.\<close>

definition mantissa :: "(char \<Rightarrow> nat option) \<Rightarrow> nat \<Rightarrow> string \<Rightarrow> (nat \<times> nat \<times> string) option" where
  "mantissa val base s =
     (let ip = takeWhile (\<lambda>c. is_some (val c)) s;
          r = dropWhile (\<lambda>c. is_some (val c)) s;
          fp = (case r of c # r' \<Rightarrow> if c = CHR ''.'' then takeWhile (\<lambda>c. is_some (val c)) r' else [] | [] \<Rightarrow> []);
          rest = (case r of c # r' \<Rightarrow> if c = CHR ''.'' then dropWhile (\<lambda>c. is_some (val c)) r' else r | [] \<Rightarrow> r)
      in if ip = [] \<and> fp = [] then None else Some (based_value val base (ip @ fp), length fp, rest))"

text \<open>An exponent after its letter; anything else leaves the exponent 0.\<close>

definition exponent_of :: "char \<Rightarrow> string \<Rightarrow> int" where
  "exponent_of letter s =
     (case s of
        [] \<Rightarrow> 0
      | c # r \<Rightarrow>
          if c_lower c \<noteq> letter then 0
          else let neg = (case r of d # _ \<Rightarrow> d = CHR ''-'' | [] \<Rightarrow> False);
                   r = (case r of d # r' \<Rightarrow> if d = CHR ''-'' \<or> d = CHR ''+'' then r' else r | [] \<Rightarrow> r);
                   v = int (digits_value (takeWhile c_isdigit r))
               in if neg then - v else v)"

text \<open>
  The nearest double to \<open>m * base ^ e\<close>; \<^term>\<open>None\<close> when the result overflows, or is so small that
  it loses precision (the range error the C library reports).
\<close>

definition nearest_double :: "bool \<Rightarrow> nat \<Rightarrow> nat \<Rightarrow> int \<Rightarrow> double option" where
  "nearest_double neg m base e =
     (let a = m * base ^ nat e * d_unit;
          b = base ^ nat (- e);
          g = round_mag a b
      in if g = inf_mag \<or> g < 2 ^ 52 \<and> mag_val g * b \<noteq> a then None else Some (mk_double neg g))"

definition stod :: "string \<Rightarrow> double option" where
  "stod s =
     (let r = dropWhile c_isspace s;
          neg = (case r of c # _ \<Rightarrow> c = CHR ''-'' | [] \<Rightarrow> False);
          r = (case r of c # cs \<Rightarrow> if c = CHR ''-'' \<or> c = CHR ''+'' then cs else r | [] \<Rightarrow> r)
      in if starts_ci ''inf'' r then Some (d_inf neg)
         else if starts_ci ''nan'' r then Some (mk_double neg (inf_mag + 2 ^ 51))
         else case (if starts_ci ''0x'' r then mantissa hex_value 16 (drop 2 r) else None) of
           Some (m, f, rest) \<Rightarrow> nearest_double neg m 2 (exponent_of (CHR ''p'') rest - 4 * int f)
         | None \<Rightarrow>
             (case mantissa dec_value 10 r of
                None \<Rightarrow> None
              | Some (m, f, rest) \<Rightarrow> nearest_double neg m 10 (exponent_of (CHR ''e'') rest - int f)))"

section \<open>Lines of text\<close>

text \<open>What repeated \<^verbatim>\<open>std::getline\<close> gives: a final line needs no newline, an empty one is none.\<close>

fun lines_from :: "string \<Rightarrow> string \<Rightarrow> string list" where
  "lines_from acc [] = (if acc = [] then [] else [acc])"
| "lines_from acc (c # cs) = (if c = CHR 0x0A then acc # lines_from [] cs else lines_from (acc @ [c]) cs)"

definition getlines :: "string \<Rightarrow> string list" where
  "getlines s = lines_from [] s"


end
