(* ===== verification/Exact.thy ===== *)
theory Exact
  imports Console
begin

text \<open>
  Doubles that hold natural numbers below \<open>2 ^ 53\<close>, and dyadic fractions, are exact: conversion,
  addition, comparison, rounding back and printing lose nothing.
\<close>

section \<open>Dyadic numbers are representable\<close>

lemma normalized_bounds:
  fixes n :: nat
  assumes "2 ^ k \<le> n" "n < 2 ^ (k + 1)" "k < 53"
  shows "2 ^ 52 \<le> n * 2 ^ (52 - k)" "n * 2 ^ (52 - k) < 2 ^ 53"
proof -
  have "2 ^ 52 = (2 :: nat) ^ k * 2 ^ (52 - k)" using assms(3) by (simp flip: power_add)
  also have "\<dots> \<le> n * 2 ^ (52 - k)" using assms(1) by simp
  finally show "2 ^ 52 \<le> n * 2 ^ (52 - k)" .
  have "n * 2 ^ (52 - k) < 2 ^ (k + 1) * 2 ^ (52 - k)" using assms(2) by simp
  also have "\<dots> = 2 ^ 53" using assms(3) by (simp flip: power_add)
  finally show "n * 2 ^ (52 - k) < 2 ^ 53" .
qed

lemma dyadic_mag:
  assumes "n < 2 ^ 53" "e \<le> 2000"
  shows "\<exists>g < inf_mag. mag_val g = n * 2 ^ e"
proof (cases "n = 0")
  case True
  then show ?thesis by (intro exI [of _ 0]) (simp add: inf_mag_def)
next
  case False
  then obtain k where k: "2 ^ k \<le> n" "n < 2 ^ (k + 1)"
    using ex_power_ivl1 [of 2 n] by auto
  then have "k < 53" using assms(1) by (meson le_less_trans power_less_imp_less_exp one_less_numeral_iff semiring_norm(76))
  show ?thesis
  proof (cases "k + e < 52")
    case True
    have "n * 2 ^ e < 2 ^ (k + 1) * 2 ^ e" using k(2) by simp
    also have "\<dots> = 2 ^ (k + 1 + e)" by (simp add: power_add)
    also have "\<dots> \<le> 2 ^ 52" using True by (intro power_increasing) simp_all
    finally have "n * 2 ^ e < 2 ^ 52" .
    then show ?thesis by (intro exI [of _ "n * 2 ^ e"]) (simp add: mag_val_def inf_mag_def)
  next
    case False
    define s where "s = n * 2 ^ (52 - k)"
    have s: "2 ^ 52 \<le> s" "s < 2 ^ 53" using normalized_bounds [OF k \<open>k < 53\<close>] by (simp_all add: s_def)
    define g where "g = (k + e - 51) * 2 ^ 52 + (s - 2 ^ 52)"
    have "s - 2 ^ 52 < 2 ^ 52" using s by simp
    then have g: "g div 2 ^ 52 = k + e - 51" "g mod 2 ^ 52 = s - 2 ^ 52"
      unfolding g_def by (simp_all add: div_mult_self3 mod_mult_self3)
    have big: "\<not> g < 2 ^ 52" using False s by (simp add: g_def)
    have "mag_val g = (2 ^ 52 + (s - 2 ^ 52)) * 2 ^ (k + e - 51 - 1)"
      by (simp only: mag_val_def g big if_False)
    also have "\<dots> = s * 2 ^ (k + e - 52)" using s by (simp add: diff_diff_eq)
    also have "\<dots> = n * (2 ^ (52 - k) * 2 ^ (k + e - 52))" by (simp add: s_def)
    also have "(2 :: nat) ^ (52 - k) * 2 ^ (k + e - 52) = 2 ^ e"
      using False \<open>k < 53\<close> by (simp flip: power_add)
    finally have "mag_val g = n * 2 ^ e" .
    moreover have "g < (k + e - 51 + 1) * 2 ^ 52"
      unfolding g_def using \<open>s - 2 ^ 52 < 2 ^ 52\<close> by simp
    then have "g < inf_mag"
      using \<open>k < 53\<close> assms(2) by (simp add: inf_mag_def)
    ultimately show ?thesis by blast
  qed
qed

lemma round_dyadic:
  assumes "n < 2 ^ 53" "j \<le> 1074"
  shows "mag_val (round_mag (n * d_unit) (2 ^ j)) * 2 ^ j = n * d_unit \<and> round_mag (n * d_unit) (2 ^ j) < inf_mag"
proof -
  have "1074 - j \<le> 2000" by simp
  from dyadic_mag [OF assms(1) this] obtain g
    where g: "g < inf_mag" "mag_val g = n * 2 ^ (1074 - j)" by blast
  have "n * d_unit = mag_val g * 2 ^ j"
    using assms(2) by (simp add: g(2) d_unit_def flip: power_add)
  then show ?thesis using round_mag_exact [OF g(1), of "2 ^ j"] g(1) by simp
qed

section \<open>Natural numbers\<close>

lemma d_of_nat_exact:
  assumes "n < 2 ^ 53"
  shows "isfinite (d_of_nat n)" "\<not> dsign (d_of_nat n)" "mag_val (dmag (d_of_nat n)) = n * d_unit"
    "dval (d_of_nat n) = int n * int d_unit"
  using round_dyadic [OF assms, of 0] by (simp_all add: d_of_nat_def isfinite_def dval_def)

lemma d_of_nat_0 [simp]: "d_of_nat 0 = d_zero"
  by (simp add: d_of_nat_def d_zero_def)

lemma d_unit_pos [simp]: "0 < d_unit" "d_unit \<noteq> 0"
  by (simp_all add: d_unit_def)

lemma d_of_nat_not [simp]: "n < 2 ^ 53 \<Longrightarrow> \<not> isnan (d_of_nat n)" "n < 2 ^ 53 \<Longrightarrow> \<not> isinf (d_of_nat n)"
  using d_of_nat_exact(1) [of n] isfinite_not by blast+

lemma dmag_d_of_nat_eq_0: "n < 2 ^ 53 \<Longrightarrow> dmag (d_of_nat n) = 0 \<longleftrightarrow> n = 0"
  using d_of_nat_exact(3) [of n] mag_val_eq_0 [of "dmag (d_of_nat n)"] by simp

lemma d_of_nat_le_iff [simp]:
  assumes "m < 2 ^ 53" "n < 2 ^ 53"
  shows "d_le (d_of_nat m) (d_of_nat n) \<longleftrightarrow> m \<le> n" "d_lt (d_of_nat m) (d_of_nat n) \<longleftrightarrow> m < n"
    "d_eq (d_of_nat m) (d_of_nat n) \<longleftrightarrow> m = n"
proof -
  have le: "dord (d_of_nat m) \<le> dord (d_of_nat n) \<longleftrightarrow> m \<le> n" if "m < 2 ^ 53" "n < 2 ^ 53" for m n
    using that d_unit_pos
    by (simp add: dord_le_iff_dval d_of_nat_exact del: of_nat_mult flip: of_nat_mult)
  show "d_le (d_of_nat m) (d_of_nat n) \<longleftrightarrow> m \<le> n" using assms by (simp add: d_le_def le)
  show "d_lt (d_of_nat m) (d_of_nat n) \<longleftrightarrow> m < n"
    using assms le [of n m] by (auto simp: d_lt_def not_le [symmetric])
  show "d_eq (d_of_nat m) (d_of_nat n) \<longleftrightarrow> m = n"
    using assms le [of m n] le [of n m] by (auto simp: d_eq_def)
qed

lemma d_add_of_nat [simp]:
  assumes "m + n < 2 ^ 53"
  shows "d_add (d_of_nat m) (d_of_nat n) = d_of_nat (m + n)"
proof -
  have small: "m < 2 ^ 53" "n < 2 ^ 53" using assms by simp_all
  note m = d_of_nat_exact [OF small(1)] and n = d_of_nat_exact [OF small(2)]
  have v: "dval (d_of_nat m) + dval (d_of_nat n) = int ((m + n) * d_unit)"
    by (simp add: m(4) n(4) distrib_right)
  show ?thesis
  proof (cases "m + n = 0")
    case True
    then show ?thesis by (simp add: d_zero_plus_zero)
  next
    case False
    have "d_add (d_of_nat m) (d_of_nat n) = round_int (int ((m + n) * d_unit))"
      using False small d_unit_pos(2) by (auto simp: d_add_def v simp del: of_nat_mult)
    then show ?thesis by (simp add: round_int_def d_of_nat_def del: of_nat_mult)
  qed
qed

lemma d_floor_of_nat [simp]: "n < 2 ^ 53 \<Longrightarrow> d_floor (d_of_nat n) = d_of_nat n"
  by (simp add: d_floor_def d_of_nat_exact) (simp add: d_of_nat_def)

lemma llround_of_nat [simp]: "n < 2 ^ 53 \<Longrightarrow> llround_u64 u (d_of_nat n) = word_of_nat n"
proof -
  assume n: "n < 2 ^ 53"
  have "(2 * (n * d_unit) + d_unit) div (2 * d_unit) = n"
    by (rule div_nat_eqI) (simp_all add: algebra_simps)
  then have "llround_int (d_of_nat n) = int n"
    by (simp add: llround_int_def d_of_nat_exact [OF n] Let_def)
  then show ?thesis using n by (simp add: llround_u64_def d_of_nat_exact)
qed

section \<open>Dyadic fractions\<close>

lemma d_frac_exact:
  assumes "n < 2 ^ 53" "j \<le> 1074"
  shows "isfinite (d_frac n (2 ^ j))" "\<not> dsign (d_frac n (2 ^ j))"
    "mag_val (dmag (d_frac n (2 ^ j))) * 2 ^ j = n * d_unit"
  using round_dyadic [OF assms] by (simp_all add: d_frac_def isfinite_def)

section \<open>Printing\<close>

lemma show_nat_length: "n < 10 ^ length (show_nat n)"
proof (induction n rule: show_nat.induct)
  case (1 n)
  show ?case
  proof (cases "n < 10")
    case False
    with 1 have "n div 10 < 10 ^ length (show_nat (n div 10))" by simp
    then have "n < 10 * 10 ^ length (show_nat (n div 10))" by simp
    with False show ?thesis by (simp add: show_nat.simps [of n])
  qed (simp add: show_nat.simps [of n])
qed

lemma show_nat_length_le: "0 < n \<Longrightarrow> n < 10 ^ k \<Longrightarrow> length (show_nat n) \<le> k"
proof (induction n arbitrary: k rule: show_nat.induct)
  case (1 n)
  show ?case
  proof (cases "n < 10")
    case True
    with 1 show ?thesis by (cases k) (simp_all add: show_nat.simps [of n])
  next
    case False
    then obtain k' where k: "k = Suc k'" using 1(3) by (cases k) auto
    with 1(3) have "n div 10 < 10 ^ k'" by simp
    with 1(1) [OF False, of k'] False show ?thesis by (simp add: show_nat.simps [of n] k)
  qed
qed

lemma char_of_48: "char_of (48 :: nat) = CHR ''0''"
  by code_simp

lemma show_nat_times10: "0 < n \<Longrightarrow> show_nat (n * 10 ^ k) = show_nat n @ replicate k (CHR ''0'')"
proof (induction k)
  case (Suc k)
  have "\<not> n * 10 ^ Suc k < 10" using Suc.prems by simp
  then have "show_nat (n * 10 ^ Suc k) = show_nat (n * 10 ^ k) @ [CHR ''0'']"
    by (subst show_nat.simps) (simp add: char_of_48)
  with Suc show ?case by (simp add: replicate_append_same [symmetric])
qed simp

lemma strip_zeros_replicate [simp]: "strip_zeros (replicate k (CHR ''0'')) = []"
  by (simp add: strip_zeros_def dropWhile_eq_Nil_conv)

text \<open>A natural number of at most six digits is printed as itself.\<close>

lemma show_double_of_nat:
  assumes "n < 10 ^ 6"
  shows "show_double (d_of_nat n) = show_nat n"
proof (cases "n = 0")
  case True
  then show ?thesis by (simp add: show_double_def show_nat.simps char_of_48 isinf_def isnan_def inf_mag_def)
next
  case False
  define k where "k = length (show_nat n)"
  have "show_nat n \<noteq> []" using show_nat_digits [of n] by simp
  then have k: "0 < k" "k \<le> 6" using show_nat_length_le [of n 6] assms False by (auto simp: k_def)
  have n: "n < 2 ^ 53" using assms by simp
  have x: "dec_exponent (n * d_unit) d_unit = int k - 1"
    using False by (simp add: dec_exponent_def k_def)
  have "nat (5 - (int k - 1)) = 6 - k" "5 \<le> int k - 1 \<longleftrightarrow> k = 6" "nat (int k - 1 - 5) = 0" using k by auto
  then have d: "dec_digits (n * d_unit) d_unit (int k - 1) = n * 10 ^ (6 - k)"
    using round_half_even_exact [of d_unit "n * 10 ^ (6 - k)"]
    by (auto simp: dec_digits_def ac_simps)
  have "n * 10 ^ (6 - k) < 10 ^ k * 10 ^ (6 - k)" using show_nat_length [of n] by (simp add: k_def)
  also have "\<dots> = 10 ^ 6" using k by (simp flip: power_add)
  finally have lt: "n * 10 ^ (6 - k) < 10 ^ 6" .
  have "show_nat (n * 10 ^ (6 - k)) = show_nat n @ replicate (6 - k) (CHR ''0'')"
    using False by (simp add: show_nat_times10)
  moreover have "nat (int k - 1) + 1 = length (show_nat n)" using k(1) unfolding k_def by linarith
  ultimately have "show_digits (int k - 1) (show_nat (n * 10 ^ (6 - k))) = show_nat n"
    using k by (simp add: show_digits_def with_point_def)
  then show ?thesis
    using lt False n
    by (simp add: show_double_def d_of_nat_exact [OF n] dmag_d_of_nat_eq_0 show_positive_def x d Let_def)
qed

end
