(* ===== verification/Scenario.thy ===== *)
theory Scenario
  imports Session Exact
begin

text \<open>
  The scenario of \<^verbatim>\<open>iledger_multiprocess.cpp\<close>: two workers with a request each, the loss of one
  of them, its restart under a new boot with stale replays first and fresh work after. The theorem
  gives every answer of the coordinator, for every interleaving of the two workers.
\<close>

section \<open>The scenario\<close>

abbreviation mpR :: request_id where "mpR \<equiv> Id128 0x1234 0x0000000000000001"
abbreviation mpR2 :: request_id where "mpR2 \<equiv> Id128 0x1234 0x0000000000000002"
abbreviation mpT :: tenant_id where "mpT \<equiv> Id128 0x99 0x1"
abbreviation mpW :: workload_id where "mpW \<equiv> Id128 0x88 0x1"
abbreviation mpM :: model_id where "mpM \<equiv> Id128 0x77 0x1"
abbreviation mpMR :: model_revision_id where "mpMR \<equiv> Id128 0x77 0x2"
abbreviation mpWA :: worker_id where "mpWA \<equiv> Id128 0xAA 0x1"
abbreviation mpWB :: worker_id where "mpWB \<equiv> Id128 0xBB 0x1"
abbreviation mp_bootA1 :: worker_boot_id where "mp_bootA1 \<equiv> Id128 0x1001 0x1"
abbreviation mp_bootA2 :: worker_boot_id where "mp_bootA2 \<equiv> Id128 0x1002 0x1"
abbreviation mp_bootB :: worker_boot_id where "mp_bootB \<equiv> Id128 0x2001 0x1"
abbreviation mpA1 :: attempt_id where "mpA1 \<equiv> Id128 0x3001 0x1"
abbreviation mpA2 :: attempt_id where "mpA2 \<equiv> Id128 0x3002 0x1"
abbreviation mpB1 :: attempt_id where "mpB1 \<equiv> Id128 0x4001 0x1"
abbreviation mpD1 :: dispatch_id where "mpD1 \<equiv> Id128 0x5001 0x1"
abbreviation mpD2 :: dispatch_id where "mpD2 \<equiv> Id128 0x5002 0x1"
abbreviation mpDEV :: device_id where "mpDEV \<equiv> Id128 0x6001 0x1"
abbreviation mpNODE :: node_id where "mpNODE \<equiv> Id128 0x6002 0x1"

definition envelope ::
    "coordinator_epoch \<Rightarrow> worker_boot_id \<Rightarrow> request_generation \<Rightarrow> attempt_id \<Rightarrow> attempt_generation \<Rightarrow>
     accounting_generation \<Rightarrow> dispatch_id \<Rightarrow> authority_envelope" where
  "envelope epoch boot rg at atg ag disp =
     \<lparr>a_epoch = epoch, a_worker_boot = boot, a_request_generation = rg, a_accounting_generation = ag,
      a_attempt = at, a_attempt_generation = atg, a_dispatch = disp\<rparr>"

definition mk ::
    "ledger_entry_id \<Rightarrow> event_kind \<Rightarrow> resource_kind \<Rightarrow> double \<Rightarrow> unit_kind \<Rightarrow> provenance \<Rightarrow> bool \<Rightarrow> u64 \<Rightarrow> u64 \<Rightarrow>
     request_id \<Rightarrow> worker_id \<Rightarrow> attempt_id \<Rightarrow> coordinator_epoch \<Rightarrow> worker_boot_id \<Rightarrow> request_generation \<Rightarrow>
     attempt_generation \<Rightarrow> accounting_generation \<Rightarrow> dispatch_id \<Rightarrow> model_id \<Rightarrow> bool \<Rightarrow> adapter_id \<Rightarrow> string \<Rightarrow>
     ledger_entry" where
  "mk i kind rk v unit prov has_end s end req worker attempt epoch boot rg atg ag disp model has_adapter ad batch =
     \<lparr>e_id = i,
      e_ledger = program_ledger,
      e_tenant = mpT,
      e_workload = mpW,
      e_request = req,
      e_model = model,
      e_model_revision = mpMR,
      e_has_adapter = has_adapter,
      e_adapter = ad,
      e_attempt = attempt,
      e_dispatch = disp,
      e_worker = worker,
      e_node = mpNODE,
      e_device = mpDEV,
      e_event_kind = kind,
      e_resource_kind = rk,
      e_quantity = \<lparr>q_value = v, q_unit = unit, q_provenance = prov\<rparr>,
      e_start_ts_ns = s,
      e_end_ts_ns = end,
      e_has_end = has_end,
      e_source = \<lparr>s_worker = worker, s_boot = boot, s_accounting_generation = ag\<rparr>,
      e_authority = envelope epoch boot rg attempt atg ag disp,
      e_has_accounting_policy = False,
      e_accounting_policy = id_default,
      e_has_pricing_policy = False,
      e_pricing_policy = id_default,
      e_metadata = (if batch = [] then [] else map_put ''batch'' batch [])\<rparr>"

definition script_a1 :: "ledger_entry list" where
  "script_a1 =
     [mk (Id128 0xA 1) RequestStart RGeneric d_zero Count Measured False 1000 0 mpR mpWA mpA1
         (Generation 1) mp_bootA1 (Generation 1) (Generation 1) (Generation 1) mpD1 mpM False id_default [],
      mk (Id128 0xA 2) Reserve RMemory (d_of_nat 1) Count Measured False 1100 0 mpR mpWA mpA1
         (Generation 1) mp_bootA1 (Generation 1) (Generation 1) (Generation 1) mpD1 mpM False id_default [],
      mk (Id128 0xA 3) KvAllocate RKv (d_of_nat 4096) Bytes Measured False 1200 0 mpR mpWA mpA1
         (Generation 1) mp_bootA1 (Generation 1) (Generation 1) (Generation 1) mpD1 mpM False id_default [],
      mk (Id128 0xA 4) TransferH2D RTransfer (d_of_nat 1024) Bytes Measured True 1300 1350 mpR mpWA mpA1
         (Generation 1) mp_bootA1 (Generation 1) (Generation 1) (Generation 1) mpD1 mpM False id_default [],
      mk (Id128 0xA 5) Prefill RCompute (d_frac 1 2) Seconds Measured True 1400 1900 mpR mpWA mpA1
         (Generation 1) mp_bootA1 (Generation 1) (Generation 1) (Generation 1) mpD1 mpM False id_default [],
      mk (Id128 0xA 6) Decode RCompute (d_of_nat 32) Count Measured True 2000 2400 mpR mpWA mpA1
         (Generation 1) mp_bootA1 (Generation 1) (Generation 1) (Generation 1) mpD1 mpM False id_default [],
      mk (Id128 0xA 7) GpuExecution RCompute (d_frac 1 2) Seconds Measured True 1400 2400 mpR mpWA mpA1
         (Generation 1) mp_bootA1 (Generation 1) (Generation 1) (Generation 1) mpD1 mpM False id_default [],
      mk (Id128 0xA 8) ModelResidency RResidency (d_of_nat 1048576) Bytes Measured True 1400 2400 mpR mpWA mpA1
         (Generation 1) mp_bootA1 (Generation 1) (Generation 1) (Generation 1) mpD1 mpM False id_default []]"

definition script_b1 :: "ledger_entry list" where
  "script_b1 =
     [mk (Id128 0xB 1) RequestStart RGeneric d_zero Count Measured False 1000 0 mpR2 mpWB mpB1
         (Generation 1) mp_bootB (Generation 1) (Generation 1) (Generation 1) mpD2 mpM False id_default [],
      mk (Id128 0xB 2) GpuExecution RCompute (d_frac 1 4) Seconds Measured True 1500 1750 mpR2 mpWB mpB1
         (Generation 1) mp_bootB (Generation 1) (Generation 1) (Generation 1) mpD2 mpM False id_default [],
      mk (Id128 0xB 1) RequestStart RGeneric d_zero Count Measured False 1000 0 mpR2 mpWB mpB1
         (Generation 1) mp_bootB (Generation 1) (Generation 1) (Generation 1) mpD2 mpM False id_default [],
      mk (Id128 0xB 3) RequestEnd RGeneric d_zero Count Measured False 1800 0 mpR2 mpWB mpB1
         (Generation 1) mp_bootB (Generation 1) (Generation 1) (Generation 1) mpD2 mpM False id_default []]"

definition script_a2 :: "ledger_entry list" where
  "script_a2 =
     [mk (Id128 0xA 20) Reserve RMemory (d_of_nat 1) Count Measured False 1100 0 mpR mpWA mpA1
         (Generation 1) mp_bootA2 (Generation 1) (Generation 1) (Generation 1) mpD1 mpM False id_default [],
      mk (Id128 0xA 21) Reserve RMemory (d_of_nat 1) Count Measured False 1100 0 mpR mpWA mpA1
         (Generation 2) mp_bootA1 (Generation 1) (Generation 1) (Generation 1) mpD1 mpM False id_default [],
      mk (Id128 0xA 22) RequestEnd RGeneric d_zero Count Measured False 2500 0 mpR mpWA mpA1
         (Generation 2) mp_bootA2 (Generation 1) (Generation 1) (Generation 1) mpD1 mpM False id_default [],
      mk (Id128 0xA 23) Decode RCompute (d_of_nat 8) Count Measured True 2500 2600 mpR mpWA mpA1
         (Generation 2) mp_bootA2 (Generation 1) (Generation 1) (Generation 1) mpD1 mpM False id_default [],
      mk (Id128 0xA 2) Reserve RMemory (d_of_nat 1) Count Measured False 1100 0 mpR mpWA mpA1
         (Generation 1) mp_bootA1 (Generation 1) (Generation 1) (Generation 1) mpD1 mpM False id_default [],
      mk (Id128 0xA 30) RequestStart RGeneric d_zero Count Measured False 3000 0 mpR mpWA mpA2
         (Generation 2) mp_bootA2 (Generation 2) (Generation 2) (Generation 2) mpD2 mpM False id_default [],
      mk (Id128 0xA 31) Reserve RMemory (d_of_nat 1) Count Measured False 3100 0 mpR mpWA mpA2
         (Generation 2) mp_bootA2 (Generation 2) (Generation 2) (Generation 2) mpD2 mpM False id_default [],
      mk (Id128 0xA 32) GpuExecution RCompute (d_frac 1 2) Seconds Measured True 3200 3800 mpR mpWA mpA2
         (Generation 2) mp_bootA2 (Generation 2) (Generation 2) (Generation 2) mpD2 mpM False id_default [],
      mk (Id128 0xA 33) Decode RCompute (d_of_nat 64) Count Measured True 3800 4200 mpR mpWA mpA2
         (Generation 2) mp_bootA2 (Generation 2) (Generation 2) (Generation 2) mpD2 mpM False id_default [],
      mk (Id128 0xA 34) Release RMemory (d_of_nat 1) Count Measured False 4300 0 mpR mpWA mpA2
         (Generation 2) mp_bootA2 (Generation 2) (Generation 2) (Generation 2) mpD2 mpM False id_default [],
      mk (Id128 0xA 35) RequestEnd RGeneric d_zero Count Measured False 4400 0 mpR mpWA mpA2
         (Generation 2) mp_bootA2 (Generation 2) (Generation 2) (Generation 2) mpD2 mpM False id_default []]"

section \<open>The entries\<close>

lemma envelope_simps [simp]:
  "a_epoch (envelope epoch boot rg at atg ag disp) = epoch"
  "a_worker_boot (envelope epoch boot rg at atg ag disp) = boot"
  "a_request_generation (envelope epoch boot rg at atg ag disp) = rg"
  "a_accounting_generation (envelope epoch boot rg at atg ag disp) = ag"
  "a_attempt (envelope epoch boot rg at atg ag disp) = at"
  "a_attempt_generation (envelope epoch boot rg at atg ag disp) = atg"
  "a_dispatch (envelope epoch boot rg at atg ag disp) = disp"
  by (simp_all add: envelope_def)

lemma mk_simps [simp]:
  "e_id (mk i kind rk v unit prov has_end s end req worker attempt epoch boot rg atg ag disp model has_adapter ad batch) = i"
  "e_ledger (mk i kind rk v unit prov has_end s end req worker attempt epoch boot rg atg ag disp model has_adapter ad batch) = program_ledger"
  "e_tenant (mk i kind rk v unit prov has_end s end req worker attempt epoch boot rg atg ag disp model has_adapter ad batch) = mpT"
  "e_workload (mk i kind rk v unit prov has_end s end req worker attempt epoch boot rg atg ag disp model has_adapter ad batch) = mpW"
  "e_request (mk i kind rk v unit prov has_end s end req worker attempt epoch boot rg atg ag disp model has_adapter ad batch) = req"
  "e_model (mk i kind rk v unit prov has_end s end req worker attempt epoch boot rg atg ag disp model has_adapter ad batch) = model"
  "e_model_revision (mk i kind rk v unit prov has_end s end req worker attempt epoch boot rg atg ag disp model has_adapter ad batch) = mpMR"
  "e_has_adapter (mk i kind rk v unit prov has_end s end req worker attempt epoch boot rg atg ag disp model has_adapter ad batch) = has_adapter"
  "e_adapter (mk i kind rk v unit prov has_end s end req worker attempt epoch boot rg atg ag disp model has_adapter ad batch) = ad"
  "e_attempt (mk i kind rk v unit prov has_end s end req worker attempt epoch boot rg atg ag disp model has_adapter ad batch) = attempt"
  "e_dispatch (mk i kind rk v unit prov has_end s end req worker attempt epoch boot rg atg ag disp model has_adapter ad batch) = disp"
  "e_worker (mk i kind rk v unit prov has_end s end req worker attempt epoch boot rg atg ag disp model has_adapter ad batch) = worker"
  "e_node (mk i kind rk v unit prov has_end s end req worker attempt epoch boot rg atg ag disp model has_adapter ad batch) = mpNODE"
  "e_device (mk i kind rk v unit prov has_end s end req worker attempt epoch boot rg atg ag disp model has_adapter ad batch) = mpDEV"
  "e_event_kind (mk i kind rk v unit prov has_end s end req worker attempt epoch boot rg atg ag disp model has_adapter ad batch) = kind"
  "e_resource_kind (mk i kind rk v unit prov has_end s end req worker attempt epoch boot rg atg ag disp model has_adapter ad batch) = rk"
  "e_quantity (mk i kind rk v unit prov has_end s end req worker attempt epoch boot rg atg ag disp model has_adapter ad batch) = \<lparr>q_value = v, q_unit = unit, q_provenance = prov\<rparr>"
  "e_start_ts_ns (mk i kind rk v unit prov has_end s end req worker attempt epoch boot rg atg ag disp model has_adapter ad batch) = s"
  "e_end_ts_ns (mk i kind rk v unit prov has_end s end req worker attempt epoch boot rg atg ag disp model has_adapter ad batch) = end"
  "e_has_end (mk i kind rk v unit prov has_end s end req worker attempt epoch boot rg atg ag disp model has_adapter ad batch) = has_end"
  "e_source (mk i kind rk v unit prov has_end s end req worker attempt epoch boot rg atg ag disp model has_adapter ad batch) = \<lparr>s_worker = worker, s_boot = boot, s_accounting_generation = ag\<rparr>"
  "e_authority (mk i kind rk v unit prov has_end s end req worker attempt epoch boot rg atg ag disp model has_adapter ad batch) = envelope epoch boot rg attempt atg ag disp"
  "e_has_accounting_policy (mk i kind rk v unit prov has_end s end req worker attempt epoch boot rg atg ag disp model has_adapter ad batch) = False"
  "e_accounting_policy (mk i kind rk v unit prov has_end s end req worker attempt epoch boot rg atg ag disp model has_adapter ad batch) = id_default"
  "e_has_pricing_policy (mk i kind rk v unit prov has_end s end req worker attempt epoch boot rg atg ag disp model has_adapter ad batch) = False"
  "e_pricing_policy (mk i kind rk v unit prov has_end s end req worker attempt epoch boot rg atg ag disp model has_adapter ad batch) = id_default"
  "e_metadata (mk i kind rk v unit prov has_end s end req worker attempt epoch boot rg atg ag disp model has_adapter ad batch) = (if batch = [] then [] else map_put ''batch'' batch [])"
  by (simp_all add: mk_def)

definition worker_ops :: "worker_id \<Rightarrow> worker_boot_id \<Rightarrow> ledger_entry list \<Rightarrow> operation list" where
  "worker_ops w b es = Registration w b # map Event es"

lemma small_double [simp]:
  "n < 2 ^ 53 \<Longrightarrow> isfinite (d_of_nat n)" "\<not> d_lt d_zero d_zero"
  "n < 2 ^ 53 \<Longrightarrow> \<not> d_lt (d_of_nat n) d_zero" "d_eq (d_floor d_zero) d_zero"
  "isfinite (d_frac 1 2)" "\<not> d_lt (d_frac 1 2) d_zero" "isfinite (d_frac 1 4)" "\<not> d_lt (d_frac 1 4) d_zero"
proof -
  show "n < 2 ^ 53 \<Longrightarrow> isfinite (d_of_nat n)" by (rule d_of_nat_exact(1))
  show "n < 2 ^ 53 \<Longrightarrow> \<not> d_lt (d_of_nat n) d_zero" using d_of_nat_le_iff(2) [of n 0] by simp
  show "\<not> d_lt d_zero d_zero" "d_eq (d_floor d_zero) d_zero"
    using d_of_nat_le_iff(2,3) [of 0 0] d_floor_of_nat [of 0] by simp_all
  show "isfinite (d_frac 1 2)" "isfinite (d_frac 1 4)"
    using d_frac_exact(1) [of 1 1] d_frac_exact(1) [of 1 2] by simp_all
  show "\<not> d_lt (d_frac 1 2) d_zero" "\<not> d_lt (d_frac 1 4) d_zero"
    using d_frac_exact(2) [of 1 1] d_frac_exact(2) [of 1 2] by (simp_all add: d_lt_zero_iff dord_def)
qed

lemma content_mk:
  "content_is_valid (mk i kind rk v unit prov has_end s end req worker attempt epoch boot rg atg ag disp model has_adapter ad batch) \<longleftrightarrow>
     isfinite v \<and> \<not> (is_physical_resource rk \<and> d_lt v d_zero) \<and> \<not> (unit = Count \<and> \<not> d_eq (d_floor v) v)"
  by (simp add: content_is_valid_iff q_is_integral_def)

lemma scripts_valid:
  "list_all content_is_valid script_a1" "list_all content_is_valid script_b1" "list_all content_is_valid script_a2"
  by (simp_all add: script_a1_def script_b1_def script_a2_def content_mk del: One_nat_def)

lemma scripts_stamped:
  "list_all (stamped mpWA mpR (envelope (Generation 1) mp_bootA1 (Generation 1) mpA1 (Generation 1) (Generation 1) mpD1)) script_a1"
  "list_all (stamped mpWB mpR2 (envelope (Generation 1) mp_bootB (Generation 1) mpB1 (Generation 1) (Generation 1) mpD2)) script_b1"
  "list_all (stamped mpWA mpR (envelope (Generation 2) mp_bootA2 (Generation 2) mpA2 (Generation 2) (Generation 2) mpD2))
     (drop 5 script_a2)"
  by (simp_all add: script_a1_def script_b1_def script_a2_def stamped_def)

lemma scripts_start:
  "e_event_kind (hd script_a1) = RequestStart" "e_event_kind (hd script_b1) = RequestStart"
  "e_event_kind (hd (drop 5 script_a2)) = RequestStart"
  by (simp_all add: script_a1_def script_b1_def script_a2_def)

lemma scripts_open:
  "foldl open_step None script_a1 = Some ()"
  by (simp add: script_a1_def open_step_def)

lemma scripts_ids:
  "map e_id script_a1 = map (Id128 0xA) [1, 2, 3, 4, 5, 6, 7, 8]"
  "map e_id script_b1 = map (Id128 0xB) [1, 2, 1, 3]"
  "map e_id script_a2 = map (Id128 0xA) [20, 21, 22, 23, 2, 30, 31, 32, 33, 34, 35]"
  by (simp_all add: script_a1_def script_b1_def script_a2_def)
section \<open>Each worker alone\<close>

abbreviation fresh_coordinator :: coordinator where
  "fresh_coordinator \<equiv> coordinator_new program_ledger"

lemma fresh_sound: "sound fresh_coordinator"
  by (rule sound_reachable) (rule reachable.init)

lemma fresh_parts:
  "snapshot (co_ledger fresh_coordinator) = []" "co_in_flight fresh_coordinator = []"
  "authority_view w (co_authority fresh_coordinator) = (Generation 1, Generation 1, True, None)"
  by (simp_all add: coordinator_new_def attach_authority_def ledger_new_def snapshot_def
      authority_view_def authority_default_def map_find_def)

lemma registered_register:
  "authority_view w (co_authority c) = (a_epoch a, a_accounting_generation a, True, b) \<Longrightarrow>
     registered_as (register_boot c w (a_worker_boot a)) w a"
  by (simp add: registered_as_def authority_view_def register_boot_def map_find_put)

lemma register_keeps [simp]:
  "co_ledger (register_boot c w b) = co_ledger c" "co_in_flight (register_boot c w b) = co_in_flight c"
  by (simp_all add: register_boot_def)

lemma sound_register: "sound c \<Longrightarrow> sound (register_boot c w b)"
  using sound_operate [of c "Registration w b"] by simp

lemma alone_a1:
  "map snd (run_steps operate fresh_coordinator (worker_ops mpWA mp_bootA1 script_a1)) =
     Registered_at (Generation 1) (Generation 1) # replicate 8 accepted"
  "snapshot (co_ledger (end_state operate fresh_coordinator (worker_ops mpWA mp_bootA1 script_a1))) = script_a1"
  "registered_as (end_state operate fresh_coordinator (worker_ops mpWA mp_bootA1 script_a1)) mpWA
     (envelope (Generation 1) mp_bootA1 (Generation 1) mpA1 (Generation 1) (Generation 1) mpD1)"
proof -
  let ?a = "envelope (Generation 1) mp_bootA1 (Generation 1) mpA1 (Generation 1) (Generation 1) mpD1"
  let ?c = "register_boot fresh_coordinator mpWA mp_bootA1"
  have r: "registered_as ?c mpWA ?a"
    using registered_register [of mpWA fresh_coordinator ?a None] by (simp add: fresh_parts)
  have "list_all (\<lambda>e. stamped mpWA mpR ?a e \<and> content_is_valid e) script_a1"
    using scripts_stamped(1) scripts_valid(1) by (simp add: list_all_iff)
  moreover have "distinct (map e_id (snapshot (co_ledger ?c) @ script_a1))"
    using scripts_ids(1) by (simp add: fresh_parts)
  moreover have "length script_a1 = 8" by (simp add: script_a1_def)
  ultimately show
    "map snd (run_steps operate fresh_coordinator (worker_ops mpWA mp_bootA1 script_a1)) =
       Registered_at (Generation 1) (Generation 1) # replicate 8 accepted"
    "snapshot (co_ledger (end_state operate fresh_coordinator (worker_ops mpWA mp_bootA1 script_a1))) = script_a1"
    "registered_as (end_state operate fresh_coordinator (worker_ops mpWA mp_bootA1 script_a1)) mpWA ?a"
    using session_accepted [OF sound_register [OF fresh_sound] r, of mpR script_a1] scripts_start(1)
      fresh_parts(3) [of mpWA]
    by (simp_all add: worker_ops_def fresh_parts authority_view_def)
qed
lemma run_steps_append:
  "run_steps step s (xs @ ys) = run_steps step s xs @ run_steps step (end_state step s xs) ys"
  by (induction xs arbitrary: s) simp_all

text \<open>An event that is sent again under the authority of its session is a duplicate.\<close>

lemma stamped_duplicate:
  assumes "sound c" "stamped w r a e" "registered_as c w a" "holds_request c r a"
    and "content_is_valid e" "e \<in> set (snapshot (co_ledger c))" "distinct (map e_id (snapshot (co_ledger c)))"
  shows "fst (operate c (Event e)) = Answer \<lparr>ar_status = Duplicate, ar_reason = ''idempotent duplicate ignored''\<rparr>"
    "snapshot (co_ledger (snd (operate c (Event e)))) = snapshot (co_ledger c)"
    "registered_as (snd (operate c (Event e))) w a" "holds_request (snd (operate c (Event e))) r a"
proof -
  have f: "fenced c" using assms(1) by (simp add: sound_def)
  have "entry_eq e e" using assms(5) by (auto simp: entry_eq_refl content_is_valid_iff isfinite_def isnan_def)
  moreover have "find (\<lambda>x. e_id x = e_id e) xs = Some e" if "e \<in> set xs" "distinct (map e_id xs)" for xs
    using that by (induction xs) (auto simp: image_iff)
  ultimately have ar: "fst (account_event c e) = \<lparr>ar_status = Duplicate, ar_reason = ''idempotent duplicate ignored''\<rparr>"
    using account_event_answer [OF f, of e UNIV] stamped_current [OF assms(2,3)] assms(4-7)
    by (simp add: append_answer_def find_entries_of)
  then show "fst (operate c (Event e)) = Answer \<lparr>ar_status = Duplicate, ar_reason = ''idempotent duplicate ignored''\<rparr>"
    by (simp add: case_prod_beta)
  show "snapshot (co_ledger (snd (operate c (Event e)))) = snapshot (co_ledger c)"
    using entries_of_event [OF f, of UNIV e] ar by (simp add: entries_of_def case_prod_beta)
  show "registered_as (snd (operate c (Event e))) w a"
    using assms(3) f by (simp add: registered_as_def authority_event case_prod_beta)
  show "holds_request (snd (operate c (Event e))) r a"
    using assms(2,4) f
    by (auto simp: holds_request_def authority_event request_view_authority_for stamped_def case_prod_beta)
qed

lemma alone_b1:
  "map snd (run_steps operate fresh_coordinator (worker_ops mpWB mp_bootB script_b1)) =
     [Registered_at (Generation 1) (Generation 1), accepted, accepted,
      Answer \<lparr>ar_status = Duplicate, ar_reason = ''idempotent duplicate ignored''\<rparr>, accepted]"
  "snapshot (co_ledger (end_state operate fresh_coordinator (worker_ops mpWB mp_bootB script_b1))) =
     [script_b1 ! 0, script_b1 ! 1, script_b1 ! 3]"
proof -
  let ?a = "envelope (Generation 1) mp_bootB (Generation 1) mpB1 (Generation 1) (Generation 1) mpD2"
  let ?c = "register_boot fresh_coordinator mpWB mp_bootB"
  define e0 e1 e3 where "e0 = script_b1 ! 0" "e1 = script_b1 ! 1" "e3 = script_b1 ! 3"
  have s: "script_b1 = [e0, e1, e0, e3]" by (simp add: e0_e1_e3_def script_b1_def)
  have k: "e_event_kind e0 = RequestStart" by (simp add: e0_e1_e3_def script_b1_def)
  have ids: "e_id e0 = Id128 0xB 1" "e_id e1 = Id128 0xB 2" "e_id e3 = Id128 0xB 3"
    using scripts_ids(2) by (simp_all add: s)
  have st: "list_all (\<lambda>e. stamped mpWB mpR2 ?a e \<and> content_is_valid e) [e0, e1, e3]"
    using scripts_stamped(2) scripts_valid(2) by (simp add: s)
  have r: "registered_as ?c mpWB ?a"
    using registered_register [of mpWB fresh_coordinator ?a None] by (simp add: fresh_parts)
  let ?c2 = "end_state operate ?c (map Event [e0, e1])"
  have two: "map snd (run_steps operate ?c (map Event [e0, e1])) = [accepted, accepted]"
      "snapshot (co_ledger ?c2) = [e0, e1]" "registered_as ?c2 mpWB ?a" "holds_request ?c2 mpR2 ?a"
    using session_accepted [OF sound_register [OF fresh_sound] r, of mpR2 "[e0, e1]"] st k ids
    by (simp_all add: fresh_parts numeral_2_eq_2 del: end_state.simps run_steps.simps)
  have s2: "sound ?c2" by (intro sound_end_state sound_register fresh_sound)
  let ?c3 = "snd (operate ?c2 (Event e0))"
  note dup = stamped_duplicate [OF s2 _ two(3,4), of e0, unfolded two(2)]
  have c3: "fst (operate ?c2 (Event e0)) = Answer \<lparr>ar_status = Duplicate, ar_reason = ''idempotent duplicate ignored''\<rparr>"
      "snapshot (co_ledger ?c3) = [e0, e1]" "registered_as ?c3 mpWB ?a" "holds_request ?c3 mpR2 ?a"
    using dup st ids by (simp_all del: operate.simps end_state.simps)
  have e3: "map snd (run_steps operate ?c3 (map Event [e3])) = [accepted]"
      "snapshot (co_ledger (end_state operate ?c3 (map Event [e3]))) = [e0, e1, e3]"
    using session_accepted [OF sound_operate [OF s2, of "Event e0"] c3(3), of mpR2 "[e3]"] st ids c3(2,4)
    by (simp_all del: end_state.simps run_steps.simps operate.simps)
  have ops: "worker_ops mpWB mp_bootB script_b1 = Registration mpWB mp_bootB # map Event [e0, e1] @ Event e0 # map Event [e3]"
    by (simp add: worker_ops_def s)
  have all: "end_state operate fresh_coordinator (worker_ops mpWB mp_bootB script_b1) =
      end_state operate ?c3 (map Event [e3])" by (simp add: ops del: operate.simps(2))
  show "map snd (run_steps operate fresh_coordinator (worker_ops mpWB mp_bootB script_b1)) =
     [Registered_at (Generation 1) (Generation 1), accepted, accepted,
      Answer \<lparr>ar_status = Duplicate, ar_reason = ''idempotent duplicate ignored''\<rparr>, accepted]"
    using two(1) c3(1) e3(1) fresh_parts(3) [of mpWB]
    by (simp add: ops run_steps_append authority_view_def del: list.map(2) append_Cons operate.simps(2))
      (simp add: run_steps_append)
  show "snapshot (co_ledger (end_state operate fresh_coordinator (worker_ops mpWB mp_bootB script_b1))) =
     [script_b1 ! 0, script_b1 ! 1, script_b1 ! 3]"
    unfolding all using e3(2) by (simp add: s del: end_state.simps)
qed
section \<open>After the loss\<close>

abbreviation refused :: "authority_verdict \<Rightarrow> answer" where
  "refused v \<equiv> Answer \<lparr>ar_status = Stale, ar_reason = authority_verdict_name v\<rparr>"

text \<open>A list of refused events, none of them a start, changes nothing.\<close>

lemma all_refused:
  "sound c \<Longrightarrow> list_all2 (\<lambda>e v. content_is_valid e \<and> v \<noteq> Accept \<and> e_event_kind e \<noteq> RequestStart \<and>
       validate_authority e (co_authority c) = v) es vs \<Longrightarrow>
   map snd (run_steps operate c (map Event es)) = map refused vs \<and> end_state operate c (map Event es) = c"
proof (induction es arbitrary: vs)
  case (Cons e es)
  then obtain v vs' where "vs = v # vs'" by (cases vs) auto
  moreover from this have "operate c (Event e) = (refused v, c)"
    using Cons.prems by (intro refused_unchanged) simp_all
  ultimately show ?case using Cons.IH [of vs'] Cons.prems by (simp del: operate.simps)
qed simp

lemma lose_view:
  "authority_view w (co_authority c) = (Generation e, Generation g, s, b) \<Longrightarrow>
     authority_view w (co_authority (lose c)) = (Generation (e + 1), Generation (g + 1), s, b)"
  "snapshot (co_ledger (lose c)) = snapshot (co_ledger c)"
  by (simp_all add: authority_view_def lose_def advance_epoch_def roll_in_flight_def gen_next_def)

abbreviation lost_a1 :: coordinator where
  "lost_a1 \<equiv> lose (end_state operate fresh_coordinator (worker_ops mpWA mp_bootA1 script_a1))"

lemma sound_lost_a1: "sound lost_a1"
  by (intro sound_lose sound_end_state fresh_sound)

lemma alone_a2:
  "map snd (run_steps operate lost_a1 (worker_ops mpWA mp_bootA2 script_a2)) =
     Registered_at (Generation 2) (Generation 2) #
     map refused [StaleEpoch, StaleGeneration, StaleGeneration, StaleGeneration, StaleEpoch] @ replicate 6 accepted"
  "snapshot (co_ledger (end_state operate lost_a1 (worker_ops mpWA mp_bootA2 script_a2))) =
     script_a1 @ drop 5 script_a2"
proof -
  let ?a = "envelope (Generation 2) mp_bootA2 (Generation 2) mpA2 (Generation 2) (Generation 2) mpD2"
  let ?c = "register_boot lost_a1 mpWA mp_bootA2"
  let ?vs = "[StaleEpoch, StaleGeneration, StaleGeneration, StaleGeneration, StaleEpoch]"
  have v: "authority_view mpWA (co_authority lost_a1) = (Generation 2, Generation 2, True, Some mp_bootA1)"
    using lose_view(1) [OF alone_a1(3) [unfolded registered_as_def envelope_simps]] by simp
  have l: "snapshot (co_ledger lost_a1) = script_a1" by (simp add: lose_view(2) alone_a1(2))
  have r: "registered_as ?c mpWA ?a" using registered_register [of mpWA lost_a1 ?a] v by simp
  have s: "sound ?c" by (intro sound_register sound_lost_a1)
  have st: "st_epoch (co_authority ?c) = Generation 2" "st_accounting_generation (co_authority ?c) = Generation 2"
    using r by (simp_all add: registered_as_def authority_view_def)
  have "list_all2 (\<lambda>e v. content_is_valid e \<and> v \<noteq> Accept \<and> e_event_kind e \<noteq> RequestStart \<and>
       validate_authority e (co_authority ?c) = v) (take 5 script_a2) ?vs"
    using scripts_valid(3) by (simp add: script_a2_def validate_authority_def st)
  from all_refused [OF s this]
  have first: "map snd (run_steps operate ?c (map Event (take 5 script_a2))) = map refused ?vs"
      "end_state operate ?c (map Event (take 5 script_a2)) = ?c" by simp_all
  have "list_all (\<lambda>e. stamped mpWA mpR ?a e \<and> content_is_valid e) (drop 5 script_a2)"
    using scripts_stamped(3) scripts_valid(3) by (auto simp: list_all_iff dest: in_set_dropD)
  moreover have "distinct (map e_id (snapshot (co_ledger ?c) @ drop 5 script_a2))"
    using scripts_ids(1,3) by (simp add: l flip: drop_map)
  moreover have "length (drop 5 script_a2) = 6" by (simp add: script_a2_def)
  ultimately have second: "map snd (run_steps operate ?c (map Event (drop 5 script_a2))) = replicate 6 accepted"
      "snapshot (co_ledger (end_state operate ?c (map Event (drop 5 script_a2)))) = script_a1 @ drop 5 script_a2"
    using session_accepted [OF s r, of mpR "drop 5 script_a2"] scripts_start(3) by (simp_all add: l)
  have ops: "worker_ops mpWA mp_bootA2 script_a2 =
      Registration mpWA mp_bootA2 # map Event (take 5 script_a2) @ map Event (drop 5 script_a2)"
    by (simp add: worker_ops_def flip: map_append)
  show "map snd (run_steps operate lost_a1 (worker_ops mpWA mp_bootA2 script_a2)) =
      Registered_at (Generation 2) (Generation 2) # map refused ?vs @ replicate 6 accepted"
    using v by (simp add: ops run_steps_append first second(1) authority_view_def)
  show "snapshot (co_ledger (end_state operate lost_a1 (worker_ops mpWA mp_bootA2 script_a2))) =
      script_a1 @ drop 5 script_a2"
    by (simp add: ops end_state_append first(2) second(2))
qed
section \<open>Any interleaving\<close>

definition ids_under :: "u64 \<Rightarrow> ledger_entry_id set" where
  "ids_under h = {i. id_hi i = h}"

lemma ids_under_iff [simp]: "Id128 a b \<in> ids_under h \<longleftrightarrow> a = h"
  by (simp add: ids_under_def)

lemma worker_ops_owned:
  "list_all (owned mpWA {mpR} (ids_under 0xA)) (worker_ops mpWA mp_bootA1 script_a1)"
  "list_all (owned mpWB {mpR2} (ids_under 0xB)) (worker_ops mpWB mp_bootB script_b1)"
  "list_all (owned mpWA {mpR} (ids_under 0xA)) (worker_ops mpWA mp_bootA2 script_a2)"
  "list_all (unrelated mpWB {mpR2} (ids_under 0xB)) (worker_ops mpWA mp_bootA1 script_a1)"
  "list_all (unrelated mpWA {mpR} (ids_under 0xA)) (worker_ops mpWB mp_bootB script_b1)"
  "list_all (unrelated mpWB {mpR2} (ids_under 0xB)) (worker_ops mpWA mp_bootA2 script_a2)"
  by (simp_all add: worker_ops_def script_a1_def script_b1_def script_a2_def)

lemma entries_of_all:
  "list_all (\<lambda>e. e_id e \<in> ids) (snapshot l) \<Longrightarrow> entries_of ids l = snapshot l"
  by (simp add: entries_of_def list_all_iff)

lemma scripts_under:
  "list_all (\<lambda>e. e_id e \<in> ids_under 0xA) (script_a1 @ drop 5 script_a2)"
  "list_all (\<lambda>e. e_id e \<in> ids_under 0xB) [script_b1 ! 0, script_b1 ! 1, script_b1 ! 3]"
  by (simp_all add: script_a1_def script_b1_def script_a2_def)

lemma same_view_refl: "same_view w rs ids c c"
  by (simp add: same_view_def)

lemma shuffles_self: "xs \<in> shuffles xs []" "ys \<in> shuffles [] ys"
  by simp_all

lemma append_in_shuffles: "xs @ ys \<in> shuffles xs ys"
  by (induction xs) (simp_all add: Cons_in_shuffles_leftI)

lemma after_interleaving:
  assumes zs: "zs \<in> shuffles (worker_ops mpWA mp_bootA1 script_a1) (worker_ops mpWB mp_bootB script_b1)"
  shows "filter (owned mpWA {mpR} (ids_under 0xA) \<circ> fst) (run_steps operate fresh_coordinator zs) =
      run_steps operate fresh_coordinator (worker_ops mpWA mp_bootA1 script_a1)"
    "filter (owned mpWB {mpR2} (ids_under 0xB) \<circ> fst) (run_steps operate fresh_coordinator zs) =
      run_steps operate fresh_coordinator (worker_ops mpWB mp_bootB script_b1)"
    "same_view mpWA {mpR} (ids_under 0xA) lost_a1 (lose (end_state operate fresh_coordinator zs))"
    "entries_of (ids_under 0xB) (co_ledger (lose (end_state operate fresh_coordinator zs))) =
      [script_b1 ! 0, script_b1 ! 1, script_b1 ! 3]"
proof -
  note a = worker_view.interleaved [OF zs worker_ops_owned(1,5) fresh_sound fresh_sound same_view_refl]
  note b = worker_view.interleaved [OF zs [unfolded shuffles_commutes [of "worker_ops mpWA mp_bootA1 script_a1"]]
      worker_ops_owned(2,4) fresh_sound fresh_sound same_view_refl]
  show "filter (owned mpWA {mpR} (ids_under 0xA) \<circ> fst) (run_steps operate fresh_coordinator zs) =
      run_steps operate fresh_coordinator (worker_ops mpWA mp_bootA1 script_a1)"
    "filter (owned mpWB {mpR2} (ids_under 0xB) \<circ> fst) (run_steps operate fresh_coordinator zs) =
      run_steps operate fresh_coordinator (worker_ops mpWB mp_bootB script_b1)"
    using a b by blast+
  show "same_view mpWA {mpR} (ids_under 0xA) lost_a1 (lose (end_state operate fresh_coordinator zs))"
    using a by (intro loss_consistent sound_end_state fresh_sound) simp
  have "entries_of (ids_under 0xB) (co_ledger (end_state operate fresh_coordinator zs)) =
      entries_of (ids_under 0xB) (co_ledger (end_state operate fresh_coordinator (worker_ops mpWB mp_bootB script_b1)))"
    using b by (simp add: same_view_def)
  then show "entries_of (ids_under 0xB) (co_ledger (lose (end_state operate fresh_coordinator zs))) =
      [script_b1 ! 0, script_b1 ! 1, script_b1 ! 3]"
    using scripts_under(2) alone_b1(2) by (simp add: entries_of_def lose_view(2))
qed

lemma set_events_in: "set (events_in as) = {e. Event e \<in> set as}"
  by (induction as) (auto split: operation.split)

lemma filter_run_steps:
  "list_all P as \<Longrightarrow> filter (P \<circ> fst) (run_steps step s as) = run_steps step s as"
  by (induction as arbitrary: s) simp_all

lemma scripts_split:
  "list_all (\<lambda>e. e_id e \<notin> ids_under 0xA \<longleftrightarrow> e_id e \<in> ids_under 0xB) (script_a1 @ script_b1 @ script_a2)"
  by (simp add: script_a1_def script_b1_def script_a2_def)

lemma final_ledger:
  assumes zs: "zs \<in> shuffles (worker_ops mpWA mp_bootA1 script_a1) (worker_ops mpWB mp_bootB script_b1)"
  defines "c \<equiv> lose (end_state operate fresh_coordinator zs)"
  shows "map snd (run_steps operate c (worker_ops mpWA mp_bootA2 script_a2)) =
      map snd (run_steps operate lost_a1 (worker_ops mpWA mp_bootA2 script_a2))"
    "snapshot (co_ledger (end_state operate c (worker_ops mpWA mp_bootA2 script_a2))) \<in>
      shuffles (script_a1 @ drop 5 script_a2) [script_b1 ! 0, script_b1 ! 1, script_b1 ! 3]"
proof -
  let ?ops = "worker_ops mpWA mp_bootA2 script_a2"
  let ?d = "end_state operate c ?ops"
  have s: "sound c" unfolding c_def by (intro sound_lose sound_end_state fresh_sound)
  have o: "filter (owned mpWA {mpR} (ids_under 0xA) \<circ> fst) (run_steps operate c ?ops) = run_steps operate lost_a1 ?ops"
    and va: "same_view mpWA {mpR} (ids_under 0xA) (end_state operate lost_a1 ?ops) ?d"
    using worker_view.interleaved [OF shuffles_self(1) worker_ops_owned(3) _ sound_lost_a1 s]
      after_interleaving(3) [OF zs] by (simp_all add: c_def)
  show "map snd (run_steps operate c ?ops) = map snd (run_steps operate lost_a1 ?ops)"
    using o filter_run_steps [OF worker_ops_owned(3), of operate c] by simp
  have "same_view mpWB {mpR2} (ids_under 0xB) c ?d"
    using worker_view.interleaved [OF shuffles_self(2) _ worker_ops_owned(6) s s same_view_refl] by simp
  then have eb: "entries_of (ids_under 0xB) (co_ledger ?d) = [script_b1 ! 0, script_b1 ! 1, script_b1 ! 3]"
    using after_interleaving(4) [OF zs] by (simp add: same_view_def c_def)
  have ea: "entries_of (ids_under 0xA) (co_ledger ?d) = script_a1 @ drop 5 script_a2"
    using va scripts_under(1) entries_of_all [of "ids_under 0xA" "co_ledger (end_state operate lost_a1 ?ops)"]
    unfolding alone_a2(2) same_view_def by simp
  have "set (snapshot (co_ledger ?d)) \<subseteq> set (events_in zs) \<union> set (events_in ?ops)"
    using entries_offered [OF s, of ?ops] entries_offered [OF fresh_sound, of zs]
    by (auto simp: c_def lose_view(2) fresh_parts)
  also have "\<dots> \<subseteq> set (script_a1 @ script_b1 @ script_a2)"
    using set_shuffles [OF zs] by (auto simp: set_events_in worker_ops_def)
  finally have "e_id e \<notin> ids_under 0xA \<longleftrightarrow> e_id e \<in> ids_under 0xB" if "e \<in> set (snapshot (co_ledger ?d))" for e
    using that scripts_split unfolding list_all_iff by blast
  then have "filter (\<lambda>e. e_id e \<notin> ids_under 0xA) (snapshot (co_ledger ?d)) = entries_of (ids_under 0xB) (co_ledger ?d)"
    unfolding entries_of_def by (intro filter_cong) simp_all
  then show "snapshot (co_ledger ?d) \<in> shuffles (script_a1 @ drop 5 script_a2) [script_b1 ! 0, script_b1 ! 1, script_b1 ! 3]"
    using partition_in_shuffles [of "snapshot (co_ledger ?d)" "\<lambda>e. e_id e \<in> ids_under 0xA"] ea eb
    by (simp add: entries_of_def)
qed
section \<open>Properties\<close>

text \<open>C19: In the end-to-end scenario, in whatever order the coordinator serves worker A's first session
  and worker B's session, A's eight events are accepted, B's second start is an idempotent duplicate
  and its other events are accepted; after A is lost and registers again under its new boot, its five
  stale events are refused (the first and last for the epoch, the others for the accounting
  generation), its six fresh ones accepted, and the ledger is an interleaving of the fourteen entries
  of request R and the three of R2, each in the order they were sent.\<close>

theorem scenario_answers:
  assumes "zs \<in> shuffles (worker_ops mpWA mp_bootA1 script_a1) (worker_ops mpWB mp_bootB script_b1)"
  shows "map snd (filter (owned mpWA {mpR} (ids_under 0xA) \<circ> fst) (run_steps operate fresh_coordinator zs)) =
      Registered_at (Generation 1) (Generation 1) # replicate 8 accepted \<and>
    map snd (filter (owned mpWB {mpR2} (ids_under 0xB) \<circ> fst) (run_steps operate fresh_coordinator zs)) =
      [Registered_at (Generation 1) (Generation 1), accepted, accepted,
       Answer \<lparr>ar_status = Duplicate, ar_reason = ''idempotent duplicate ignored''\<rparr>, accepted] \<and>
    map snd (run_steps operate (lose (end_state operate fresh_coordinator zs)) (worker_ops mpWA mp_bootA2 script_a2)) =
      Registered_at (Generation 2) (Generation 2) #
      map refused [StaleEpoch, StaleGeneration, StaleGeneration, StaleGeneration, StaleEpoch] @ replicate 6 accepted \<and>
    snapshot (co_ledger (end_state operate (lose (end_state operate fresh_coordinator zs))
        (worker_ops mpWA mp_bootA2 script_a2))) \<in>
      shuffles (script_a1 @ drop 5 script_a2) [script_b1 ! 0, script_b1 ! 1, script_b1 ! 3]"
  using after_interleaving(1,2) [OF assms] final_ledger [OF assms] alone_a1(1) alone_b1(1) alone_a2(1) by simp

theorem scenario_answers_witness:
  "snapshot (co_ledger (end_state operate (lose (end_state operate fresh_coordinator
      (worker_ops mpWA mp_bootA1 script_a1 @ worker_ops mpWB mp_bootB script_b1)))
      (worker_ops mpWA mp_bootA2 script_a2))) \<in>
    shuffles (script_a1 @ drop 5 script_a2) [script_b1 ! 0, script_b1 ! 1, script_b1 ! 3]"
  using scenario_answers [OF append_in_shuffles] by blast

end
