(* ===== verification/Persistence.thy ===== *)
theory Persistence
  imports Codec Ledger
begin

text \<open>
  \<^verbatim>\<open>persistence.hpp\<close> and \<^verbatim>\<open>persistence.cpp\<close>: the digest of an entry stream, saving,
  appending, loading and replaying a ledger file.

  A disk maps a path to the bytes of its file. An output stream is the flag \<^verbatim>\<open>good()\<close> and the
  disk it writes to; the device says which paths open for writing and how many bytes a file can
  hold, so a write past that stores what fits and clears the flag (a full disk, or the process
  dying at that byte). Buffering is not modelled: a failing write is noticed at once, and flushing
  a good stream succeeds.
\<close>

section \<open>Digest\<close>

record mix =
  mix_a :: u64
  mix_b :: u64

definition mix_init :: mix where
  "mix_init = \<lparr>mix_a = 0xCBF29CE484222325, mix_b = 0x9E3779B97F4A7C15\<rparr>"

definition mix_feed :: "mix \<Rightarrow> u64 \<Rightarrow> mix" where
  "mix_feed m v =
     \<lparr>mix_a = mix_a m XOR (v + 0x9E3779B97F4A7C15 + push_bit 6 (mix_a m) + drop_bit 2 (mix_a m)),
      mix_b = (mix_b m XOR (v * 0x100000001B3)) * 0x9E3779B97F4A7C15\<rparr>"

definition mix_feed_bytes :: "mix \<Rightarrow> bytes \<Rightarrow> mix" where
  "mix_feed_bytes m p = foldl (\<lambda>m b. mix_feed m (ucast b)) m p"

definition feed_entry :: "mix \<Rightarrow> ledger_entry \<Rightarrow> mix" where
  "feed_entry m e =
     (case encode_entry e of
        None \<Rightarrow> mix_feed m 0xFFFFFFFFFFFFFFFF
      | Some f \<Rightarrow> mix_feed_bytes m f)"

definition ledger_fingerprint :: "ledger_entry list \<Rightarrow> bytes" where
  "ledger_fingerprint entries =
     (let m = foldl feed_entry mix_init entries
      in map (\<lambda>i. ucast (drop_bit (56 - i * 8) (mix_a m))) [0..<8] @
         map (\<lambda>i. ucast (drop_bit (56 - i * 8) (mix_b m))) [0..<8])"

definition fingerprint_to_string :: "bytes \<Rightarrow> string" where
  "fingerprint_to_string fp =
     concat (map (\<lambda>b. [kHex ! unat (drop_bit 4 b AND 0x0F), kHex ! unat (b AND 0x0F)]) fp)"

section \<open>Streams\<close>

type_synonym disk = "string \<rightharpoonup> bytes"

record device =
  dv_openable :: "string \<Rightarrow> bool"
  dv_room :: "string \<Rightarrow> nat"

type_synonym ostream = "bool \<times> disk"

definition file_bytes :: "disk \<Rightarrow> string \<Rightarrow> bytes" where
  "file_bytes d p = (case d p of None \<Rightarrow> [] | Some bs \<Rightarrow> bs)"

definition open_trunc :: "device \<Rightarrow> disk \<Rightarrow> string \<Rightarrow> ostream" where
  "open_trunc dev d p = (if dv_openable dev p then (True, d(p \<mapsto> [])) else (False, d))"

definition open_app :: "device \<Rightarrow> disk \<Rightarrow> string \<Rightarrow> ostream" where
  "open_app dev d p = (if dv_openable dev p then (True, d(p \<mapsto> file_bytes d p)) else (False, d))"

definition stream_write :: "device \<Rightarrow> string \<Rightarrow> ostream \<Rightarrow> bytes \<Rightarrow> ostream" where
  "stream_write dev p s bs =
     (case s of (good, d) \<Rightarrow>
        if \<not> good then (False, d)
        else let old = file_bytes d p; fits = take (dv_room dev p - length old) bs
             in (length fits = length bs, d(p \<mapsto> old @ fits)))"

section \<open>Writing a ledger file\<close>

definition write_u64 :: "u64 \<Rightarrow> bytes" where
  "write_u64 v = map (\<lambda>i. ucast (drop_bit (56 - i * 8) v)) [0..<8]"

definition write_u32 :: "u32 \<Rightarrow> bytes" where
  "write_u32 v = map (\<lambda>i. ucast (drop_bit (24 - i * 8) v)) [0..<4]"

definition write_header :: "device \<Rightarrow> string \<Rightarrow> ostream \<Rightarrow> ledger_id \<Rightarrow> ostream" where
  "write_header dev p s i =
     (let s = stream_write dev p s (write_u64 kLedgerMagic);
          s = stream_write dev p s (write_u32 kSchemaVersion)
      in stream_write dev p s (to_bytes i))"

primrec write_frames ::
    "string \<Rightarrow> device \<Rightarrow> string \<Rightarrow> disk \<Rightarrow> ledger_entry list \<Rightarrow> (string + unit) \<times> disk" where
  "write_frames msg dev p d [] = (Inr (), d)"
| "write_frames msg dev p d (e # es) =
     (case encode_entry e of
        None \<Rightarrow> (Inl ''entry failed to encode'', d)
      | Some f \<Rightarrow>
          (case stream_write dev p (True, d) f of
             (good, d') \<Rightarrow>
               if \<not> good then (Inl msg, d') else write_frames msg dev p d' es))"

definition save_snapshot ::
    "device \<Rightarrow> disk \<Rightarrow> ledger_entry list \<Rightarrow> ledger_id \<Rightarrow> string \<Rightarrow> (string + unit) \<times> disk" where
  "save_snapshot dev d entries i p =
     (case open_trunc dev d p of (good, d) \<Rightarrow>
        if \<not> good then (Inl (''cannot open '' @ p), d)
        else case write_header dev p (True, d) i of (good, d) \<Rightarrow>
          if \<not> good then (Inl ''cannot write header'', d)
          else write_frames ''write failed'' dev p d entries)"

definition be_magic :: "bytes \<Rightarrow> u64" where
  "be_magic bs = foldl (\<lambda>m b. push_bit 8 m OR ucast b) 0 (take 8 bs)"

definition has_header :: "disk \<Rightarrow> string \<Rightarrow> bool" where
  "has_header d p =
     (case d p of None \<Rightarrow> False | Some bs \<Rightarrow> 8 \<le> length bs \<and> be_magic bs = kLedgerMagic)"

definition append_entries ::
    "device \<Rightarrow> disk \<Rightarrow> ledger_entry list \<Rightarrow> string \<Rightarrow> (string + unit) \<times> disk" where
  "append_entries dev d entries p =
     (case (if has_header d p then (True, d)
            else let i = (case entries of [] \<Rightarrow> id_default | e # _ \<Rightarrow> e_ledger e)
                 in case open_trunc dev d p of (good, d) \<Rightarrow>
                      if \<not> good then (False, d) else write_header dev p (True, d) i) of
        (created, d) \<Rightarrow>
          if \<not> created then (Inl ''cannot create file'', d)
          else case open_app dev d p of (good, d) \<Rightarrow>
            if \<not> good then (Inl ''cannot open for append'', d)
            else write_frames ''append write failed'' dev p d entries)"

section \<open>Reading a ledger file\<close>

record load_result =
  lr_ok :: bool
  lr_reason :: string
  lr_ledger_id :: ledger_id
  lr_entries :: "ledger_entry list"
  lr_fingerprint :: bytes
  lr_frame_count :: nat

datatype 'a scan = Scanned 'a | Refused string | ReadOutOfBounds

text \<open>The body of the loop of \<^verbatim>\<open>load\<close> at one position, given the identities seen so far.\<close>

definition load_step :: "ledger_entry_id list \<Rightarrow> bytes \<Rightarrow> (ledger_entry \<times> nat) scan" where
  "load_step ids data =
     (if length data < 8 then Refused ''truncated frame header''
      else let len = be32_at data 0 in
        if length data < unat len + 8 then Refused ''truncated frame payload''
        else case decode_entry data of
          Rejected \<Rightarrow> Refused ''corrupt frame or invalid record''
        | OutOfBounds \<Rightarrow> ReadOutOfBounds
        | Decoded e consumed \<Rightarrow>
            if consumed \<noteq> unat len + 8 then Refused ''frame length mismatch''
            else if e_id e \<in> set ids then Refused ''duplicate entry id''
            else Scanned (e, consumed))"

lemma load_step_Scanned:
  "load_step ids data = Scanned (e, n) \<longleftrightarrow>
     8 \<le> length data \<and> unat (be32_at data 0) + 8 \<le> length data \<and>
     decode_entry data = Decoded e n \<and> n = unat (be32_at data 0) + 8 \<and> e_id e \<notin> set ids"
  by (auto simp: load_step_def Let_def split: decoded.splits if_splits)

function load_loop :: "ledger_entry list \<Rightarrow> bytes \<Rightarrow> ledger_entry list \<times> unit scan" where
  "load_loop seen data =
     (if data = [] then (seen, Scanned ())
      else case load_step (map e_id seen) data of
        Scanned (e, consumed) \<Rightarrow> load_loop (seen @ [e]) (drop consumed data)
      | Refused r \<Rightarrow> (seen, Refused r)
      | ReadOutOfBounds \<Rightarrow> (seen, ReadOutOfBounds))"
  by pat_completeness auto
termination
  by (relation "measure (\<lambda>(seen, data). length data)") (auto simp: load_step_Scanned)

declare load_loop.simps [simp del]

definition load_failed :: "string \<Rightarrow> ledger_id \<Rightarrow> nat \<Rightarrow> load_result" where
  "load_failed r i k =
     \<lparr>lr_ok = False, lr_reason = r, lr_ledger_id = i, lr_entries = [],
      lr_fingerprint = replicate 16 0, lr_frame_count = k\<rparr>"

definition load_finish :: "ledger_id \<Rightarrow> ledger_entry list \<times> unit scan \<Rightarrow> load_result option" where
  "load_finish i res =
     (case snd res of
        Scanned _ \<Rightarrow>
          Some \<lparr>lr_ok = True,
                lr_reason = ''loaded '' @ show_nat (length (fst res)) @ '' frames'',
                lr_ledger_id = i, lr_entries = fst res,
                lr_fingerprint = ledger_fingerprint (fst res), lr_frame_count = length (fst res)\<rparr>
      | Refused r \<Rightarrow> Some (load_failed r i (length (fst res)))
      | ReadOutOfBounds \<Rightarrow> None)"

text \<open>\<^verbatim>\<open>LedgerStore::load\<close>; \<^term>\<open>None\<close> stands for an access outside the file's bytes.\<close>

definition load :: "disk \<Rightarrow> string \<Rightarrow> load_result option" where
  "load d p =
     (case d p of
        None \<Rightarrow> Some (load_failed (''cannot open '' @ p) id_default 0)
      | Some data \<Rightarrow>
          if length data < 8 + 4 + kIdentityBytes
          then Some (load_failed ''file too small for header'' id_default 0)
          else if be_magic data \<noteq> kLedgerMagic then Some (load_failed ''bad magic'' id_default 0)
          else if be32_at data 8 \<noteq> kSchemaVersion
          then Some (load_failed ''unsupported version'' id_default 0)
          else load_finish (from_bytes (drop 12 data))
                 (load_loop [] (drop (8 + 4 + kIdentityBytes) data)))"

definition recover :: "disk \<Rightarrow> string \<Rightarrow> load_result option" where
  "recover d p = load d p"

primrec replay_loop ::
    "authority_state option \<Rightarrow> ledger \<Rightarrow> ledger_entry list \<Rightarrow> (string + unit) \<times> ledger" where
  "replay_loop auth out [] = (Inr (), out)"
| "replay_loop auth out (e # es) =
     (case ledger_append auth out e of (ar, out') \<Rightarrow>
        if ar_status ar \<noteq> Accepted \<and> ar_status ar \<noteq> Duplicate
        then (Inl (''replay rejected entry: '' @ ar_reason ar), out')
        else replay_loop auth out' es)"

definition replay_into ::
    "disk \<Rightarrow> authority_state option \<Rightarrow> ledger \<Rightarrow> string \<Rightarrow> ((string + unit) \<times> ledger) option" where
  "replay_into d auth out p =
     (case load d p of
        None \<Rightarrow> None
      | Some res \<Rightarrow>
          if \<not> lr_ok res then Some (Inl (lr_reason res), out)
          else Some (replay_loop auth out (lr_entries res)))"

section \<open>Reading back frames\<close>

definition frame_of :: "ledger_entry \<Rightarrow> bytes" where
  "frame_of e = frame (entry_payload e)"

definition frames_of :: "ledger_entry list \<Rightarrow> bytes" where
  "frames_of es = concat (map frame_of es)"

definition header_of :: "ledger_id \<Rightarrow> bytes" where
  "header_of i = write_u64 kLedgerMagic @ write_u32 kSchemaVersion @ to_bytes i"

lemma frames_of_simps [simp]:
  "frames_of [] = []" "frames_of (e # es) = frame_of e @ frames_of es"
  by (simp_all add: frames_of_def)

lemma frame_of_length: "8 \<le> length (frame_of e)" "frame_of e \<noteq> []"
  by (simp_all add: frame_of_def frame_def) (simp add: put_u32_def put_u8_def)

lemma encode_frame_of: "encodable e \<Longrightarrow> encode_entry e = Some (frame_of e)"
  using encodable_frame by (simp add: frame_of_def)

lemma frame_of_normalize [simp]: "frame_of (normalize_entry e) = frame_of e"
  by (simp add: frame_of_def)

lemma load_loop_Nil [simp]: "load_loop seen [] = (seen, Scanned ())"
  by (simp add: load_loop.simps)

lemma be32_at_frame_of:
  assumes "encodable e"
  shows "unat (be32_at (frame_of e @ rest) 0) + 8 = length (frame_of e)"
  using assms unat_word_of_length [of "length (entry_payload e)"]
  by (simp add: encodable_def frame_of_def frame_def be32_at_header)

lemma load_step_frame:
  assumes "encodable e" "e_id e \<notin> set ids"
  shows "load_step ids (frame_of e @ rest) = Scanned (normalize_entry e, length (frame_of e))"
  using be32_at_frame_of [OF assms(1), of rest] frame_of_length(1) [of e] assms(2)
    decode_encode_append [OF assms(1) encode_frame_of [OF assms(1)], of rest]
  by (simp add: load_step_Scanned)

text \<open>Frames of entries with new identities are all read, in order.\<close>

lemma load_loop_frames:
  "list_all encodable es \<Longrightarrow> distinct (map e_id es) \<Longrightarrow> e_id ` set seen \<inter> e_id ` set es = {} \<Longrightarrow>
     load_loop seen (frames_of es @ rest) = load_loop (seen @ map normalize_entry es) rest"
proof (induction es arbitrary: seen)
  case (Cons e es)
  have "load_step (map e_id seen) (frame_of e @ frames_of es @ rest) =
      Scanned (normalize_entry e, length (frame_of e))"
    using Cons.prems by (intro load_step_frame) auto
  then have "load_loop seen (frames_of (e # es) @ rest) =
      load_loop (seen @ [normalize_entry e]) (frames_of es @ rest)"
    using frame_of_length(2) [of e] by (simp add: load_loop.simps [of seen])
  also have "\<dots> = load_loop ((seen @ [normalize_entry e]) @ map normalize_entry es) rest"
    using Cons.prems by (intro Cons.IH) auto
  finally show ?case by simp
qed simp

lemma load_step_torn:
  assumes "encodable e" "k < length (frame_of e)"
  shows "\<exists>r. load_step ids (take k (frame_of e)) = Refused r"
proof (cases "k < 8")
  case False
  have "be32_at (take k (frame_of e)) 0 = be32_at (frame_of e @ []) 0"
    using False assms(2) by (simp add: be32_at_def)
  then have "unat (be32_at (take k (frame_of e)) 0) + 8 = length (frame_of e)"
    using be32_at_frame_of [OF assms(1), of "[]"] by simp
  with False assms(2) show ?thesis by (simp add: load_step_def Let_def)
qed (use assms(2) in \<open>simp add: load_step_def\<close>)

text \<open>A stream of frames cut at any byte is refused or read as a prefix of the entries.\<close>

lemma load_loop_torn:
  "list_all encodable es \<Longrightarrow> distinct (map e_id es) \<Longrightarrow> e_id ` set seen \<inter> e_id ` set es = {} \<Longrightarrow>
     \<exists>m r. load_loop seen (take k (frames_of es)) = (seen @ take m (map normalize_entry es), r) \<and>
       r \<noteq> ReadOutOfBounds"
proof (induction es arbitrary: seen k)
  case (Cons e es)
  show ?case
  proof (cases "k < length (frame_of e)")
    case True
    then have "take k (frames_of (e # es)) = take k (frame_of e)" by simp
    moreover obtain r where "load_step (map e_id seen) (take k (frame_of e)) = Refused r"
      using load_step_torn [of e k "map e_id seen"] Cons.prems(1) True by auto
    ultimately show ?thesis
      by (intro exI [of _ 0]) (auto simp: load_loop.simps [of seen])
  next
    case False
    then have t: "take k (frames_of (e # es)) = frames_of [e] @ take (k - length (frame_of e)) (frames_of es)"
      by simp
    have "load_loop seen (take k (frames_of (e # es))) =
        load_loop (seen @ [normalize_entry e]) (take (k - length (frame_of e)) (frames_of es))"
      unfolding t using Cons.prems by (subst load_loop_frames) auto
    moreover have "e_id ` set (seen @ [normalize_entry e]) \<inter> e_id ` set es = {}"
      using Cons.prems by auto
    with Cons.IH [of "seen @ [normalize_entry e]" "k - length (frame_of e)"] Cons.prems(1,2)
    obtain m r where
      "load_loop (seen @ [normalize_entry e]) (take (k - length (frame_of e)) (frames_of es)) =
        ((seen @ [normalize_entry e]) @ take m (map normalize_entry es), r)" "r \<noteq> ReadOutOfBounds"
      by auto
    ultimately show ?thesis by (intro exI [of _ "Suc m"] exI [of _ r]) simp
  qed
qed simp

lemma be32_at_prefix: "k + 4 \<le> length a \<Longrightarrow> be32_at (a @ b) k = be32_at a k"
  by (simp add: be32_at_def nth_append)

lemma load_step_append:
  assumes "load_step ids a = Scanned (e, n)"
  shows "load_step ids (a @ b) = Scanned (e, n)"
proof -
  from assms have a: "8 \<le> length a" "unat (be32_at a 0) + 8 \<le> length a" "decode_entry a = Decoded e n"
      "n = unat (be32_at a 0) + 8" "e_id e \<notin> set ids"
    by (simp_all add: load_step_Scanned)
  then have "decode_entry (a @ b) = Decoded e n"
    by (simp add: decode_entry_def be32_at_prefix Let_def split: if_splits option.splits)
  with a show ?thesis by (simp add: load_step_Scanned be32_at_prefix)
qed

lemma load_step_bound: "load_step ids data = Scanned (e, n) \<Longrightarrow> n \<le> length data"
  by (simp add: load_step_Scanned)

text \<open>Appending bytes to a loadable stream continues the loop where it ended.\<close>

lemma load_loop_append:
  "load_loop seen a = (seen', Scanned ()) \<Longrightarrow> load_loop seen (a @ b) = load_loop seen' b"
proof (induction seen a rule: load_loop.induct)
  case (1 seen a)
  show ?case
  proof (cases "a = []")
    case False
    then obtain e n where st: "load_step (map e_id seen) a = Scanned (e, n)"
        and rest: "load_loop (seen @ [e]) (drop n a) = (seen', Scanned ())"
      using 1(2) by (subst (asm) load_loop.simps) (auto split: scan.splits)
    have "load_loop seen (a @ b) = load_loop (seen @ [e]) (drop n a @ b)"
      using False load_step_append [OF st, of b] load_step_bound [OF st]
      by (subst load_loop.simps) simp
    also have "\<dots> = load_loop seen' b"
      using 1(1) [OF False st, of e n] rest by simp
    finally show ?thesis .
  qed (use 1 in simp)
qed

definition entries_sound :: "ledger_entry list \<Rightarrow> bool" where
  "entries_sound es =
     (distinct (map e_id es) \<and> (\<forall>e \<in> set es. content_encodable e \<and> map_wf (e_metadata e)))"

lemma load_loop_sound:
  "load_loop seen data = (seen', r) \<Longrightarrow> entries_sound seen \<Longrightarrow> entries_sound seen' \<and> r \<noteq> ReadOutOfBounds"
proof (induction seen data rule: load_loop.induct)
  case (1 seen data)
  show ?case
  proof (cases "data = []")
    case False
    show ?thesis
    proof (cases "load_step (map e_id seen) data")
      case (Scanned x)
      obtain e n where x: "x = (e, n)" by (cases x)
      have "entries_sound (seen @ [e])"
        using 1(3) Scanned decode_payload_sound [OF decode_entry_Decoded(5), of data e n]
        by (auto simp: entries_sound_def x load_step_Scanned)
      then show ?thesis
        using 1(1) [OF False Scanned x [symmetric]] 1(2) False Scanned x by (simp add: load_loop.simps [of seen])
    next
      case (Refused m)
      with 1 False show ?thesis by (auto simp: load_loop.simps [of seen])
    next
      case ReadOutOfBounds
      then have False
        by (auto simp: load_step_def Let_def decode_entry_out_of_bounds
            split: if_splits decoded.splits)
      then show ?thesis ..
    qed
  qed (use 1 in auto)
qed

section \<open>What a save or an append leaves on the disk\<close>

lemma length_header_of [simp]: "length (header_of i) = 28"
  by (simp add: header_of_def write_u64_def write_u32_def)

lemma header_of_read:
  "be_magic (header_of i @ r) = kLedgerMagic" "be32_at (header_of i @ r) 8 = kSchemaVersion"
  "from_bytes (drop 12 (header_of i @ r)) = i" "drop 28 (header_of i @ r) = r"
proof -
  have up8: "[0..<8] = [0, 1, 2, 3, 4, 5, 6, 7 :: nat]" and up4: "[0..<4] = [0, 1, 2, 3 :: nat]"
    by (simp_all add: upt_rec)
  show "be_magic (header_of i @ r) = kLedgerMagic"
    by (simp add: be_magic_def header_of_def write_u64_def up8 kLedgerMagic_def)
  show "be32_at (header_of i @ r) 8 = kSchemaVersion"
    by (simp add: be32_at_def header_of_def write_u64_def write_u32_def up8 up4 kSchemaVersion_def)
  show "from_bytes (drop 12 (header_of i @ r)) = i"
    using from_to_bytes [of i r] by (simp add: header_of_def write_u64_def write_u32_def)
  show "drop 28 (header_of i @ r) = r"
    by simp
qed

text \<open>Bytes a stream wrote: a prefix of what was asked, all of it when the stream is still good.\<close>

definition wrote :: "disk \<Rightarrow> string \<Rightarrow> bytes \<Rightarrow> bytes \<Rightarrow> bool \<Rightarrow> bool" where
  "wrote d p old bs complete = (\<exists>k. d p = Some (old @ take k bs) \<and> (complete \<longrightarrow> length bs \<le> k))"

lemma wrote_complete: "wrote d p old bs True \<longleftrightarrow> d p = Some (old @ bs)"
  by (auto simp: wrote_def intro: exI [of _ "length bs"])

lemma wrote_partial: "wrote d p old bs c \<Longrightarrow> wrote d p old (bs @ rest) False"
proof -
  assume "wrote d p old bs c"
  then obtain k where "d p = Some (old @ take k bs)" by (auto simp: wrote_def)
  then have "d p = Some (old @ take (min k (length bs)) (bs @ rest))"
    by (cases "k \<le> length bs") (simp_all add: min_def)
  then show ?thesis unfolding wrote_def by blast
qed

lemma wrote_more: "wrote d p (old @ bs) rest c \<Longrightarrow> wrote d p old (bs @ rest) c"
proof -
  assume "wrote d p (old @ bs) rest c"
  then obtain k where "d p = Some (old @ take (length bs + k) (bs @ rest))" "c \<longrightarrow> length rest \<le> k"
    by (auto simp: wrote_def)
  then show ?thesis unfolding wrote_def by (intro exI [of _ "length bs + k"]) simp
qed

lemma stream_write_wrote:
  assumes "stream_write dev p (True, d) bs = (good, d')" "d p = Some old"
  shows "wrote d' p old bs good" "length old + length bs \<le> dv_room dev p \<Longrightarrow> good"
proof -
  let ?k = "dv_room dev p - length old"
  have "d' p = Some (old @ take ?k bs)" and good: "good \<longleftrightarrow> length bs \<le> ?k"
    using assms(1) by (auto simp: stream_write_def file_bytes_def Let_def min_def assms(2) split: if_splits)
  then show "wrote d' p old bs good" unfolding wrote_def by blast
  show "length old + length bs \<le> dv_room dev p \<Longrightarrow> good" using good by simp
qed

lemma stream_write_bad [simp]: "stream_write dev p (False, d) bs = (False, d)"
  by (simp add: stream_write_def)

lemma write_frames_wrote:
  assumes "write_frames msg dev p d es = (res, d')" "d p = Some old" "list_all encodable es"
  shows "wrote d' p old (frames_of es) (res = Inr ())"
    "length old + length (frames_of es) \<le> dv_room dev p \<Longrightarrow> res = Inr ()"
proof -
  have "wrote d' p old (frames_of es) (res = Inr ()) \<and>
      (length old + length (frames_of es) \<le> dv_room dev p \<longrightarrow> res = Inr ())"
    using assms
  proof (induction es arbitrary: d old)
    case Nil
    then show ?case by (simp add: wrote_def)
  next
    case (Cons e es)
    obtain good d1 where w: "stream_write dev p (True, d) (frame_of e) = (good, d1)"
      by (cases "stream_write dev p (True, d) (frame_of e)")
    note w1 = stream_write_wrote [OF w Cons.prems(2)]
    have enc: "encode_entry e = Some (frame_of e)"
      using Cons.prems(3) by (simp add: encode_frame_of)
    show ?case
    proof (cases good)
      case True
      with w1(1) have "d1 p = Some (old @ frame_of e)" by (simp add: wrote_complete)
      moreover have "write_frames msg dev p d1 es = (res, d')"
        using Cons.prems(1) enc w True by simp
      ultimately have "wrote d' p (old @ frame_of e) (frames_of es) (res = Inr ()) \<and>
          (length (old @ frame_of e) + length (frames_of es) \<le> dv_room dev p \<longrightarrow> res = Inr ())"
        using Cons.IH Cons.prems(3) by simp
      then show ?thesis by (simp add: wrote_more)
    next
      case False
      with Cons.prems(1) enc w have "res = Inl msg" "d' = d1" by simp_all
      with w1 False show ?thesis using wrote_partial [of d1 p old "frame_of e" good "frames_of es"] by auto
    qed
  qed
  then show "wrote d' p old (frames_of es) (res = Inr ())"
    "length old + length (frames_of es) \<le> dv_room dev p \<Longrightarrow> res = Inr ()" by blast+
qed

lemma write_header_wrote:
  assumes "write_header dev p (True, d) i = (good, d')" "d p = Some []"
  shows "wrote d' p [] (header_of i) good" "28 \<le> dv_room dev p \<Longrightarrow> good"
proof -
  obtain g1 d1 where w1: "stream_write dev p (True, d) (write_u64 kLedgerMagic) = (g1, d1)"
    by (cases "stream_write dev p (True, d) (write_u64 kLedgerMagic)")
  obtain g2 d2 where w2: "stream_write dev p (g1, d1) (write_u32 kSchemaVersion) = (g2, d2)"
    by (cases "stream_write dev p (g1, d1) (write_u32 kSchemaVersion)")
  have w3: "stream_write dev p (g2, d2) (to_bytes i) = (good, d')"
    using assms(1) w1 w2 by (simp add: write_header_def)
  note s1 = stream_write_wrote [OF w1 assms(2)]
  have len: "length (write_u64 kLedgerMagic) = 8" "length (write_u32 kSchemaVersion) = 4"
    by (simp_all add: write_u64_def write_u32_def)
  have *: "wrote d' p [] (header_of i) good \<and> (28 \<le> dv_room dev p \<longrightarrow> good)"
  proof (cases g1)
    case False
    with w2 w3 s1 show ?thesis
      using wrote_partial [OF s1(1)] len by (auto simp: header_of_def)
  next
    case True
    with s1 have d1: "d1 p = Some (write_u64 kLedgerMagic)" by (simp add: wrote_complete)
    note s2 = stream_write_wrote [OF w2 [unfolded True [THEN eqTrueI]] d1]
    show ?thesis
    proof (cases g2)
      case False
      with w3 s2 show ?thesis
        using wrote_partial [OF wrote_more [of d2 p "[]"]] len by (fastforce simp: header_of_def)
    next
      case True
      with s2 have d2: "d2 p = Some (write_u64 kLedgerMagic @ write_u32 kSchemaVersion)"
        by (simp add: wrote_complete)
      note s3 = stream_write_wrote [OF w3 [unfolded True [THEN eqTrueI]] d2]
      show ?thesis
        using s3 wrote_more [of d' p "[]" "write_u64 kLedgerMagic @ write_u32 kSchemaVersion"] len
        by (simp add: header_of_def)
    qed
  qed
  then show "wrote d' p [] (header_of i) good" "28 \<le> dv_room dev p \<Longrightarrow> good" by blast+
qed

lemma save_snapshot_wrote:
  assumes "save_snapshot dev d es i p = (res, d')" "list_all encodable es" "dv_openable dev p"
  shows "wrote d' p [] (header_of i @ frames_of es) (res = Inr ())"
    "28 + length (frames_of es) \<le> dv_room dev p \<Longrightarrow> res = Inr ()"
proof -
  let ?d = "d(p \<mapsto> [])"
  obtain good d1 where h: "write_header dev p (True, ?d) i = (good, d1)"
    by (cases "write_header dev p (True, ?d) i")
  note w = write_header_wrote [OF h]
  have *: "wrote d' p [] (header_of i @ frames_of es) (res = Inr ()) \<and>
      (28 + length (frames_of es) \<le> dv_room dev p \<longrightarrow> res = Inr ())"
  proof (cases good)
    case True
    with w have d1: "d1 p = Some (header_of i)" by (simp add: wrote_complete)
    have "write_frames ''write failed'' dev p d1 es = (res, d')"
      using assms h True by (simp add: save_snapshot_def open_trunc_def)
    from write_frames_wrote [OF this d1 assms(2)] show ?thesis
      using wrote_more [of d' p "[]"] by simp
  next
    case False
    then have "d' = d1" "res = Inl ''cannot write header''"
      using assms h by (auto simp: save_snapshot_def open_trunc_def)
    with w False show ?thesis
      using wrote_partial [of d1 p "[]" "header_of i" good "frames_of es"] by auto
  qed
  then show "wrote d' p [] (header_of i @ frames_of es) (res = Inr ())"
    "28 + length (frames_of es) \<le> dv_room dev p \<Longrightarrow> res = Inr ()" by blast+
qed

section \<open>Loading and replaying\<close>

lemma load_finish_simps:
  "lr_ok (the (load_finish i (seen, Scanned ())))"
  "load_finish i res = Some r \<Longrightarrow> lr_ok r \<longleftrightarrow> snd res = Scanned ()"
  "load_finish i res = Some r \<Longrightarrow> lr_ok r \<Longrightarrow>
     lr_entries r = fst res \<and> lr_ledger_id r = i \<and>
     lr_fingerprint r = ledger_fingerprint (fst res) \<and> lr_frame_count r = length (fst res)"
  "load_finish i res = None \<longleftrightarrow> snd res = ReadOutOfBounds"
  by (auto simp: load_finish_def load_failed_def split: scan.splits)

lemma load_header_of:
  assumes "d p = Some (header_of i @ r)"
  shows "load d p = load_finish i (load_loop [] r)"
  unfolding load_def assms option.case
  by (simp add: header_of_read [simplified] kIdentityBytes_def)

lemma load_ok_parts:
  assumes "load d p = Some r" "lr_ok r"
  obtains data where "d p = Some data" "28 \<le> length data" "be_magic data = kLedgerMagic"
    "be32_at data 8 = kSchemaVersion"
    "load_finish (from_bytes (drop 12 data)) (load_loop [] (drop 28 data)) = Some r"
  using assms
  by (auto simp: load_def load_failed_def kIdentityBytes_def split: option.splits if_splits)

lemma from_bytes_append: "16 \<le> length a \<Longrightarrow> from_bytes (a @ b) = from_bytes a"
proof -
  assume "16 \<le> length a"
  then have "(a @ b) ! k = a ! k" if "k < 16" for k using that by (simp add: nth_append)
  then show ?thesis by (simp add: from_bytes_def be64_at_def)
qed

lemma load_torn_header:
  assumes "d p = Some (take k (header_of i))" "k < 28"
  shows "\<exists>r. load d p = Some r \<and> \<not> lr_ok r"
  using assms by (simp add: load_def load_failed_def kIdentityBytes_def)

lemma encode_normalize [simp]: "encode_entry (normalize_entry e) = encode_entry e"
  by (simp add: encode_entry_def)

lemma ledger_fingerprint_normalize [simp]:
  "ledger_fingerprint (map normalize_entry es) = ledger_fingerprint es"
proof -
  have "foldl feed_entry m (map normalize_entry es) = foldl feed_entry m es" for m
    by (induction es arbitrary: m) (simp_all add: feed_entry_def)
  then show ?thesis by (simp add: ledger_fingerprint_def)
qed

lemma encodable_valid: "encodable e \<Longrightarrow> content_is_valid e"
  by (auto simp: encodable_def encode_entry_def content_is_valid_iff split: if_splits)

lemma content_is_valid_normalize [simp]: "content_is_valid (normalize_entry e) = content_is_valid e"
  by (simp add: content_is_valid_iff)

lemma replay_loop_append_all:
  "ledger_inv l \<Longrightarrow> \<forall>e \<in> set es. admissible auth e \<Longrightarrow> distinct (map e_id es) \<Longrightarrow>
     e_id ` set es \<inter> e_id ` set (l_entries l) = {} \<Longrightarrow>
     replay_loop auth l es = (Inr (), append_all auth l es)"
proof (induction es arbitrary: l)
  case (Cons e es)
  have acc: "ar_status (fst (ledger_append auth l e)) = Accepted"
    using Cons.prems log.accepted_iff [OF Cons.prems(1), of auth e] by auto
  moreover have "replay_loop auth (snd (ledger_append auth l e)) es =
      (Inr (), append_all auth (snd (ledger_append auth l e)) es)"
    using Cons.prems acc ledger_inv_append [OF Cons.prems(1)]
    by (intro Cons.IH) (auto simp: append_entries_cases(1))
  ultimately show ?case by (simp add: case_prod_beta)
qed simp

lemma replay_entries:
  assumes "ledger_inv l" "\<forall>e \<in> set es. admissible auth e" "distinct (map e_id es)"
    "e_id ` set es \<inter> e_id ` set (l_entries l) = {}"
  shows "\<exists>l'. replay_loop auth l es = (Inr (), l') \<and> ledger_inv l' \<and> snapshot l' = snapshot l @ es"
proof -
  have "filter (admissible auth) es = es" using assms(2) by simp
  then show ?thesis
    using replay_loop_append_all [OF assms] log.run_fresh [OF assms(1,3,4), of auth]
      ledger_inv_append_all [OF assms(1), of auth es]
    by (simp add: append_all_foldl snapshot_def)
qed

lemma admissible_detached: "admissible None e \<longleftrightarrow> content_is_valid e"
  by (simp add: admissible_def passes_fence_def)

definition plenty :: device where
  "plenty = \<lparr>dv_openable = (\<lambda>_. True), dv_room = (\<lambda>_. 100000)\<rparr>"

lemma length_frame_of_default: "length (frame_of (entry_default\<lparr>e_id := x\<rparr>)) = 361"
  by (simp add: frame_of_def entry_payload_def entry_default_def put_opt_id_def put_quantity_def
      put_source_def put_authority_def put_metadata_def)

section \<open>Properties\<close>

lemma save_then_load:
  assumes "list_all encodable es" "distinct (map e_id es)"
    and "dv_openable dev p" "28 + length (frames_of es) \<le> dv_room dev p"
  shows "\<exists>d' r. save_snapshot dev d es i p = (Inr (), d') \<and> load d' p = Some r \<and> lr_ok r \<and>
    lr_ledger_id r = i \<and> lr_entries r = map normalize_entry es \<and>
    lr_fingerprint r = ledger_fingerprint es \<and> lr_frame_count r = length es"
proof -
  obtain res d' where s: "save_snapshot dev d es i p = (res, d')"
    by (cases "save_snapshot dev d es i p")
  note w = save_snapshot_wrote [OF s assms(1,3)]
  have res: "res = Inr ()" using w(2) assms(4) by simp
  with w(1) have "d' p = Some (header_of i @ frames_of es)" by (simp add: wrote_complete)
  then have "load d' p = load_finish i (map normalize_entry es, Scanned ())"
    using load_loop_frames [OF assms(1,2), of "[]" "[]"] by (simp add: load_header_of)
  with s res show ?thesis by (simp add: load_finish_def)
qed

text \<open>C12: Saving encodable entries with distinct identities on a device with room succeeds, and
  loading the file gives back the ledger's identity, the entries in order (up to absent optional
  identities) and the fingerprint of the entries that were saved.\<close>

theorem save_load_roundtrip:
  assumes "list_all encodable es" "distinct (map e_id es)"
    and "dv_openable dev p" "28 + length (frames_of es) \<le> dv_room dev p"
  shows "\<exists>d' r. save_snapshot dev d es i p = (Inr (), d') \<and> load d' p = Some r \<and> lr_ok r \<and>
    lr_ledger_id r = i \<and> lr_entries r = map normalize_entry es \<and>
    lr_fingerprint r = ledger_fingerprint es \<and> lr_frame_count r = length es"
  by (rule save_then_load) (rule assms)+

theorem save_load_roundtrip_witness:
  "\<exists>d' r. save_snapshot plenty Map.empty
      [entry_default\<lparr>e_id := Id128 0 1\<rparr>, entry_default\<lparr>e_id := Id128 0 2\<rparr>] (Id128 0 9) ''l'' = (Inr (), d') \<and>
    load d' ''l'' = Some r \<and> lr_ok r \<and> lr_frame_count r = 2"
proof -
  let ?es = "[entry_default\<lparr>e_id := Id128 0 1\<rparr>, entry_default\<lparr>e_id := Id128 0 2\<rparr>]"
  have "list_all encodable ?es" "distinct (map e_id ?es)" "dv_openable plenty ''l''"
      "28 + length (frames_of ?es) \<le> dv_room plenty ''l''"
    by (simp_all add: entry_default_encodable length_frame_of_default plenty_def)
  from save_load_roundtrip [OF this, of Map.empty "Id128 0 9"] show ?thesis by auto
qed

text \<open>C11: Crash safety of a snapshot: whatever the device does to the writes (a save that fails at
  any byte included), loading the file afterwards never reads outside it and either refuses the
  file or returns a prefix of the saved entries; it is never a different list.\<close>

theorem save_snapshot_crash_safe:
  assumes "list_all encodable es" "distinct (map e_id es)" "dv_openable dev p"
    and "save_snapshot dev d es i p = (res, d')"
  shows "\<exists>r. load d' p = Some r \<and>
    (lr_ok r \<longrightarrow> lr_ledger_id r = i \<and> (\<exists>m. lr_entries r = take m (map normalize_entry es)))"
proof -
  obtain k where k: "d' p = Some (take k (header_of i @ frames_of es))"
    using save_snapshot_wrote(1) [OF assms(4,1,3)] by (auto simp: wrote_def)
  show ?thesis
  proof (cases "k < 28")
    case True
    with k load_torn_header [of d' p k i] show ?thesis by auto
  next
    case False
    with k have "d' p = Some (header_of i @ take (k - 28) (frames_of es))" by simp
    then have "load d' p = load_finish i (load_loop [] (take (k - 28) (frames_of es)))"
      by (rule load_header_of)
    moreover obtain m x where
      "load_loop [] (take (k - 28) (frames_of es)) = (take m (map normalize_entry es), x)"
      "x \<noteq> ReadOutOfBounds"
      using load_loop_torn [OF assms(1,2), of "[]" "k - 28"] by auto
    ultimately show ?thesis
      by (auto simp: load_finish_def load_failed_def split: scan.split)
  qed
qed

theorem save_snapshot_crash_safe_witness:
  "\<exists>r. load (snd (save_snapshot \<lparr>dv_openable = \<lambda>_. True, dv_room = \<lambda>_. 100\<rparr> Map.empty
      [entry_default\<lparr>e_id := Id128 0 1\<rparr>] (Id128 0 9) ''l'')) ''l'' = Some r"
  using save_snapshot_crash_safe [of "[entry_default\<lparr>e_id := Id128 0 1\<rparr>]"
      "\<lparr>dv_openable = \<lambda>_. True, dv_room = \<lambda>_. 100\<rparr>" "''l''" Map.empty "Id128 0 9"]
  by (simp add: entry_default_encodable) (metis prod.collapse)

text \<open>Appending to a file that loads keeps what it holds: after the append, complete or cut
  short by the device, the file is refused or loads as the old entries followed by a prefix of the
  new ones, and after a successful append it loads as all of them.\<close>

theorem append_entries_extends:
  assumes old: "load d p = Some r" "lr_ok r"
    and es: "list_all encodable es" "distinct (map e_id es)"
      "e_id ` set (lr_entries r) \<inter> e_id ` set es = {}"
    and dev: "dv_openable dev p" "append_entries dev d es p = (res, d')"
  shows "\<exists>r' m. load d' p = Some r' \<and>
    (lr_ok r' \<longrightarrow> lr_ledger_id r' = lr_ledger_id r \<and>
       lr_entries r' = lr_entries r @ take m (map normalize_entry es)) \<and>
    (res = Inr () \<longrightarrow> lr_ok r' \<and> lr_entries r' = lr_entries r @ map normalize_entry es)"
proof -
  obtain data where data: "d p = Some data" "28 \<le> length data" "be_magic data = kLedgerMagic"
      "be32_at data 8 = kSchemaVersion"
      "load_finish (from_bytes (drop 12 data)) (load_loop [] (drop 28 data)) = Some r"
    by (rule load_ok_parts [OF old])
  have loop: "load_loop [] (drop 28 data) = (lr_entries r, Scanned ())"
    using load_finish_simps(2,3) [OF data(5)] old(2) by (simp add: prod_eq_iff)
  let ?d = "d(p \<mapsto> data)"
  have "write_frames ''append write failed'' dev p ?d es = (res, d')" "?d p = Some data"
    using dev data(1-3) by (simp_all add: append_entries_def has_header_def open_app_def file_bytes_def)
  from write_frames_wrote(1) [OF this es(1)] obtain k
    where k: "d' p = Some (data @ take k (frames_of es))" "res = Inr () \<longrightarrow> length (frames_of es) \<le> k"
    by (auto simp: wrote_def)
  have "(from_bytes (drop 12 data @ take k (frames_of es)) :: ledger_id) = from_bytes (drop 12 data)"
    using data(2) by (intro from_bytes_append) simp
  then have "load d' p = load_finish (from_bytes (drop 12 data)) (load_loop (lr_entries r) (take k (frames_of es)))"
    using k(1) data(2-4) load_loop_append [OF loop, of "take k (frames_of es)"]
    by (simp add: load_def kIdentityBytes_def be_magic_def be32_at_prefix)
  moreover obtain m x where "load_loop (lr_entries r) (take k (frames_of es)) =
      (lr_entries r @ take m (map normalize_entry es), x)" "x \<noteq> ReadOutOfBounds"
    using load_loop_torn [OF es] by blast
  moreover have "res = Inr () \<Longrightarrow> load_loop (lr_entries r) (take k (frames_of es)) =
      (lr_entries r @ map normalize_entry es, Scanned ())"
    using load_loop_frames [OF es, of "[]"] k(2) by simp
  moreover have "lr_ledger_id r = from_bytes (drop 12 data)"
    using load_finish_simps(3) [OF data(5) old(2)] by simp
  ultimately show ?thesis
    by (intro exI [of _ "the (load d' p)"] exI [of _ m])
      (auto simp: load_finish_def load_failed_def split: scan.split)
qed

theorem append_entries_extends_witness:
  "\<exists>r'. load (snd (append_entries plenty [''l'' \<mapsto> header_of (Id128 0 9)]
      [entry_default\<lparr>e_id := Id128 0 1\<rparr>] ''l'')) ''l'' = Some r'"
proof -
  let ?d = "[''l'' \<mapsto> header_of (Id128 0 9)] :: disk"
  have "load ?d ''l'' = load_finish (Id128 0 9) ([], Scanned ())"
    using load_header_of [of ?d "''l''" "Id128 0 9" "[]"] by simp
  then obtain r where "load ?d ''l'' = Some r" "lr_ok r" "lr_entries r = []"
    by (simp add: load_finish_def)
  from append_entries_extends [OF this(1,2), of "[entry_default\<lparr>e_id := Id128 0 1\<rparr>]" plenty] this(3)
  show ?thesis by (simp add: entry_default_encodable plenty_def) (metis prod.collapse)
qed

text \<open>C13: Loading is total and sound for every file, damaged or hostile ones included: it never
  reads outside the file, and what it accepts has distinct identities, finite quantities that are
  non-negative for physical resources, and the fingerprint of the entries it returns.\<close>

theorem load_sound:
  "\<exists>r. load d p = Some r \<and>
     (if lr_ok r
      then entries_sound (lr_entries r) \<and> lr_fingerprint r = ledger_fingerprint (lr_entries r) \<and>
        lr_frame_count r = length (lr_entries r)
      else lr_entries r = [])"
proof -
  have "entries_sound (fst (load_loop [] data)) \<and> snd (load_loop [] data) \<noteq> ReadOutOfBounds" for data
    using load_loop_sound [of "[]" data] by (cases "load_loop [] data") (simp add: entries_sound_def)
  then show ?thesis
    by (auto simp: load_def load_failed_def load_finish_def split: option.split scan.split)
qed

lemma replay_loaded:
  assumes "load d p = Some r" "lr_ok r" "\<forall>e \<in> set (lr_entries r). content_is_valid e"
  shows "\<exists>l. replay_into d None (ledger_new i) p = Some (Inr (), l) \<and> ledger_inv l \<and>
    snapshot l = lr_entries r \<and> ledger_fingerprint (snapshot l) = lr_fingerprint r"
proof -
  have "entries_sound (lr_entries r) \<and> lr_fingerprint r = ledger_fingerprint (lr_entries r)"
  proof -
    obtain data where "load_finish (from_bytes (drop 12 data)) (load_loop [] (drop 28 data)) = Some r"
      by (rule load_ok_parts [OF assms(1,2)])
    then show ?thesis
      using load_finish_simps(3) [OF _ assms(2)] load_loop_sound [of "[]" "drop 28 data"]
      by (metis entries_sound_def distinct.simps(1) empty_iff list.set(1) list.simps(8) prod.collapse)
  qed
  then have "distinct (map e_id (lr_entries r))" and fp: "lr_fingerprint r = ledger_fingerprint (lr_entries r)"
    by (simp_all add: entries_sound_def)
  with replay_entries [OF ledger_inv_new [of i], of "lr_entries r" None] assms(3)
  show ?thesis
    using assms(1,2) by (auto simp: replay_into_def admissible_detached ledger_new_def snapshot_def)
qed

text \<open>Replaying a loaded file into an empty ledger without authority succeeds when its counts are
  integral, and reproduces the entries, so the rebuilt ledger has the file's fingerprint.\<close>

theorem replay_rebuilds:
  assumes "load d p = Some r" "lr_ok r" "\<forall>e \<in> set (lr_entries r). content_is_valid e"
  shows "\<exists>l. replay_into d None (ledger_new i) p = Some (Inr (), l) \<and> ledger_inv l \<and>
    snapshot l = lr_entries r \<and> ledger_fingerprint (snapshot l) = lr_fingerprint r"
  by (rule replay_loaded) (rule assms)+

theorem replay_rebuilds_witness:
  "\<exists>l. replay_into [''l'' \<mapsto> header_of (Id128 0 9)] None (ledger_new (Id128 0 9)) ''l'' = Some (Inr (), l) \<and>
     snapshot l = []"
proof -
  let ?d = "[''l'' \<mapsto> header_of (Id128 0 9)] :: disk"
  have "load ?d ''l'' = load_finish (Id128 0 9) ([], Scanned ())"
    using load_header_of [of ?d "''l''" "Id128 0 9" "[]"] by simp
  then obtain r where "load ?d ''l'' = Some r" "lr_ok r" "lr_entries r = []"
    by (simp add: load_finish_def)
  with replay_rebuilds [OF this(1,2), of "Id128 0 9"] show ?thesis by auto
qed

text \<open>Appending to a file that does not start with the magic number replaces it: the old bytes
  are gone and the file holds a header and the new frames only.\<close>

theorem append_entries_replaces:
  assumes "\<not> has_header d p" "list_all encodable es" "dv_openable dev p"
    and "28 + length (frames_of es) \<le> dv_room dev p"
  shows "\<exists>d' i. append_entries dev d es p = (Inr (), d') \<and> d' p = Some (header_of i @ frames_of es)"
proof -
  let ?i = "case es of [] \<Rightarrow> id_default | e # _ \<Rightarrow> e_ledger e"
  obtain good d1 where h: "write_header dev p (True, d(p \<mapsto> [])) ?i = (good, d1)"
    by (cases "write_header dev p (True, d(p \<mapsto> [])) ?i")
  have good: good using write_header_wrote(2) [OF h] assms(4) by simp
  with write_header_wrote(1) [OF h] have d1: "d1 p = Some (header_of ?i)"
    by (simp add: wrote_complete)
  let ?d = "d1(p \<mapsto> file_bytes d1 p)"
  obtain res d' where f: "write_frames ''append write failed'' dev p ?d es = (res, d')"
    by (cases "write_frames ''append write failed'' dev p ?d es")
  have d: "?d p = Some (header_of ?i)" using d1 by (simp add: file_bytes_def)
  note w = write_frames_wrote [OF f d assms(2)]
  have "res = Inr ()" using w(2) assms(4) by simp
  moreover have "append_entries dev d es p = (res, d')"
    using assms(1,3) h good f by (simp add: append_entries_def open_trunc_def open_app_def)
  ultimately show ?thesis using w(1) by (auto simp: wrote_complete)
qed

theorem append_entries_replaces_witness:
  "\<exists>d' i. append_entries plenty [''l'' \<mapsto> [1, 2, 3]] [] ''l'' = (Inr (), d') \<and>
     d' ''l'' = Some (header_of i)"
  using append_entries_replaces [of "[''l'' \<mapsto> [1, 2, 3]]" "''l''" "[]" plenty]
  by (simp add: has_header_def plenty_def)

end
