(* ===== verification/Worker.thy ===== *)
theory Worker
  imports Console Protocol Persistence
begin

text \<open>
  \<^verbatim>\<open>iledger_worker.cpp\<close>: the program of a worker. It registers over a connection, submits
  the entries of a script file one by one, and waits for each acknowledgement, noting the rolls
  that arrive in between.

  The network is a parameter: whether it initialises, what connecting gives, and the send and
  receive calls on the connected socket. The standard output is a list of lines; the exit carries
  the line written to the standard error. An uncaught exception of \<^verbatim>\<open>std::stoi\<close> ends the
  program. Both loops may run forever (a peer that only sends rolls), so they are partial.
\<close>

section \<open>The program\<close>

record 's network =
  nw_init :: "string + unit"
  nw_connect :: "string \<Rightarrow> u16 \<Rightarrow> string + 's"
  nw_send :: "'s \<Rightarrow> nat \<Rightarrow> int \<times> 's"
  nw_recv :: "'s \<Rightarrow> nat \<Rightarrow> received \<times> 's"

definition show_gen :: "'g generation \<Rightarrow> string" where
  "show_gen g = show_nat (unat (gen_value g))"

definition reg_line :: "coordinator_epoch \<Rightarrow> accounting_generation \<Rightarrow> string" where
  "reg_line epoch ag = ''REG '' @ show_gen epoch @ '' '' @ show_gen ag"

definition roll_line :: "coordinator_epoch \<Rightarrow> accounting_generation \<Rightarrow> string" where
  "roll_line epoch ag = ''ROLL '' @ show_gen epoch @ '' '' @ show_gen ag"

definition ack_line :: "nat \<Rightarrow> u8 \<Rightarrow> string \<Rightarrow> string" where
  "ack_line index status reason = ''ACK '' @ show_nat index @ '' '' @ show_nat (unat status) @ '' '' @ reason"

partial_function (option) await_ack ::
    "('s \<Rightarrow> nat \<Rightarrow> received \<times> 's) \<Rightarrow> nat \<Rightarrow> 's \<Rightarrow> string list \<Rightarrow> ((prog_exit + 's) \<times> string list) option" where
  "await_ack recv index s out =
     (case recv_message recv s of (reply, s') \<Rightarrow>
        (case reply of
           Failure err \<Rightarrow> Some (Inl (Exit 1 (''recv reply: '' @ err)), out)
         | BadAccess \<Rightarrow> Some (Inl BadRead, out)
         | Value m \<Rightarrow>
             (case m of
                Roll epoch ag \<Rightarrow> await_ack recv index s' (out @ [roll_line epoch ag])
              | EventAck status reason \<Rightarrow> Some (Inr s', out @ [ack_line index status reason])
              | _ \<Rightarrow> Some (Inl (Exit 1 ''unexpected message''), out))))"

partial_function (option) submit_script ::
    "'s network \<Rightarrow> bytes \<Rightarrow> nat \<Rightarrow> 's \<Rightarrow> bytes \<Rightarrow> string list \<Rightarrow> ((prog_exit + 's) \<times> bytes \<times> string list) option" where
  "submit_script net data index s wire out =
     (if data = [] then Some (Inr s, wire, out)
      else case decode_entry data of
        Rejected \<Rightarrow> Some (Inl (Exit 1 (''bad script frame '' @ show_nat index)), wire, out)
      | OutOfBounds \<Rightarrow> Some (Inl BadRead, wire, out)
      | Decoded e consumed \<Rightarrow>
          (case send_message (nw_send net) s (EventSubmit e) wire of (sent, s', wire') \<Rightarrow>
             (case sent of
                Inl err \<Rightarrow> Some (Inl (Exit 1 (''send submit: '' @ err)), wire', out)
              | Inr _ \<Rightarrow>
                  Option.bind (await_ack (nw_recv net) index s' out) (\<lambda>(res, out').
                    case res of
                      Inl x \<Rightarrow> Some (Inl x, wire', out')
                    | Inr s'' \<Rightarrow> submit_script net (drop consumed data) (Suc index) s'' wire' out'))))"

text \<open>From the connected socket on.\<close>

definition worker_session ::
    "'s network \<Rightarrow> (string \<Rightarrow> bytes option) \<Rightarrow> worker_id \<Rightarrow> worker_boot_id \<Rightarrow> string \<Rightarrow> bool \<Rightarrow> 's \<Rightarrow>
     (prog_exit \<times> bytes \<times> string list) option" where
  "worker_session net files worker boot script hold s =
     (case send_message (nw_send net) s (Register worker boot) [] of (sent, s, wire) \<Rightarrow>
        (case sent of
           Inl err \<Rightarrow> Some (Exit 1 (''send reg: '' @ err), wire, [])
         | Inr _ \<Rightarrow>
             (case recv_message (nw_recv net) s of (reply, s) \<Rightarrow>
                (case reply of
                   Failure err \<Rightarrow> Some (Exit 1 (''recv regack: '' @ err), wire, [])
                 | BadAccess \<Rightarrow> Some (BadRead, wire, [])
                 | Value m \<Rightarrow>
                     (case m of
                        RegisterAck ok epoch ag reason \<Rightarrow>
                          if \<not> ok then Some (Exit 1 (''registration rejected: '' @ reason), wire, [])
                          else let out = [reg_line epoch ag] in
                            (case files script of
                               None \<Rightarrow> Some (Exit 1 ''cannot open script'', wire, out)
                             | Some data \<Rightarrow>
                                 Option.bind (submit_script net data 0 s wire out) (\<lambda>(res, wire, out).
                                   case res of
                                     Inl x \<Rightarrow> Some (x, wire, out)
                                   | Inr _ \<Rightarrow>
                                       let out = out @ [''WORKER_DONE '' @ id_to_string worker]
                                       in Some (if hold then Holding else Exit 0 '''', wire, out)))
                      | _ \<Rightarrow> Some (Exit 1 ''registration rejected: '', wire, []))))))"

definition worker_main ::
    "'s network \<Rightarrow> (string \<Rightarrow> bytes option) \<Rightarrow> string list \<Rightarrow> (prog_exit \<times> bytes \<times> string list) option" where
  "worker_main net files args =
     (if length args \<noteq> 6
      then Some (Exit 2 (''usage: iledger_worker <host> <port> <worker_id_hex> '' @
             ''<boot_id_hex> <script_file> <hold>''), [], [])
      else let hold = (args ! 5 = ''1''); host = args ! 0 in
        (case stoi (args ! 1) of
           None \<Rightarrow> Some (Uncaught, [], [])
         | Some p \<Rightarrow>
             (case (parse (args ! 2), parse (args ! 3)) of
                (Some worker, Some boot) \<Rightarrow>
                  (case nw_init net of
                     Inl err \<Rightarrow> Some (Exit 1 (''network_init: '' @ err), [], [])
                   | Inr _ \<Rightarrow>
                       (case nw_connect net host (word_of_int p) of
                          Inl err \<Rightarrow> Some (Exit 1 (''connect: '' @ err), [], [])
                        | Inr s \<Rightarrow> worker_session net files worker boot (args ! 4) hold s))
              | _ \<Rightarrow> Some (Exit 2 ''bad identity'', [], []))))"

section \<open>What a served worker does\<close>

definition message_bytes :: "message \<Rightarrow> bytes" where
  "message_bytes m = (case encode_message m of None \<Rightarrow> [] | Some f \<Rightarrow> f)"

text \<open>The replies to one submission: some rolls, then the acknowledgement.\<close>

type_synonym reply = "(coordinator_epoch \<times> accounting_generation) list \<times> u8 \<times> string"

definition reply_bytes :: "reply \<Rightarrow> bytes" where
  "reply_bytes r =
     concat (map (\<lambda>(epoch, ag). message_bytes (Roll epoch ag)) (fst r)) @
     message_bytes (EventAck (fst (snd r)) (snd (snd r)))"

definition reply_lines :: "nat \<Rightarrow> reply \<Rightarrow> string list" where
  "reply_lines i r =
     map (\<lambda>(epoch, ag). roll_line epoch ag) (fst r) @ [ack_line i (fst (snd r)) (snd (snd r))]"

primrec replies_lines :: "nat \<Rightarrow> reply list \<Rightarrow> string list" where
  "replies_lines i [] = []"
| "replies_lines i (r # rs) = reply_lines i r @ replies_lines (Suc i) rs"

definition reason_fits :: "string \<Rightarrow> bool" where
  "reason_fits s = (length s \<le> 2 ^ 24 - 22)"

lemma length_put_string: "string_fits s \<Longrightarrow> length (put_string s) = 4 + length s"
  by (simp add: put_string_def string_fits_def)

lemma message_bytes_small:
  "encode_message (Roll epoch ag) = Some (message_bytes (Roll epoch ag))"
  "length (message_bytes (Roll epoch ag)) \<le> 2 ^ 24 + 8"
  "encode_message (EventAck st r) = Some (message_bytes (EventAck st r))"
  "reason_fits r \<Longrightarrow> length (message_bytes (EventAck st r)) \<le> 2 ^ 24 + 8"
  "encode_message (RegisterAck k epoch ag r) = Some (message_bytes (RegisterAck k epoch ag r))"
  "reason_fits r \<Longrightarrow> length (message_bytes (RegisterAck k epoch ag r)) \<le> 2 ^ 24 + 8"
  "encode_message (Register w b) = Some (message_bytes (Register w b))"
  by (simp_all add: message_bytes_def encode_message_def Let_def reason_fits_def length_put_string
      string_fits_def)

lemma message_bytes_submit:
  "encodable e \<Longrightarrow> encode_message (EventSubmit e) = Some (message_bytes (EventSubmit e))"
  by (auto simp: message_bytes_def encode_message_def Let_def dest: encodable_frame)

lemma message_bytes_normalize [simp]:
  "message_bytes (EventSubmit (normalize_entry e)) = message_bytes (EventSubmit e)"
  by (simp add: message_bytes_def encode_message_def split: option.split)

lemma reason_fits_string: "reason_fits r \<Longrightarrow> string_fits r"
  by (simp add: reason_fits_def string_fits_def)

lemma encodable_normalize: "encodable e \<Longrightarrow> encodable (normalize_entry e)"
  by (simp add: encodable_def)

lemma frame_not_Nil: "frame_of e \<noteq> []"
  using length_frame [of "entry_payload e"] by (auto simp: frame_of_def simp del: length_frame)

locale duplex = byte_stream recv pending + byte_sink send pending
  for recv :: "'s \<Rightarrow> nat \<Rightarrow> received \<times> 's" and send :: "'s \<Rightarrow> nat \<Rightarrow> int \<times> 's"
    and pending :: "'s \<Rightarrow> bytes"
begin

lemma await_ack_replied:
  assumes "reason_fits (snd (snd r))" "pending s = reply_bytes r @ rest"
  shows "\<exists>s'. await_ack recv index s out = Some (Inr s', out @ reply_lines index r) \<and> pending s' = rest"
proof -
  obtain rolls st reason where r: "r = (rolls, st, reason)" by (cases r)
  have ok: "message_ok (EventAck st reason)" and fits: "reason_fits reason"
    using assms(1) by (simp_all add: r reason_fits_string)
  have "pending s = concat (map (\<lambda>(epoch, ag). message_bytes (Roll epoch ag)) rolls) @
      message_bytes (EventAck st reason) @ rest \<Longrightarrow> ?thesis"
    unfolding r
  proof (induction rolls arbitrary: s out)
    case Nil
    from recv_encoded [OF ok message_bytes_small(3) message_bytes_small(4) [OF fits], of s] Nil
    show ?case by (auto simp: await_ack.simps [of recv _ s] reply_lines_def)
  next
    case (Cons p rolls)
    obtain epoch ag where p: "p = (epoch, ag)" by (cases p)
    have "message_ok (Roll epoch ag)" by simp
    from recv_encoded [OF this message_bytes_small(1,2), of s] Cons.prems
    obtain s1 where s1: "recv_message recv s = (Value (Roll epoch ag), s1)"
        "pending s1 = concat (map (\<lambda>(epoch, ag). message_bytes (Roll epoch ag)) rolls) @
          message_bytes (EventAck st reason) @ rest" by (auto simp: p)
    from Cons.IH [OF s1(2), of "out @ [roll_line epoch ag]"] s1(1) show ?case
      by (simp add: await_ack.simps [of recv _ s] reply_lines_def p)
  qed
  then show ?thesis using assms(2) by (simp add: r reply_bytes_def)
qed

lemma submit_script_served:
  assumes "nw_recv net = recv" "nw_send net = send"
  shows "list_all encodable es \<Longrightarrow> list_all (\<lambda>r. reason_fits (snd (snd r))) rs \<Longrightarrow>
    length rs = length es \<Longrightarrow> pending s = concat (map reply_bytes rs) @ rest \<Longrightarrow>
    \<exists>s'. submit_script net (frames_of es) i s wire out =
      Some (Inr s', wire @ concat (map (\<lambda>e. message_bytes (EventSubmit e)) es), out @ replies_lines i rs) \<and>
    pending s' = rest"
proof (induction es arbitrary: rs i s wire out)
  case Nil
  then show ?case by (simp add: submit_script.simps)
next
  case (Cons e es)
  then obtain r rs' where rs: "rs = r # rs'" by (cases rs) auto
  have e: "encodable e" "encode_entry e = Some (frame_of e)"
    using Cons.prems(1) by (auto simp: frame_of_def dest: encodable_frame)
  have d: "decode_entry (frame_of e @ frames_of es) = Decoded (normalize_entry e) (length (frame_of e))"
    by (rule decode_encode_append) (rule e)+
  obtain s1 where s1: "send_message send s (EventSubmit (normalize_entry e)) wire =
      (Inr (), s1, wire @ message_bytes (EventSubmit e))" "pending s1 = pending s"
    using send_complete [OF message_bytes_submit [OF encodable_normalize [OF e(1)]], of s wire] by auto
  obtain s2 where s2: "await_ack recv i s1 out = Some (Inr s2, out @ reply_lines i r)"
      "pending s2 = concat (map reply_bytes rs') @ rest"
    using await_ack_replied [of r s1 "concat (map reply_bytes rs') @ rest" i out] Cons.prems(2,4) s1(2)
    by (auto simp: rs)
  have "submit_script net (frames_of (e # es)) i s wire out =
      submit_script net (frames_of es) (Suc i) s2 (wire @ message_bytes (EventSubmit e))
        (out @ reply_lines i r)"
    using d s1(1) s2(1) assms
    by (subst submit_script.simps) (simp add: frames_of_def frame_not_Nil)
  moreover obtain s3 where "submit_script net (frames_of es) (Suc i) s2
      (wire @ message_bytes (EventSubmit e)) (out @ reply_lines i r) =
      Some (Inr s3, (wire @ message_bytes (EventSubmit e)) @ concat (map (\<lambda>e. message_bytes (EventSubmit e)) es),
        (out @ reply_lines i r) @ replies_lines (Suc i) rs')" "pending s3 = rest"
    using Cons.IH [of rs' s2 "Suc i"] Cons.prems s2(2) unfolding rs by fastforce
  ultimately show ?case by (simp add: rs)
qed

lemma worker_session_served:
  assumes "nw_recv net = recv" "nw_send net = send" "files script = Some (frames_of es)"
    and "list_all encodable es" "list_all (\<lambda>r. reason_fits (snd (snd r))) rs" "length rs = length es"
    and "reason_fits reason"
    and "pending s = message_bytes (RegisterAck True epoch ag reason) @ concat (map reply_bytes rs) @ rest"
  shows "worker_session net files w b script hold s =
    Some (if hold then Holding else Exit 0 '''',
      message_bytes (Register w b) @ concat (map (\<lambda>e. message_bytes (EventSubmit e)) es),
      reg_line epoch ag # replies_lines 0 rs @ [''WORKER_DONE '' @ id_to_string w])"
proof -
  obtain s1 where s1: "send_message send s (Register w b) [] = (Inr (), s1, message_bytes (Register w b))"
      "pending s1 = pending s"
    using send_complete [OF message_bytes_small(7), of s w b "[]"] by auto
  have ok: "message_ok (RegisterAck True epoch ag reason)" using assms(7) by (simp add: reason_fits_string)
  obtain s2 where s2: "recv_message recv s1 = (Value (RegisterAck True epoch ag reason), s2)"
      "pending s2 = concat (map reply_bytes rs) @ rest"
    using recv_encoded [OF ok message_bytes_small(5) message_bytes_small(6) [OF assms(7)], of s1] assms(8) s1(2)
    by auto
  obtain s3 where "submit_script net (frames_of es) 0 s2 (message_bytes (Register w b)) [reg_line epoch ag] =
      Some (Inr s3, message_bytes (Register w b) @ concat (map (\<lambda>e. message_bytes (EventSubmit e)) es),
        [reg_line epoch ag] @ replies_lines 0 rs)"
    using submit_script_served [OF assms(1,2,4-6) s2(2)] by blast
  with s1(1) s2(1) assms(1-3) show ?thesis by (simp add: worker_session_def Let_def)
qed

end

interpretation tcp_duplex: duplex tcp_recv tcp_send fst
  by unfold_locales


lemma worker_main_replied:
  assumes "nw_init net = Inr ()" "nw_send net = tcp_send" "nw_recv net = tcp_recv"
    and "nw_connect net host port =
      Inr (message_bytes (RegisterAck True epoch ag reason) @ concat (map reply_bytes rs) @ rest, sched)"
    and "files script = Some (frames_of es)" "list_all encodable es"
    and "length rs = length es" "reason_fits reason" "list_all (\<lambda>r. reason_fits (snd (snd r))) rs"
  shows "worker_main net files [host, show_nat (unat port), id_to_string w, id_to_string b, script, hold] =
    Some (if hold = ''1'' then Holding else Exit 0 '''',
      message_bytes (Register w b) @ concat (map (\<lambda>e. message_bytes (EventSubmit e)) es),
      reg_line epoch ag # replies_lines 0 rs @ [''WORKER_DONE '' @ id_to_string w])"
proof -
  have "unat port \<le> 2147483647" using unsigned_less [where 'a = nat, of port] by simp
  then have "stoi (show_nat (unat port)) = Some (int (unat port))" by (rule stoi_show_nat)
  moreover have "(word_of_int (int (unat port)) :: u16) = port" by simp
  moreover note tcp_duplex.worker_session_served [where net = net and files = files and script = script
      and es = es and rs = rs and rest = rest and epoch = epoch and ag = ag and reason = reason
      and w = w and b = b and hold = "hold = ''1''",
      OF assms(3,2,5,6,9,7,8), of "(_, sched)"]
  ultimately show ?thesis using assms(1,4) by (simp add: worker_main_def parse_to_string Let_def)
qed


section \<open>Properties\<close>

text \<open>C20: A worker started with a printed port and printed identities, over a connection that lets every
  write through in pieces of any size and delivers its replies in pieces of any size, terminates:
  it sends its registration and then every entry of its script in order, each once, prints the
  registration, every roll and every acknowledgement in the order they arrived, and exits with
  success (or holds, when told to).\<close>

theorem worker_main_served:
  assumes "nw_init net = Inr ()" "nw_send net = tcp_send" "nw_recv net = tcp_recv"
    and "nw_connect net host port =
      Inr (message_bytes (RegisterAck True epoch ag reason) @ concat (map reply_bytes rs) @ rest, sched)"
    and "files script = Some (frames_of es)" "list_all encodable es"
    and "length rs = length es" "reason_fits reason" "list_all (\<lambda>r. reason_fits (snd (snd r))) rs"
  shows "worker_main net files [host, show_nat (unat port), id_to_string w, id_to_string b, script, hold] =
    Some (if hold = ''1'' then Holding else Exit 0 '''',
      message_bytes (Register w b) @ concat (map (\<lambda>e. message_bytes (EventSubmit e)) es),
      reg_line epoch ag # replies_lines 0 rs @ [''WORKER_DONE '' @ id_to_string w])"
  by (rule worker_main_replied) (rule assms)+

theorem worker_main_served_witness:
  "worker_main
     \<lparr>nw_init = Inr (),
      nw_connect = (\<lambda>host port. Inr (message_bytes (RegisterAck True (Generation 1) (Generation 1) ''registered'') @
        reply_bytes ([(Generation 2, Generation 2)], 0, ''accepted''), [1, 5, 2])),
      nw_send = tcp_send, nw_recv = tcp_recv\<rparr>
     [''script'' \<mapsto> frame_of (entry_default\<lparr>e_id := Id128 0 1\<rparr>)]
     [''localhost'', show_nat (unat (80 :: u16)), id_to_string (Id128 0 7 :: worker_id),
      id_to_string (Id128 0 8 :: worker_boot_id), ''script'', ''0''] =
   Some (Exit 0 '''',
     message_bytes (Register (Id128 0 7) (Id128 0 8)) @ message_bytes (EventSubmit (entry_default\<lparr>e_id := Id128 0 1\<rparr>)),
     [reg_line (Generation 1) (Generation 1), roll_line (Generation 2) (Generation 2), ack_line 0 0 ''accepted'',
      ''WORKER_DONE '' @ id_to_string (Id128 0 7 :: worker_id)])"
  by (subst worker_main_served [where es = "[entry_default\<lparr>e_id := Id128 0 1\<rparr>]"
        and rs = "[([(Generation 2, Generation 2)], 0, ''accepted'')]" and epoch = "Generation 1"
        and ag = "Generation 1" and reason = "''registered''" and rest = "[]" and sched = "[1, 5, 2]"])
    (simp_all add: frames_of_def entry_default_encodable reason_fits_def reply_lines_def)


end
