(* ===== verification/Deployment.thy ===== *)
theory Deployment
  imports Coordinator Worker
begin

text \<open>
  The two programs of a deployment: \<^verbatim>\<open>iledger_coordinator.cpp\<close>, which runs a coordinator until it
  is told to shut down and saves the ledger, and a worker (\<open>Worker\<close>) talking to it.
\<close>

section \<open>The coordinator program\<close>

text \<open>
  Up to the point where it waits for input. \<open>start\<close> is what \<^verbatim>\<open>Coordinator::start\<close> reports for a
  port. \<^term>\<open>Inr\<close> is the running coordinator, the path of the ledger file and the lines printed.
\<close>

definition coordinator_boot ::
    "(u16 \<Rightarrow> string + unit) \<Rightarrow> string list \<Rightarrow> prog_exit + coordinator \<times> string \<times> string list" where
  "coordinator_boot start args =
     (if length args \<noteq> 2 then Inl (Exit 2 ''usage: iledger_coordinator <port> <ledger_file>'')
      else case stoi (args ! 0) of
        None \<Rightarrow> Inl Uncaught
      | Some p \<Rightarrow>
          (let port = word_of_int p :: u16
           in case start port of
                Inl err \<Rightarrow> Inl (Exit 1 (''start: '' @ err))
              | Inr _ \<Rightarrow> Inr (coord_start True port (coordinator_new program_ledger), args ! 1,
                           [''COORD '' @ show_nat (unat port)])))"

text \<open>The lines of the standard input are read up to the first \<^verbatim>\<open>SHUTDOWN\<close> or the end.\<close>

primrec lines_read :: "string list \<Rightarrow> nat" where
  "lines_read [] = 0"
| "lines_read (l # ls) = (if l = ''SHUTDOWN'' then 1 else Suc (lines_read ls))"

text \<open>What happens at that moment, the coordinator being in the state it has then.\<close>

definition coordinator_finish ::
    "device \<Rightarrow> disk \<Rightarrow> string \<Rightarrow> coordinator \<Rightarrow> prog_exit \<times> string list \<times> disk \<times> coordinator" where
  "coordinator_finish dev d path c =
     (let snap = snapshot (co_ledger c);
          fp = ledger_fingerprint snap
      in case save_snapshot dev d snap program_ledger path of
           (Inl err, d) \<Rightarrow> (Exit 1 (''save: '' @ err), [], d, coord_stop c)
         | (Inr _, d) \<Rightarrow>
             (Exit 0 [], [''COORD_STOPPED '' @ show_nat (length snap) @ '' '' @ fingerprint_to_string fp], d,
              coord_stop c))"

section \<open>A worker served by the coordinator\<close>

text \<open>
  The coordinator's side of one worker's session on connection \<open>i\<close>: the handlers of the messages the
  worker sends, in order, with no other item in between. \<open>acks\<close> are the results of the appends.
\<close>

definition serve_worker ::
    "coordinator \<Rightarrow> nat \<Rightarrow> worker_id \<Rightarrow> worker_boot_id \<Rightarrow> ledger_entry list \<Rightarrow> coordinator" where
  "serve_worker c i w b es = foldl (\<lambda>c e. handle_event c i e) (handle_registration c i w b) es"

primrec acks :: "coordinator \<Rightarrow> nat \<Rightarrow> ledger_entry list \<Rightarrow> append_result list" where
  "acks c i [] = []"
| "acks c i (e # es) = fst (account_event c e) # acks (handle_event c i e) i es"

definition ack_message :: "append_result \<Rightarrow> message" where
  "ack_message ar = EventAck (append_status_val (ar_status ar)) (ar_reason ar)"

definition ack_reply :: "append_result \<Rightarrow> reply" where
  "ack_reply ar = ([], append_status_val (ar_status ar), ar_reason ar)"

text \<open>Reading \<open>n\<close> messages one after the other.\<close>

primrec recv_many ::
    "('s \<Rightarrow> nat \<Rightarrow> received \<times> 's) \<Rightarrow> nat \<Rightarrow> 's \<Rightarrow> message outcome list" where
  "recv_many recv 0 s = []"
| "recv_many recv (Suc n) s = (case recv_message recv s of (m, s') \<Rightarrow> m # recv_many recv n s')"

definition sendable :: "message \<Rightarrow> bool" where
  "sendable m = (message_ok m \<and> encode_message m = Some (message_bytes m) \<and> length (message_bytes m) \<le> 2 ^ 24 + 8)"

context byte_stream
begin

lemma recv_many_messages:
  "list_all sendable ms \<Longrightarrow> pending s = concat (map message_bytes ms) @ rest \<Longrightarrow>
     recv_many recv (length ms) s = map (Value \<circ> normalize_message) ms"
proof (induction ms arbitrary: s)
  case (Cons m ms)
  then have m: "message_ok m" "encode_message m = Some (message_bytes m)" "length (message_bytes m) \<le> 2 ^ 24 + 8"
    by (simp_all add: sendable_def)
  obtain s' where "recv_message recv s = (Value (normalize_message m), s')"
      "pending s' = concat (map message_bytes ms) @ rest"
    using recv_encoded [OF m, of s] Cons.prems(2) by auto
  with Cons show ?case by simp
qed simp

end

lemma conns_account_event [simp]: "co_conns (snd (account_event c e)) = co_conns c"
  by (simp add: account_event_def Let_def case_prod_beta)

lemma conns_register_boot [simp]: "co_conns (register_boot c w b) = co_conns c"
  by (simp add: register_boot_def)

lemma sent_handle_registration:
  "i < length (co_conns c) \<Longrightarrow> cn_sent (co_conns (handle_registration c i w b) ! i) =
     cn_sent (co_conns c ! i) @ [RegisterAck True (st_epoch (co_authority c))
       (st_accounting_generation (co_authority c)) ''registered'']"
  by (simp add: handle_registration_def register_ack_def upd_conn_def conn_send_def register_boot_def Let_def)

lemma sent_handle_event:
  "i < length (co_conns c) \<Longrightarrow> cn_sent (co_conns (handle_event c i e) ! i) =
     cn_sent (co_conns c ! i) @ [ack_message (fst (account_event c e))]"
  by (simp add: handle_event_def event_ack_def upd_conn_def conn_send_def case_prod_beta ack_message_def)

lemma conns_handle [simp]:
  "length (co_conns (handle_registration c i w b)) = length (co_conns c)"
  "length (co_conns (handle_event c i e)) = length (co_conns c)"
  by (simp_all add: handle_registration_def register_ack_def handle_event_def event_ack_def
      upd_conn_def case_prod_beta Let_def)

lemma sent_events:
  "i < length (co_conns c) \<Longrightarrow> cn_sent (co_conns (foldl (\<lambda>c e. handle_event c i e) c es) ! i) =
     cn_sent (co_conns c ! i) @ map ack_message (acks c i es)"
  by (induction es arbitrary: c) (simp_all add: sent_handle_event)

lemma sent_serve_worker:
  "i < length (co_conns c) \<Longrightarrow> cn_sent (co_conns (serve_worker c i w b es) ! i) =
     cn_sent (co_conns c ! i) @ RegisterAck True (st_epoch (co_authority c))
       (st_accounting_generation (co_authority c)) ''registered'' #
     map ack_message (acks (handle_registration c i w b) i es)"
  by (simp add: serve_worker_def sent_events sent_handle_registration)

lemma length_acks [simp]: "length (acks c i es) = length es"
  by (induction es arbitrary: c) simp_all

text \<open>The reasons the ledger gives are short.\<close>

lemma reason_short: "length (ar_reason (fst (ledger_append auth l e))) \<le> 100"
proof -
  have "length (authority_verdict_name v) \<le> 100" for v by (cases v) simp_all
  then show ?thesis
    by (auto simp: ledger_append_def split: authority_verdict.splits option.splits)
qed

lemma acks_short: "list_all (\<lambda>ar. reason_fits (ar_reason ar)) (acks c i es)"
proof (induction es arbitrary: c)
  case (Cons e es)
  have "length (ar_reason (fst (account_event c e))) \<le> 100"
    by (simp add: account_event_def Let_def case_prod_beta reason_short)
  with Cons show ?case by (simp add: reason_fits_def)
qed simp

lemma reason_registered: "reason_fits ''registered''"
  by (simp add: reason_fits_def)

lemma reply_bytes_ack: "reply_bytes (ack_reply ar) = message_bytes (ack_message ar)"
  by (simp add: reply_bytes_def ack_reply_def ack_message_def)

lemma replies_lines_acks:
  "replies_lines k (map ack_reply ars) =
     map (\<lambda>(j, ar). ack_line j (append_status_val (ar_status ar)) (ar_reason ar))
       (zip [k..<k + length ars] ars)"
proof (induction ars arbitrary: k)
  case (Cons ar ars)
  have "[k..<k + length (ar # ars)] = k # [Suc k..<Suc k + length ars]" by (simp add: upt_conv_Cons del: upt_Suc)
  with Cons [of "Suc k"] show ?case by (simp add: reply_lines_def ack_reply_def)
qed simp


lemma sample_start_encodable:
  "encodable sample_start" "length (frame_of sample_start) = 361"
proof -
  have "encode_entry sample_start \<noteq> None"
    by (simp add: encode_entry_def sample_start_def entry_default_def quantity_default_def
        is_physical_resource_def)
  moreover have n: "length (entry_payload sample_start) = 353"
    by (simp add: entry_payload_def sample_start_def entry_default_def put_opt_id_def put_quantity_def
        put_source_def put_authority_def put_metadata_def)
  ultimately show "encodable sample_start"
    by (simp add: encodable_def metadata_ok_def sample_start_def entry_default_def map_wf_def)
  show "length (frame_of sample_start) = 361" using n by (simp add: frame_of_def)
qed

lemma account_event_stop: "account_event (coord_stop c) e = map_prod id coord_stop (account_event c e)"
  by (simp add: account_event_def coord_stop_def Let_def case_prod_beta)

lemma sample_stored:
  "snapshot (co_ledger (snd (account_event (sample_queued\<lparr>co_queue := []\<rparr>) sample_start))) =
     snapshot (co_ledger sample_accepted)"
proof -
  have "co_pc sample_queued = Idle" "co_queue sample_queued = [WEvent (Some 0) sample_start]"
    by (simp_all add: sample_queued_def sample_registered sample_defs)
  then show ?thesis
    by (simp add: sample_accepted_def accounting_step_def take_item_def case_prod_beta snapshot_def)
qed

section \<open>Properties\<close>

text \<open>C9: Worker and coordinator understand each other: what the worker writes is read by the coordinator's
  reader, through any segmentation, as the registration and then the entries of its script in order;
  and over the replies the coordinator sends to exactly these messages the worker terminates with
  success and prints for each entry the result of its append.\<close>

theorem worker_coordinator_session:
  assumes "nw_init net = Inr ()" "nw_send net = tcp_send" "nw_recv net = tcp_recv"
    and "files script = Some (frames_of es)"
    and "list_all encodable es" "list_all (\<lambda>e. length (message_bytes (EventSubmit e)) \<le> 2 ^ 24 + 8) es"
    and "i < length (co_conns c)"
    and "nw_connect net host port = Inr (concat (map message_bytes
      (drop (length (cn_sent (co_conns c ! i)))
        (cn_sent (co_conns (serve_worker c i w b (map normalize_entry es)) ! i)))), sched)"
  shows "\<exists>wire. worker_main net files [host, show_nat (unat port), id_to_string w, id_to_string b, script, ''0''] =
      Some (Exit 0 [], wire,
        reg_line (st_epoch (co_authority c)) (st_accounting_generation (co_authority c)) #
        map (\<lambda>(j, ar). ack_line j (append_status_val (ar_status ar)) (ar_reason ar))
          (zip [0..<length es] (acks (handle_registration c i w b) i (map normalize_entry es))) @
        [''WORKER_DONE '' @ id_to_string w]) \<and>
    recv_many tcp_recv (Suc (length es)) (wire, sched') =
      Value (Register w b) # map (\<lambda>e. Value (EventSubmit (normalize_entry e))) es"
proof -
  let ?ars = "acks (handle_registration c i w b) i (map normalize_entry es)"
  have conn: "nw_connect net host port = Inr (message_bytes (RegisterAck True (st_epoch (co_authority c))
      (st_accounting_generation (co_authority c)) ''registered'') @
      concat (map reply_bytes (map ack_reply ?ars)) @ [], sched)"
    using assms(8) by (simp add: sent_serve_worker [OF assms(7)] comp_def reply_bytes_ack)
  have short: "list_all (\<lambda>r. reason_fits (snd (snd r))) (map ack_reply ?ars)"
    using acks_short [of "handle_registration c i w b" i "map normalize_entry es"]
    by (simp add: list_all_iff ack_reply_def)
  let ?wire = "message_bytes (Register w b) @ concat (map (\<lambda>e. message_bytes (EventSubmit e)) es)"
  have main: "worker_main net files [host, show_nat (unat port), id_to_string w, id_to_string b, script, ''0''] =
      Some (if ''0'' = ''1'' then Holding else Exit 0 [], ?wire,
        reg_line (st_epoch (co_authority c)) (st_accounting_generation (co_authority c)) #
        replies_lines 0 (map ack_reply ?ars) @ [''WORKER_DONE '' @ id_to_string w])"
    using reason_registered
    by (intro worker_main_replied [where es = es, OF assms(1-3) conn _ assms(5) _ _ short]) (simp_all add: assms(4))
  have "list_all sendable (Register w b # map EventSubmit es)"
    using assms(5,6) message_bytes_small(7) [of w b]
    by (auto simp: sendable_def list_all_iff message_bytes_submit)
       (simp add: message_bytes_def encode_message_def Let_def)
  from tcp.recv_many_messages [OF this, of "(?wire, sched')" "[]"]
  have "recv_many tcp_recv (Suc (length es)) (?wire, sched') =
      Value (Register w b) # map (\<lambda>e. Value (EventSubmit (normalize_entry e))) es"
    by (simp add: comp_def del: recv_many.simps)
  with main show ?thesis by (auto simp: replies_lines_acks)
qed

theorem worker_coordinator_session_witness:
  "\<exists>wire line. worker_main
      \<lparr>nw_init = Inr (),
       nw_connect = (\<lambda>host port. Inr (concat (map message_bytes (drop 1 (cn_sent (co_conns
          (serve_worker sample_registered 0 (Id128 0 7) (Id128 0 8) (map normalize_entry [entry_default\<lparr>e_id := Id128 0 1\<rparr>])) ! 0)))), [3, 1])),
       nw_send = tcp_send, nw_recv = tcp_recv\<rparr>
      [''s'' \<mapsto> frames_of [entry_default\<lparr>e_id := Id128 0 1\<rparr>]]
      [''h'', show_nat (unat (80 :: u16)), id_to_string (Id128 0 7 :: worker_id), id_to_string (Id128 0 8 :: worker_boot_id), ''s'', ''0''] =
      Some (Exit 0 [], wire, [reg_line (Generation 1) (Generation 1), line, ''WORKER_DONE '' @ id_to_string (Id128 0 7 :: worker_id)]) \<and>
    recv_many tcp_recv 2 (wire, [5]) =
      [Value (Register (Id128 0 7) (Id128 0 8)), Value (EventSubmit (normalize_entry (entry_default\<lparr>e_id := Id128 0 1\<rparr>)))]"
proof -
  let ?e = "entry_default\<lparr>e_id := Id128 0 1\<rparr>"
  let ?net = "\<lparr>nw_init = Inr (),
    nw_connect = (\<lambda>host port. Inr (concat (map message_bytes (drop 1 (cn_sent (co_conns
      (serve_worker sample_registered 0 (Id128 0 7) (Id128 0 8) (map normalize_entry [?e])) ! 0)))), [3, 1])),
    nw_send = tcp_send, nw_recv = tcp_recv\<rparr>"
  have small: "length (message_bytes (EventSubmit ?e)) \<le> 2 ^ 24 + 8"
    using encodable_frame [OF entry_default_encodable, of "Id128 0 1"] length_frame_of_default [of "Id128 0 1"]
    by (simp add: message_bytes_def encode_message_def Let_def frame_of_def)
  have c: "0 < length (co_conns sample_registered)" "length (cn_sent (co_conns sample_registered ! 0)) = 1"
      "st_epoch (co_authority sample_registered) = Generation 1"
      "st_accounting_generation (co_authority sample_registered) = Generation 1"
    by (simp_all add: sample_registered)
  show ?thesis
    using worker_coordinator_session [where net = ?net and files = "[''s'' \<mapsto> frames_of [?e]]" and script = "''s''"
        and es = "[?e]" and i = 0 and c = sample_registered and host = "''h''" and port = 80
        and w = "Id128 0 7" and b = "Id128 0 8" and sched = "[3, 1]" and sched' = "[5]"] small c
    by (simp add: entry_default_encodable numeral_2_eq_2 del: recv_many.simps) blast
qed

text \<open>What the coordinator program saves when told to shut down is the ledger at that moment, readable
  and with its fingerprint; and whatever happens while it stops, the ledger it ends with only
  extends what was saved.\<close>

theorem shutdown_saves_prefix:
  assumes "reachable program_ledger c" "list_all encodable (snapshot (co_ledger c))"
    and "dv_openable dev p" "28 + length (frames_of (snapshot (co_ledger c))) \<le> dv_room dev p"
    and "(coord_step ^^ n) (coord_stop c) c'"
  shows "\<exists>d' r line. coordinator_finish dev d p c = (Exit 0 [], [line], d', coord_stop c) \<and>
    load d' p = Some r \<and> lr_ok r \<and> lr_ledger_id r = program_ledger \<and>
    lr_entries r = map normalize_entry (snapshot (co_ledger c)) \<and>
    lr_fingerprint r = ledger_fingerprint (snapshot (co_ledger c)) \<and>
    lr_entries r = map normalize_entry (take (length (lr_entries r)) (snapshot (co_ledger c')))"
proof -
  have f: "fenced c" using fence.reachable [OF assms(1)] .
  then have "distinct (map e_id (snapshot (co_ledger c)))"
    using ledger_inv_distinct by (simp add: fenced_def snapshot_def)
  from save_then_load [OF assms(2) this assms(3,4), of d program_ledger]
  obtain d' r where r: "save_snapshot dev d (snapshot (co_ledger c)) program_ledger p = (Inr (), d')"
      "load d' p = Some r" "lr_ok r" "lr_ledger_id r = program_ledger"
      "lr_entries r = map normalize_entry (snapshot (co_ledger c))"
      "lr_fingerprint r = ledger_fingerprint (snapshot (co_ledger c))" by blast
  have "fenced (coord_stop c)" "co_ledger (coord_stop c) = co_ledger c"
    using f by (simp_all add: fenced_def coord_stop_def)
  with path_grows [OF assms(5)] obtain new where "snapshot (co_ledger c') = snapshot (co_ledger c) @ new"
    by auto
  with r show ?thesis by (simp add: coordinator_finish_def Let_def)
qed

theorem shutdown_saves_prefix_witness:
  "\<exists>d' r line. coordinator_finish plenty Map.empty ''l'' sample_accepted =
      (Exit 0 [], [line], d', coord_stop sample_accepted) \<and>
    load d' ''l'' = Some r \<and> lr_ok r \<and> lr_entries r = [normalize_entry sample_start]"
proof -
  have e: "encodable sample_start" "28 + length (frames_of [sample_start]) \<le> dv_room plenty ''l''"
    by (simp_all add: sample_start_encodable plenty_def)
  show ?thesis
    using shutdown_saves_prefix [OF reachable.step [OF sample_queued_reachable sample_accepted_step],
        of plenty "''l''" 0 "coord_stop sample_accepted" Map.empty] e
    by (auto simp: sample_accepted plenty_def)
qed



end
