(* ===== verification/Account.thy ===== *)
theory Account
  imports Entry
begin

text \<open>
  \<^verbatim>\<open>request_account.hpp\<close> and \<^verbatim>\<open>request_account.cpp\<close>: the account of one request,
  rebuilt from its ledger entries.

  The local variables of \<^verbatim>\<open>reconcile_request\<close> are the record \<open>tally\<close>, in groups, and the
  switch over the event kind is one step function per group; every group's step looks at the same
  entry, so a turn of the loop is their product. The fields of \<^verbatim>\<open>RequestAccount\<close> are grouped
  as its comments group them. The argument \<open>unspec\<close> is what \<^verbatim>\<open>std::llround\<close> returns for a
  value outside 64 bits. Literals are written as their bit patterns.
\<close>

section \<open>Classification of work\<close>

datatype work_kind = Useful | Wasted | WCancelled | Recomputed | Avoided | Reused | WIdle

primrec work_kind_name :: "work_kind \<Rightarrow> string" where
  "work_kind_name Useful = ''useful''"
| "work_kind_name Wasted = ''wasted''"
| "work_kind_name WCancelled = ''cancelled''"
| "work_kind_name Recomputed = ''recomputed''"
| "work_kind_name Avoided = ''avoided''"
| "work_kind_name Reused = ''reused''"
| "work_kind_name WIdle = ''idle''"

section \<open>Durations\<close>

definition kNsPerSecond :: double where
  "kNsPerSecond = Dbl 0x41CDCD6500000000"

definition d_3600 :: double where
  "d_3600 = Dbl 0x40AC200000000000"

definition sec :: "u64 \<Rightarrow> double" where
  "sec ns = d_div (d_of_u64 ns) kNsPerSecond"

definition dur_sec :: "ledger_entry \<Rightarrow> double" where
  "dur_sec e = (if \<not> e_has_end e then d_zero else sec (duration_ns e))"

section \<open>Attempts\<close>

record attempt_attr =
  at_completed :: bool
  at_failed :: bool
  at_cancelled :: bool
  at_terminal_ns :: u64
  at_exec_s :: double
  at_prefill_s :: double
  at_decode_s :: double
  at_gpu_s :: double
  at_cpu_s :: double
  at_spec_rej_s :: double
  at_gen_tokens :: u64

definition attempt_default :: attempt_attr where
  "attempt_default =
     \<lparr>at_completed = False, at_failed = False, at_cancelled = False, at_terminal_ns = 0,
      at_exec_s = d_zero, at_prefill_s = d_zero, at_decode_s = d_zero, at_gpu_s = d_zero,
      at_cpu_s = d_zero, at_spec_rej_s = d_zero, at_gen_tokens = 0\<rparr>"

text \<open>What the switch does to \<^verbatim>\<open>att\<close>, the attempt of the entry.\<close>

definition attempt_step :: "(double \<Rightarrow> u64) \<Rightarrow> attempt_attr \<Rightarrow> ledger_entry \<Rightarrow> attempt_attr" where
  "attempt_step unspec a e =
     (let d = dur_sec e;
          n = llround_u64 unspec (q_value (e_quantity e))
      in case e_event_kind e of
        RequestEnd \<Rightarrow> a\<lparr>at_completed := True, at_terminal_ns := max (at_terminal_ns a) (e_start_ts_ns e)\<rparr>
      | Prefill \<Rightarrow> a\<lparr>at_prefill_s := d_add (at_prefill_s a) d, at_exec_s := d_add (at_exec_s a) d,
                   at_gpu_s := d_add (at_gpu_s a) d\<rparr>
      | Decode \<Rightarrow> a\<lparr>at_decode_s := d_add (at_decode_s a) d, at_exec_s := d_add (at_exec_s a) d,
                  at_gpu_s := d_add (at_gpu_s a) d,
                  at_gen_tokens := (if q_unit (e_quantity e) = Count then at_gen_tokens a + n
                                    else at_gen_tokens a)\<rparr>
      | GpuExecution \<Rightarrow> a\<lparr>at_exec_s := d_add (at_exec_s a) d, at_gpu_s := d_add (at_gpu_s a) d\<rparr>
      | CpuExecution \<Rightarrow> a\<lparr>at_exec_s := d_add (at_exec_s a) d, at_cpu_s := d_add (at_cpu_s a) d\<rparr>
      | SpeculationAccepted \<Rightarrow> a\<lparr>at_gen_tokens := at_gen_tokens a + n\<rparr>
      | SpeculationRejected \<Rightarrow> a\<lparr>at_spec_rej_s := d_add (at_spec_rej_s a) d\<rparr>
      | Failure \<Rightarrow> a\<lparr>at_failed := True\<rparr>
      | Cancellation \<Rightarrow> a\<lparr>at_cancelled := True\<rparr>
      | _ \<Rightarrow> a)"

type_synonym attempts = "(attempt_id, attempt_attr) omap"

definition attempts_step :: "(double \<Rightarrow> u64) \<Rightarrow> attempts \<Rightarrow> ledger_entry \<Rightarrow> attempts" where
  "attempts_step unspec m e =
     (let a = (case map_find m (e_attempt e) of None \<Rightarrow> attempt_default | Some a \<Rightarrow> a)
      in map_put (e_attempt e) (attempt_step unspec a e) m)"

section \<open>Totals of the request\<close>

record tally_window =
  w_has_start :: bool
  w_has_end :: bool
  w_start_ns :: u64
  w_end_ns :: u64

definition window_step :: "tally_window \<Rightarrow> ledger_entry \<Rightarrow> tally_window" where
  "window_step w e =
     (case e_event_kind e of
        RequestStart \<Rightarrow>
          w\<lparr>w_start_ns := (if e_has_end e then e_end_ts_ns e else e_start_ts_ns e), w_has_start := True\<rparr>
      | RequestEnd \<Rightarrow> w\<lparr>w_end_ns := e_start_ts_ns e, w_has_end := True\<rparr>
      | _ \<Rightarrow> w)"

record tally_time =
  tt_queue_s :: double
  tt_batch_s :: double
  tt_trans_dur :: double
  tt_recompute_s :: double
  tt_reuse_avoid :: double
  tt_reused :: double

definition time_step :: "tally_time \<Rightarrow> ledger_entry \<Rightarrow> tally_time" where
  "time_step t e =
     (let d = dur_sec e; val = q_value (e_quantity e)
      in case e_event_kind e of
        Queue \<Rightarrow> t\<lparr>tt_queue_s := d_add (tt_queue_s t) d\<rparr>
      | BatchWait \<Rightarrow> t\<lparr>tt_batch_s := d_add (tt_batch_s t) d\<rparr>
      | TransferH2D \<Rightarrow> t\<lparr>tt_trans_dur := d_add (tt_trans_dur t) d\<rparr>
      | TransferD2H \<Rightarrow> t\<lparr>tt_trans_dur := d_add (tt_trans_dur t) d\<rparr>
      | TransferInterNode \<Rightarrow> t\<lparr>tt_trans_dur := d_add (tt_trans_dur t) d\<rparr>
      | Recompute \<Rightarrow> t\<lparr>tt_recompute_s := d_add (tt_recompute_s t) d\<rparr>
      | ReuseAvoided \<Rightarrow> t\<lparr>tt_reuse_avoid := d_add (tt_reuse_avoid t) val\<rparr>
      | _ \<Rightarrow> t)"

text \<open>Memory that is allocated and released: the total, what is live, and the highest live value.\<close>

record tally_memory =
  tm_alloc :: double
  tm_live :: double
  tm_peak :: double
  tm_reuse :: double

definition memory_allocate :: "tally_memory \<Rightarrow> double \<Rightarrow> tally_memory" where
  "memory_allocate m val =
     m\<lparr>tm_alloc := d_add (tm_alloc m) val, tm_live := d_add (tm_live m) val,
       tm_peak := d_max (tm_peak m) (d_add (tm_live m) val)\<rparr>"

definition memory_release :: "tally_memory \<Rightarrow> double \<Rightarrow> tally_memory" where
  "memory_release m val = m\<lparr>tm_live := d_max d_zero (d_sub (tm_live m) val)\<rparr>"

definition memory_reuse :: "tally_memory \<Rightarrow> double \<Rightarrow> tally_memory" where
  "memory_reuse m val = m\<lparr>tm_reuse := d_add (tm_reuse m) val\<rparr>"

definition kv_step :: "tally_memory \<Rightarrow> ledger_entry \<Rightarrow> tally_memory" where
  "kv_step m e =
     (let val = q_value (e_quantity e)
      in case e_event_kind e of
        KvAllocate \<Rightarrow> memory_allocate m val
      | KvRelease \<Rightarrow> memory_release m val
      | KvReuse \<Rightarrow> memory_reuse m val
      | _ \<Rightarrow> m)"

definition tensor_step :: "tally_memory \<Rightarrow> ledger_entry \<Rightarrow> tally_memory" where
  "tensor_step m e =
     (let val = q_value (e_quantity e)
      in case e_event_kind e of
        TensorAllocate \<Rightarrow> memory_allocate m val
      | TensorRelease \<Rightarrow> memory_release m val
      | TensorReuse \<Rightarrow> memory_reuse m val
      | _ \<Rightarrow> m)"

record tally_bytes =
  tb_h2d :: double
  tb_d2h :: double
  tb_node :: double
  tb_model_bs :: double
  tb_adapter_bs :: double
  tb_energy_j :: double

definition bytes_step :: "tally_bytes \<Rightarrow> ledger_entry \<Rightarrow> tally_bytes" where
  "bytes_step b e =
     (let d = dur_sec e; val = q_value (e_quantity e)
      in case e_event_kind e of
        TransferH2D \<Rightarrow> b\<lparr>tb_h2d := d_add (tb_h2d b) val\<rparr>
      | TransferD2H \<Rightarrow> b\<lparr>tb_d2h := d_add (tb_d2h b) val\<rparr>
      | TransferInterNode \<Rightarrow> b\<lparr>tb_node := d_add (tb_node b) val\<rparr>
      | ModelResidency \<Rightarrow> b\<lparr>tb_model_bs := d_add (tb_model_bs b) (d_mul val d)\<rparr>
      | AdapterResidency \<Rightarrow> b\<lparr>tb_adapter_bs := d_add (tb_adapter_bs b) (d_mul val d)\<rparr>
      | EEnergy \<Rightarrow> b\<lparr>tb_energy_j := d_add (tb_energy_j b)
                     (if q_unit (e_quantity e) = EnergyWh then d_mul val d_3600 else val)\<rparr>
      | _ \<Rightarrow> b)"

record tally_counts =
  tc_res_acq :: u64
  tc_res_rel :: u64
  tc_spec_prop :: u64
  tc_spec_acc :: u64
  tc_spec_rej :: u64
  tc_retries :: u64
  tc_k_hits :: u64
  tc_k_misses :: u64
  tc_g_hits :: u64
  tc_g_misses :: u64
  tc_c_reads :: u64
  tc_c_writes :: u64

definition counts_step :: "(double \<Rightarrow> u64) \<Rightarrow> tally_counts \<Rightarrow> ledger_entry \<Rightarrow> tally_counts" where
  "counts_step unspec c e =
     (let n = llround_u64 unspec (q_value (e_quantity e))
      in case e_event_kind e of
        SpeculationProposed \<Rightarrow> c\<lparr>tc_spec_prop := tc_spec_prop c + n\<rparr>
      | SpeculationAccepted \<Rightarrow> c\<lparr>tc_spec_acc := tc_spec_acc c + n\<rparr>
      | SpeculationRejected \<Rightarrow> c\<lparr>tc_spec_rej := tc_spec_rej c + n\<rparr>
      | KernelHit \<Rightarrow> c\<lparr>tc_k_hits := tc_k_hits c + n\<rparr>
      | KernelMiss \<Rightarrow> c\<lparr>tc_k_misses := tc_k_misses c + n\<rparr>
      | GraphHit \<Rightarrow> c\<lparr>tc_g_hits := tc_g_hits c + n\<rparr>
      | GraphMiss \<Rightarrow> c\<lparr>tc_g_misses := tc_g_misses c + n\<rparr>
      | CacheRead \<Rightarrow> c\<lparr>tc_c_reads := tc_c_reads c + n\<rparr>
      | CacheWrite \<Rightarrow> c\<lparr>tc_c_writes := tc_c_writes c + n\<rparr>
      | Reserve \<Rightarrow> c\<lparr>tc_res_acq := tc_res_acq c + 1\<rparr>
      | Release \<Rightarrow> c\<lparr>tc_res_rel := tc_res_rel c + 1\<rparr>
      | Retry \<Rightarrow> c\<lparr>tc_retries := tc_retries c + n\<rparr>
      | _ \<Rightarrow> c)"

record tally =
  ty_attempts :: attempts
  ty_window :: tally_window
  ty_time :: tally_time
  ty_kv :: tally_memory
  ty_tensor :: tally_memory
  ty_bytes :: tally_bytes
  ty_counts :: tally_counts

definition tally_init :: tally where
  "tally_init =
     \<lparr>ty_attempts = [],
      ty_window = \<lparr>w_has_start = False, w_has_end = False, w_start_ns = 0, w_end_ns = 0\<rparr>,
      ty_time = \<lparr>tt_queue_s = d_zero, tt_batch_s = d_zero, tt_trans_dur = d_zero,
        tt_recompute_s = d_zero, tt_reuse_avoid = d_zero, tt_reused = d_zero\<rparr>,
      ty_kv = \<lparr>tm_alloc = d_zero, tm_live = d_zero, tm_peak = d_zero, tm_reuse = d_zero\<rparr>,
      ty_tensor = \<lparr>tm_alloc = d_zero, tm_live = d_zero, tm_peak = d_zero, tm_reuse = d_zero\<rparr>,
      ty_bytes = \<lparr>tb_h2d = d_zero, tb_d2h = d_zero, tb_node = d_zero, tb_model_bs = d_zero,
        tb_adapter_bs = d_zero, tb_energy_j = d_zero\<rparr>,
      ty_counts = \<lparr>tc_res_acq = 0, tc_res_rel = 0, tc_spec_prop = 0, tc_spec_acc = 0,
        tc_spec_rej = 0, tc_retries = 0, tc_k_hits = 0, tc_k_misses = 0, tc_g_hits = 0,
        tc_g_misses = 0, tc_c_reads = 0, tc_c_writes = 0\<rparr>\<rparr>"

definition tally_step :: "(double \<Rightarrow> u64) \<Rightarrow> tally \<Rightarrow> ledger_entry \<Rightarrow> tally" where
  "tally_step unspec t e =
     \<lparr>ty_attempts = attempts_step unspec (ty_attempts t) e,
      ty_window = window_step (ty_window t) e, ty_time = time_step (ty_time t) e,
      ty_kv = kv_step (ty_kv t) e, ty_tensor = tensor_step (ty_tensor t) e,
      ty_bytes = bytes_step (ty_bytes t) e, ty_counts = counts_step unspec (ty_counts t) e\<rparr>"

definition tally_of :: "(double \<Rightarrow> u64) \<Rightarrow> ledger_entry list \<Rightarrow> tally" where
  "tally_of unspec entries = foldl (tally_step unspec) tally_init entries"

section \<open>Outcome\<close>

text \<open>The loop that picks the winning attempt, with \<^verbatim>\<open>winning\<close> and \<^verbatim>\<open>best_ns\<close>.\<close>

definition winner_step :: "(attempt_id \<times> u64) option \<Rightarrow> attempt_id \<times> attempt_attr \<Rightarrow> (attempt_id \<times> u64) option" where
  "winner_step best kvp =
     (let a = snd kvp
      in if at_completed a \<and> \<not> at_failed a \<and> \<not> at_cancelled a
         then (if (case best of None \<Rightarrow> True | Some (_, best_ns) \<Rightarrow> best_ns \<le> at_terminal_ns a)
               then Some (fst kvp, at_terminal_ns a) else best)
         else best)"

definition winning :: "attempts \<Rightarrow> attempt_id option" where
  "winning m = map_option fst (foldl winner_step None m)"

definition any_cancelled :: "attempts \<Rightarrow> bool" where
  "any_cancelled m = list_ex (\<lambda>kvp. at_cancelled (snd kvp) \<and> \<not> at_failed (snd kvp)) m"

record waste =
  wa_failed :: double
  wa_cancelled :: double
  wa_spec :: double

definition waste_step :: "attempt_id option \<Rightarrow> waste \<Rightarrow> attempt_id \<times> attempt_attr \<Rightarrow> waste" where
  "waste_step win w kvp =
     (let a = snd kvp
      in if win = Some (fst kvp) then w
         else \<lparr>wa_failed = (if at_failed a then d_add (wa_failed w) (at_exec_s a) else wa_failed w),
               wa_cancelled = (if at_cancelled a then d_add (wa_cancelled w) (at_exec_s a)
                               else wa_cancelled w),
               wa_spec = d_add (wa_spec w) (at_spec_rej_s a)\<rparr>)"

definition attempt_at :: "attempts \<Rightarrow> attempt_id \<Rightarrow> attempt_attr" where
  "attempt_at m x = (case map_find m x of None \<Rightarrow> attempt_default | Some a \<Rightarrow> a)"

definition waste_of :: "attempts \<Rightarrow> waste" where
  "waste_of m =
     (let win = winning m;
          w = foldl (waste_step win) \<lparr>wa_failed = d_zero, wa_cancelled = d_zero, wa_spec = d_zero\<rparr> m
      in case win of
           None \<Rightarrow> w
         | Some x \<Rightarrow> w\<lparr>wa_spec := d_add (wa_spec w) (at_spec_rej_s (attempt_at m x))\<rparr>)"

section \<open>The account\<close>

record account_identity =
  ac_request :: request_id
  ac_tenant :: tenant_id
  ac_workload :: workload_id
  ac_model :: model_id
  ac_model_revision :: model_revision_id

record account_timing =
  ac_wall_latency_s :: quantity
  ac_queue_time_s :: quantity
  ac_execution_s :: quantity
  ac_prefill_s :: quantity
  ac_decode_s :: quantity
  ac_gpu_active_s :: quantity
  ac_cpu_active_s :: quantity
  ac_batch_wait_s :: quantity

record account_transfers =
  ac_h2d_bytes :: quantity
  ac_d2h_bytes :: quantity
  ac_inter_node_bytes :: quantity
  ac_transfer_duration_s :: quantity

record account_memory =
  ac_kv_allocated :: quantity
  ac_kv_peak :: quantity
  ac_kv_reuse :: quantity
  ac_tensor_allocated :: quantity
  ac_tensor_peak :: quantity
  ac_tensor_reuse :: quantity
  ac_model_byte_seconds :: quantity
  ac_adapter_byte_seconds :: quantity
  ac_tensor_byte_seconds :: quantity
  ac_allocation_peak :: quantity

record account_counts =
  ac_reservations_acquired :: u64
  ac_reservations_released :: u64
  ac_spec_proposed :: u64
  ac_spec_accepted :: u64
  ac_spec_rejected :: u64
  ac_generated_tokens :: u64
  ac_retries :: u64
  ac_kernel_hits :: u64
  ac_kernel_misses :: u64
  ac_graph_hits :: u64
  ac_graph_misses :: u64
  ac_cache_reads :: u64
  ac_cache_writes :: u64

record account_work =
  ac_spec_wasted_work_s :: quantity
  ac_failed_attempt_work :: quantity
  ac_cancelled_work :: quantity
  ac_recomputed_work :: quantity
  ac_reuse_avoided_work :: quantity
  ac_reused_work :: quantity
  ac_energy_joules :: quantity

record reconcile_result =
  rr_ok :: bool
  rr_reason :: string
  rr_entries :: nat
  rr_attempts :: nat
  rr_duplicate_ignored :: nat
  rr_declared_useful_work :: double
  rr_declared_wasted_work :: double

record account_outcome =
  ac_completed :: bool
  ac_cancelled :: bool
  ac_failed :: bool
  ac_terminal_outcome :: string
  ac_attempt_count :: nat
  ac_reconcile :: reconcile_result
  ac_aggregate_provenance_name :: string

record request_account =
  ac_identity :: account_identity
  ac_timing :: account_timing
  ac_transfers :: account_transfers
  ac_memory :: account_memory
  ac_counts :: account_counts
  ac_work :: account_work
  ac_outcome :: account_outcome

definition derived_q :: "double \<Rightarrow> unit_kind \<Rightarrow> quantity" where
  "derived_q v u = \<lparr>q_value = v, q_unit = u, q_provenance = Derived\<rparr>"

definition identity_of :: "ledger_entry list \<Rightarrow> request_id \<Rightarrow> account_identity" where
  "identity_of entries request =
     (case entries of
        [] \<Rightarrow> \<lparr>ac_request = request, ac_tenant = id_default, ac_workload = id_default,
                ac_model = id_default, ac_model_revision = id_default\<rparr>
      | e # _ \<Rightarrow> \<lparr>ac_request = request, ac_tenant = e_tenant e, ac_workload = e_workload e,
                  ac_model = e_model e, ac_model_revision = e_model_revision e\<rparr>)"

definition wall_latency :: "tally_window \<Rightarrow> double" where
  "wall_latency w =
     (if w_has_start w \<and> w_has_end w \<and> w_start_ns w \<le> w_end_ns w
      then sec (w_end_ns w - w_start_ns w) else d_zero)"

text \<open>The attempt whose execution counts; without a winner the fields keep their zeros.\<close>

definition useful_attempt :: "attempts \<Rightarrow> attempt_attr" where
  "useful_attempt m = (case winning m of None \<Rightarrow> attempt_default | Some x \<Rightarrow> attempt_at m x)"

definition timing_of :: "tally \<Rightarrow> account_timing" where
  "timing_of t =
     (let a = useful_attempt (ty_attempts t)
      in \<lparr>ac_wall_latency_s = derived_q (wall_latency (ty_window t)) Seconds,
          ac_queue_time_s = derived_q (tt_queue_s (ty_time t)) Seconds,
          ac_execution_s = derived_q (at_exec_s a) Seconds,
          ac_prefill_s = derived_q (at_prefill_s a) Seconds,
          ac_decode_s = derived_q (at_decode_s a) Seconds,
          ac_gpu_active_s = derived_q (at_gpu_s a) Seconds,
          ac_cpu_active_s = \<lparr>q_value = at_cpu_s a, q_unit = Seconds,
            q_provenance = (if ty_attempts t = [] then Unavailable else Derived)\<rparr>,
          ac_batch_wait_s = derived_q (tt_batch_s (ty_time t)) Seconds\<rparr>)"

definition transfers_of :: "tally \<Rightarrow> account_transfers" where
  "transfers_of t =
     \<lparr>ac_h2d_bytes = derived_q (tb_h2d (ty_bytes t)) Bytes,
      ac_d2h_bytes = derived_q (tb_d2h (ty_bytes t)) Bytes,
      ac_inter_node_bytes = derived_q (tb_node (ty_bytes t)) Bytes,
      ac_transfer_duration_s = derived_q (tt_trans_dur (ty_time t)) Seconds\<rparr>"

definition memory_of :: "tally \<Rightarrow> account_memory" where
  "memory_of t =
     \<lparr>ac_kv_allocated = derived_q (tm_alloc (ty_kv t)) Bytes,
      ac_kv_peak = derived_q (tm_peak (ty_kv t)) Bytes,
      ac_kv_reuse = derived_q (tm_reuse (ty_kv t)) Bytes,
      ac_tensor_allocated = derived_q (tm_alloc (ty_tensor t)) Bytes,
      ac_tensor_peak = derived_q (tm_peak (ty_tensor t)) Bytes,
      ac_tensor_reuse = derived_q (tm_reuse (ty_tensor t)) Bytes,
      ac_model_byte_seconds = derived_q (tb_model_bs (ty_bytes t)) ByteSeconds,
      ac_adapter_byte_seconds = derived_q (tb_adapter_bs (ty_bytes t)) ByteSeconds,
      ac_tensor_byte_seconds = \<lparr>q_value = d_zero, q_unit = ByteSeconds, q_provenance = Unavailable\<rparr>,
      ac_allocation_peak = derived_q (d_max (tm_peak (ty_kv t)) (tm_peak (ty_tensor t))) Bytes\<rparr>"

definition counts_of :: "tally \<Rightarrow> account_counts" where
  "counts_of t =
     (let c = ty_counts t
      in \<lparr>ac_reservations_acquired = tc_res_acq c, ac_reservations_released = tc_res_rel c,
          ac_spec_proposed = tc_spec_prop c, ac_spec_accepted = tc_spec_acc c,
          ac_spec_rejected = tc_spec_rej c,
          ac_generated_tokens = at_gen_tokens (useful_attempt (ty_attempts t)),
          ac_retries = tc_retries c, ac_kernel_hits = tc_k_hits c, ac_kernel_misses = tc_k_misses c,
          ac_graph_hits = tc_g_hits c, ac_graph_misses = tc_g_misses c,
          ac_cache_reads = tc_c_reads c, ac_cache_writes = tc_c_writes c\<rparr>)"

definition work_of :: "tally \<Rightarrow> account_work" where
  "work_of t =
     (let w = waste_of (ty_attempts t); j = tb_energy_j (ty_bytes t)
      in \<lparr>ac_spec_wasted_work_s = derived_q (wa_spec w) Seconds,
          ac_failed_attempt_work = derived_q (wa_failed w) Seconds,
          ac_cancelled_work = derived_q (wa_cancelled w) Seconds,
          ac_recomputed_work = derived_q (tt_recompute_s (ty_time t)) Seconds,
          ac_reuse_avoided_work = derived_q (tt_reuse_avoid (ty_time t)) Seconds,
          ac_reused_work = derived_q (tt_reused (ty_time t)) Seconds,
          ac_energy_joules = \<lparr>q_value = j, q_unit = EnergyJoule,
            q_provenance = (if d_lt d_zero j then Derived else Unavailable)\<rparr>\<rparr>)"

definition outcome_of :: "ledger_entry list \<Rightarrow> attempts \<Rightarrow> account_outcome" where
  "outcome_of entries m =
     (let won = (winning m \<noteq> None)
      in \<lparr>ac_completed = won, ac_cancelled = (\<not> won \<and> any_cancelled m),
          ac_failed = (\<not> won \<and> \<not> any_cancelled m),
          ac_terminal_outcome =
            (if won then ''completed'' else if any_cancelled m then ''cancelled'' else ''failed''),
          ac_attempt_count = length m,
          ac_reconcile =
            \<lparr>rr_ok = True,
             rr_reason = ''reconciled '' @ show_nat (length entries) @ '' entries across '' @
               show_nat (length m) @ '' attempt(s)'',
             rr_entries = length entries, rr_attempts = length m, rr_duplicate_ignored = 0,
             rr_declared_useful_work = d_zero, rr_declared_wasted_work = d_zero\<rparr>,
          ac_aggregate_provenance_name = ''derived''\<rparr>)"

definition reconcile_request :: "(double \<Rightarrow> u64) \<Rightarrow> ledger_entry list \<Rightarrow> request_id \<Rightarrow> request_account" where
  "reconcile_request unspec entries request =
     (let t = tally_of unspec entries
      in \<lparr>ac_identity = identity_of entries request, ac_timing = timing_of t,
          ac_transfers = transfers_of t, ac_memory = memory_of t, ac_counts = counts_of t,
          ac_work = work_of t, ac_outcome = outcome_of entries (ty_attempts t)\<rparr>)"

section \<open>Ratios\<close>

definition reject_spec_work :: "request_account \<Rightarrow> double" where
  "reject_spec_work a = q_value (ac_spec_wasted_work_s (ac_work a))"

text \<open>The locals \<^verbatim>\<open>waste\<close> and \<^verbatim>\<open>total\<close> of \<^verbatim>\<open>waste_ratio\<close>.\<close>

definition wasted_work :: "request_account \<Rightarrow> double" where
  "wasted_work a =
     d_add (d_add (q_value (ac_failed_attempt_work (ac_work a)))
                  (q_value (ac_cancelled_work (ac_work a)))) (reject_spec_work a)"

definition total_work :: "request_account \<Rightarrow> double" where
  "total_work a = d_add (q_value (ac_execution_s (ac_timing a))) (wasted_work a)"

definition waste_ratio :: "request_account \<Rightarrow> double" where
  "waste_ratio a =
     (if d_lt d_zero (total_work a) then d_div (wasted_work a) (total_work a) else d_zero)"

definition reuse_credit :: "request_account \<Rightarrow> double" where
  "reuse_credit a =
     d_add (q_value (ac_reuse_avoided_work (ac_work a))) (q_value (ac_reused_work (ac_work a)))"

definition reuse_rate :: "request_account \<Rightarrow> double" where
  "reuse_rate a =
     (let useful = q_value (ac_execution_s (ac_timing a)); reused = q_value (ac_reused_work (ac_work a))
      in if d_lt d_zero (d_add useful reused) then d_div reused (d_add useful reused) else d_zero)"

definition spec_acceptance_efficiency :: "request_account \<Rightarrow> double" where
  "spec_acceptance_efficiency a =
     (if 0 < ac_spec_proposed (ac_counts a)
      then d_div (d_of_u64 (ac_spec_accepted (ac_counts a))) (d_of_u64 (ac_spec_proposed (ac_counts a)))
      else d_zero)"

definition account_cost_per_token :: "request_account \<Rightarrow> double" where
  "account_cost_per_token a = d_zero"

section \<open>The loop as independent folds\<close>

lemma tally_fold:
  "foldl (tally_step u) t es =
     \<lparr>ty_attempts = foldl (attempts_step u) (ty_attempts t) es,
      ty_window = foldl window_step (ty_window t) es, ty_time = foldl time_step (ty_time t) es,
      ty_kv = foldl kv_step (ty_kv t) es, ty_tensor = foldl tensor_step (ty_tensor t) es,
      ty_bytes = foldl bytes_step (ty_bytes t) es, ty_counts = foldl (counts_step u) (ty_counts t) es\<rparr>"
  by (induction es arbitrary: t) (simp_all add: tally_step_def)

lemma attempts_step_at:
  "attempt_at (attempts_step u m e) a =
     (if a = e_attempt e then attempt_step u (attempt_at m a) e else attempt_at m a)"
  by (simp add: attempts_step_def attempt_at_def map_find_put Let_def)

text \<open>Each attempt is the fold of its own entries.\<close>

lemma attempts_at_fold:
  "attempt_at (foldl (attempts_step u) m es) a =
     foldl (attempt_step u) (attempt_at m a) (filter (\<lambda>e. e_attempt e = a) es)"
  by (induction es arbitrary: m) (auto simp: attempts_step_at)

lemma attempts_known:
  "map_find (foldl (attempts_step u) m es) a = None \<longleftrightarrow> map_find m a = None \<and> a \<notin> e_attempt ` set es"
  by (induction es arbitrary: m) (auto simp: attempts_step_def map_find_put Let_def)

lemma attempts_wf: "map_wf m \<Longrightarrow> map_wf (foldl (attempts_step u) m es)"
  by (induction es arbitrary: m) (simp_all add: attempts_step_def Let_def)

lemma attempts_of: "ty_attempts (tally_of u es) = foldl (attempts_step u) [] es"
  by (simp add: tally_of_def tally_fold tally_init_def)

section \<open>The winning attempt\<close>

definition successful :: "attempt_attr \<Rightarrow> bool" where
  "successful a = (at_completed a \<and> \<not> at_failed a \<and> \<not> at_cancelled a)"

definition best_in :: "attempts \<Rightarrow> (attempt_id \<times> u64) option \<Rightarrow> bool" where
  "best_in m best =
     (case best of
        None \<Rightarrow> (\<forall>kv \<in> set m. \<not> successful (snd kv))
      | Some (x, ns) \<Rightarrow>
          (\<exists>a. (x, a) \<in> set m \<and> successful a \<and> at_terminal_ns a = ns) \<and>
          (\<forall>kv \<in> set m. successful (snd kv) \<longrightarrow> at_terminal_ns (snd kv) \<le> ns))"

lemma best_in_step: "best_in m b \<Longrightarrow> best_in (m @ [kv]) (winner_step b kv)"
proof (cases b)
  case None
  assume "best_in m b"
  with None show ?thesis
    by (cases kv) (auto simp: best_in_def winner_step_def successful_def Let_def)
next
  case (Some p)
  assume b: "best_in m b"
  obtain x ns y a where p: "p = (x, ns)" and kv: "kv = (y, a)" by (cases p, cases kv)
  show ?thesis
  proof (cases "successful a \<and> ns \<le> at_terminal_ns a")
    case True
    then have "winner_step b kv = Some (y, at_terminal_ns a)"
      by (simp add: winner_step_def successful_def kv Some p Let_def)
    with True b show ?thesis by (force simp: best_in_def kv Some p)
  next
    case False
    then have "winner_step b kv = b"
      by (auto simp: winner_step_def successful_def kv Some p Let_def)
    with False b show ?thesis by (auto simp: best_in_def kv Some p)
  qed
qed

lemma winner_fold: "best_in m (foldl winner_step None m)"
  by (induction m rule: rev_induct) (simp_all add: best_in_step, simp add: best_in_def)

section \<open>Times are not negative\<close>

lemma sec_nn [simp]: "d_nn (sec ns)"
proof -
  have "\<not> isnan (d_of_u64 ns)" "\<not> dsign (d_of_u64 ns)"
    by (simp_all add: d_of_u64_def d_of_nat_def isnan_def round_mag_le not_less)
  moreover have "isfinite kNsPerSecond" "\<not> dsign kNsPerSecond" "dmag kNsPerSecond \<noteq> 0"
    by (simp_all add: kNsPerSecond_def isfinite_def dsign_def dmag_def inf_mag_def)
  ultimately show ?thesis unfolding sec_def by (rule d_div_nn)
qed

lemma dur_sec_nn [simp]: "d_nn (dur_sec e)"
  by (simp add: dur_sec_def)

definition attempt_nn :: "attempt_attr \<Rightarrow> bool" where
  "attempt_nn a =
     (d_nn (at_exec_s a) \<and> d_nn (at_prefill_s a) \<and> d_nn (at_decode_s a) \<and> d_nn (at_gpu_s a) \<and>
      d_nn (at_cpu_s a) \<and> d_nn (at_spec_rej_s a))"

lemma attempt_nn_step: "attempt_nn a \<Longrightarrow> attempt_nn (attempt_step u a e)"
  by (simp add: attempt_nn_def attempt_step_def Let_def split: event_kind.split)

lemma attempt_nn_fold: "attempt_nn a \<Longrightarrow> attempt_nn (foldl (attempt_step u) a es)"
  by (induction es arbitrary: a) (simp_all add: attempt_nn_step)

lemma attempt_nn_default [simp]: "attempt_nn attempt_default"
  by (simp add: attempt_nn_def attempt_default_def)

lemma attempt_nn_at: "attempt_nn (attempt_at (ty_attempts (tally_of u es)) x)"
  using attempts_at_fold [of u "[]" es x] attempt_nn_fold
  by (simp add: attempts_of attempt_at_def)

lemma attempt_nn_in:
  assumes "(x, a) \<in> set (ty_attempts (tally_of u es))"
  shows "attempt_nn a"
proof -
  have "map_find (ty_attempts (tally_of u es)) x = Some a"
    using assms attempts_wf [of "[]" u es] by (simp add: attempts_of map_find_of_set)
  then show ?thesis using attempt_nn_at [of u es x] by (simp add: attempt_at_def)
qed

definition waste_nn :: "waste \<Rightarrow> bool" where
  "waste_nn w = (d_nn (wa_failed w) \<and> d_nn (wa_cancelled w) \<and> d_nn (wa_spec w))"

lemma waste_nn_fold:
  "waste_nn w \<Longrightarrow> \<forall>kv \<in> set m. attempt_nn (snd kv) \<Longrightarrow> waste_nn (foldl (waste_step win) w m)"
  by (induction m arbitrary: w) (simp_all add: waste_nn_def waste_step_def attempt_nn_def Let_def)

lemma waste_nn_of: "waste_nn (waste_of (ty_attempts (tally_of u es)))"
proof -
  let ?m = "ty_attempts (tally_of u es)"
  have "waste_nn (foldl (waste_step (winning ?m))
      \<lparr>wa_failed = d_zero, wa_cancelled = d_zero, wa_spec = d_zero\<rparr> ?m)"
    using attempt_nn_in by (intro waste_nn_fold) (auto simp: waste_nn_def)
  moreover have "d_nn (at_spec_rej_s (attempt_at ?m x))" for x
    using attempt_nn_at [of u es x] by (simp add: attempt_nn_def)
  ultimately show ?thesis
    by (cases "winning ?m") (simp_all add: waste_of_def waste_nn_def Let_def)
qed

lemma useful_nn: "attempt_nn (useful_attempt (ty_attempts (tally_of u es)))"
  using attempt_nn_at [of u es] by (simp add: useful_attempt_def split: option.split)

lemma time_nn_fold:
  "d_nn (tt_queue_s t) \<and> d_nn (tt_batch_s t) \<and> d_nn (tt_trans_dur t) \<and> d_nn (tt_recompute_s t) \<Longrightarrow>
     d_nn (tt_queue_s (foldl time_step t es)) \<and> d_nn (tt_batch_s (foldl time_step t es)) \<and>
     d_nn (tt_trans_dur (foldl time_step t es)) \<and> d_nn (tt_recompute_s (foldl time_step t es))"
proof (induction es arbitrary: t)
  case (Cons e es)
  then have "d_nn (tt_queue_s (time_step t e)) \<and> d_nn (tt_batch_s (time_step t e)) \<and>
      d_nn (tt_trans_dur (time_step t e)) \<and> d_nn (tt_recompute_s (time_step t e))"
    by (simp add: time_step_def Let_def split: event_kind.split)
  with Cons.IH show ?case by simp
qed simp

section \<open>Peaks\<close>

definition memory_ok :: "tally_memory \<Rightarrow> bool" where
  "memory_ok m = (d_nn (tm_live m) \<and> d_nn (tm_peak m) \<and> d_le (tm_live m) (tm_peak m))"

lemma memory_ok_allocate:
  "memory_ok m \<Longrightarrow> d_nn v \<Longrightarrow> memory_ok (memory_allocate m v) \<and> d_le (tm_peak m) (tm_peak (memory_allocate m v))"
  using d_max_ge [of "tm_peak m" "d_add (tm_live m) v"] d_add_nn [of "tm_live m" v]
  by (auto simp: memory_ok_def memory_allocate_def d_nn_def d_le_def)

lemma memory_ok_release:
  assumes "memory_ok m" "d_nn v"
  shows "memory_ok (memory_release m v) \<and> d_le (tm_peak m) (tm_peak (memory_release m v))"
proof -
  have "d_le (d_max d_zero (d_sub (tm_live m) v)) (tm_peak m) \<and> d_nn (d_max d_zero (d_sub (tm_live m) v))"
    using d_sub_nn_le [of "tm_live m" v] assms d_nn_zero
    by (auto simp: memory_ok_def d_max_def d_nn_def d_lt_def d_le_def)
  with assms show ?thesis by (simp add: memory_ok_def memory_release_def d_le_refl d_nn_def)
qed

lemma kv_step_memory:
  assumes "memory_ok m" "e_event_kind e \<in> {KvAllocate, KvRelease} \<longrightarrow> d_nn (q_value (e_quantity e))"
  shows "memory_ok (kv_step m e) \<and> d_le (tm_peak m) (tm_peak (kv_step m e))"
  using assms memory_ok_allocate [OF assms(1)] memory_ok_release [OF assms(1)]
  by (auto simp: kv_step_def Let_def memory_reuse_def memory_ok_def d_le_refl d_nn_def
      split: event_kind.splits)

lemma kv_fold_memory:
  "memory_ok m \<Longrightarrow> \<forall>e \<in> set es. e_event_kind e \<in> {KvAllocate, KvRelease} \<longrightarrow> d_nn (q_value (e_quantity e)) \<Longrightarrow>
     memory_ok (foldl kv_step m es) \<and> d_le (tm_peak m) (tm_peak (foldl kv_step m es))"
proof (induction es arbitrary: m)
  case Nil
  then show ?case by (simp add: memory_ok_def d_le_refl d_nn_def)
next
  case (Cons e es)
  then have "memory_ok (kv_step m e) \<and> d_le (tm_peak m) (tm_peak (kv_step m e))"
    by (intro kv_step_memory) auto
  moreover from this Cons have "memory_ok (foldl kv_step (kv_step m e) es) \<and>
      d_le (tm_peak (kv_step m e)) (tm_peak (foldl kv_step (kv_step m e) es))"
    by simp
  ultimately show ?case using d_le_trans by auto
qed

text \<open>The highest live value is one that some prefix of the entries reached.\<close>

lemma kv_peak_attained:
  assumes "tm_peak m = tm_live m"
  shows "\<exists>n \<le> length es. tm_peak (foldl kv_step m es) = tm_live (foldl kv_step m (take n es))"
proof (induction es rule: rev_induct)
  case (snoc e es)
  then obtain n where n: "n \<le> length es"
      "tm_peak (foldl kv_step m es) = tm_live (foldl kv_step m (take n es))"
    by auto
  let ?m = "foldl kv_step m es"
  have "tm_peak (kv_step ?m e) = tm_peak ?m \<or> tm_peak (kv_step ?m e) = tm_live (kv_step ?m e)"
    by (simp add: kv_step_def Let_def memory_allocate_def memory_release_def memory_reuse_def
        d_max_def split: event_kind.split)
  then show ?case
  proof
    assume "tm_peak (kv_step ?m e) = tm_peak ?m"
    with n show ?thesis by (intro exI [of _ n]) simp
  next
    assume "tm_peak (kv_step ?m e) = tm_live (kv_step ?m e)"
    then show ?thesis by (intro exI [of _ "length (es @ [e])"]) simp
  qed
qed (use assms in simp)

lemma kv_of: "ty_kv (tally_of u es) =
    foldl kv_step \<lparr>tm_alloc = d_zero, tm_live = d_zero, tm_peak = d_zero, tm_reuse = d_zero\<rparr> es"
  by (simp add: tally_of_def tally_fold tally_init_def)

section \<open>The outcome in terms of the entries\<close>

lemma flags_fold:
  "at_completed (foldl (attempt_step u) a es) \<longleftrightarrow> at_completed a \<or> RequestEnd \<in> e_event_kind ` set es"
  "at_failed (foldl (attempt_step u) a es) \<longleftrightarrow> at_failed a \<or> Failure \<in> e_event_kind ` set es"
  "at_cancelled (foldl (attempt_step u) a es) \<longleftrightarrow> at_cancelled a \<or> Cancellation \<in> e_event_kind ` set es"
  by (induction es arbitrary: a) (auto simp: attempt_step_def Let_def split: event_kind.splits)

lemma winning_exists: "winning m \<noteq> None \<longleftrightarrow> (\<exists>kv \<in> set m. successful (snd kv))"
  using winner_fold [of m]
  by (cases "foldl winner_step None m") (force simp: best_in_def winning_def)+

text \<open>The attempts that succeed: ended, and neither failed nor cancelled.\<close>

definition attempt_succeeds :: "ledger_entry list \<Rightarrow> attempt_id \<Rightarrow> bool" where
  "attempt_succeeds es x =
     (list_ex (\<lambda>e. e_attempt e = x \<and> e_event_kind e = RequestEnd) es \<and>
      \<not> list_ex (\<lambda>e. e_attempt e = x \<and> (e_event_kind e = Failure \<or> e_event_kind e = Cancellation)) es)"

lemma attempts_in:
  "(x, a) \<in> set (ty_attempts (tally_of u es)) \<longleftrightarrow>
     x \<in> e_attempt ` set es \<and> a = foldl (attempt_step u) attempt_default (filter (\<lambda>e. e_attempt e = x) es)"
proof -
  let ?m = "foldl (attempts_step u) [] es"
  have "map_wf ?m" by (rule attempts_wf) (simp add: map_wf_def)
  then have "(x, a) \<in> set ?m \<longleftrightarrow> map_find ?m x = Some a" by (rule set_map_of_find)
  moreover have "attempt_at ?m x = foldl (attempt_step u) attempt_default (filter (\<lambda>e. e_attempt e = x) es)"
    using attempts_at_fold [of u "[]" es x] by (simp add: attempt_at_def)
  moreover have "map_find ?m x = None \<longleftrightarrow> x \<notin> e_attempt ` set es"
    using attempts_known [of u "[]" es x] by simp
  ultimately show ?thesis by (cases "map_find ?m x") (auto simp: attempts_of attempt_at_def)
qed

lemma kind_among: "k \<in> e_event_kind ` set (filter P es) \<longleftrightarrow> (\<exists>e \<in> set es. P e \<and> e_event_kind e = k)"
  by auto

lemma successful_fold:
  "successful (foldl (attempt_step u) attempt_default (filter (\<lambda>e. e_attempt e = x) es)) \<longleftrightarrow> attempt_succeeds es x"
  unfolding successful_def flags_fold attempt_succeeds_def list_ex_iff kind_among
    conj_disj_distribL bex_disj_distrib de_Morgan_disj
  by (simp add: attempt_default_def)

lemma completed_by:
  "ac_completed (ac_outcome (reconcile_request u es r)) \<longleftrightarrow> list_ex (\<lambda>e. attempt_succeeds es (e_attempt e)) es"
proof -
  let ?m = "ty_attempts (tally_of u es)"
  have "(\<exists>kv \<in> set ?m. successful (snd kv)) \<longleftrightarrow> (\<exists>x a. (x, a) \<in> set ?m \<and> successful a)" by force
  also have "\<dots> \<longleftrightarrow> (\<exists>x \<in> e_attempt ` set es. attempt_succeeds es x)"
    by (auto simp: attempts_in successful_fold)
  finally have "winning ?m \<noteq> None \<longleftrightarrow> list_ex (\<lambda>e. attempt_succeeds es (e_attempt e)) es"
    by (simp add: winning_exists list_ex_iff del: not_None_eq)
  then show ?thesis by (simp add: reconcile_request_def outcome_of_def Let_def)
qed

lemma attempts_counted:
  "ac_attempt_count (ac_outcome (reconcile_request u es r)) = card (e_attempt ` set es)"
proof -
  let ?m = "ty_attempts (tally_of u es)"
  have "map_wf ?m" unfolding attempts_of by (rule attempts_wf) (simp add: map_wf_def)
  then have "distinct (map fst ?m)" by (rule map_wf_distinct)
  then have "length ?m = card (fst ` set ?m)" using distinct_card [of "map fst ?m"] by simp
  also have "fst ` set ?m = e_attempt ` set es"
    using attempts_in [of _ _ u es] by (force simp: image_iff)
  finally show ?thesis by (simp add: reconcile_request_def outcome_of_def Let_def)
qed

section \<open>Properties\<close>

text \<open>Attempts are accounted independently: what the reconciliation knows of an attempt is the
  fold of that attempt's own entries, and it knows exactly the attempts that have entries.\<close>

theorem attempts_independent:
  "attempt_at (ty_attempts (tally_of u es)) a =
     foldl (attempt_step u) attempt_default (filter (\<lambda>e. e_attempt e = a) es) \<and>
   (map_find (ty_attempts (tally_of u es)) a = None \<longleftrightarrow> a \<notin> e_attempt ` set es)"
  using attempts_at_fold [of u "[]" es a] attempts_known [of u "[]" es a]
  by (simp add: attempts_of attempt_at_def)

text \<open>C25: Reordering entries of different attempts does not change any per-attempt result: when two
  entry lists have the same entries of each attempt in the same order, the useful execution times,
  the token count, the wasted work and the outcome of the account agree.\<close>

theorem reconcile_interleaving:
  assumes "\<forall>a. filter (\<lambda>e. e_attempt e = a) es = filter (\<lambda>e. e_attempt e = a) fs"
  shows "useful_attempt (ty_attempts (tally_of u es)) = useful_attempt (ty_attempts (tally_of u fs)) \<and>
    waste_of (ty_attempts (tally_of u es)) = waste_of (ty_attempts (tally_of u fs)) \<and>
    ac_completed (ac_outcome (reconcile_request u es r)) = ac_completed (ac_outcome (reconcile_request u fs r)) \<and>
    ac_terminal_outcome (ac_outcome (reconcile_request u es r)) =
      ac_terminal_outcome (ac_outcome (reconcile_request u fs r))"
proof -
  let ?m = "\<lambda>xs. foldl (attempts_step u) [] xs"
  have at: "attempt_at (?m es) a = attempt_at (?m fs) a" for a
    using assms by (simp add: attempts_at_fold)
  have "a \<in> e_attempt ` set es \<longleftrightarrow> a \<in> e_attempt ` set fs" for a
  proof -
    have "a \<in> e_attempt ` set xs \<longleftrightarrow> filter (\<lambda>e. e_attempt e = a) xs \<noteq> []"
      for xs :: "ledger_entry list"
      by (auto simp: filter_empty_conv)
    then show ?thesis using assms by simp
  qed
  then have known: "map_find (?m es) a = None \<longleftrightarrow> map_find (?m fs) a = None" for a
    by (simp add: attempts_known)
  have "map_find (?m es) a = map_find (?m fs) a" for a
    using at [of a] known [of a] by (cases "map_find (?m es) a"; cases "map_find (?m fs) a") (auto simp: attempt_at_def)
  then have "?m es = ?m fs" by (intro map_wf_ext attempts_wf) auto
  then show ?thesis by (simp add: attempts_of reconcile_request_def outcome_of_def Let_def)
qed

theorem reconcile_interleaving_witness:
  "waste_of (ty_attempts (tally_of (\<lambda>_. 0)
      [entry_default\<lparr>e_attempt := Id128 0 1\<rparr>, entry_default\<lparr>e_attempt := Id128 0 2\<rparr>])) =
   waste_of (ty_attempts (tally_of (\<lambda>_. 0)
      [entry_default\<lparr>e_attempt := Id128 0 2\<rparr>, entry_default\<lparr>e_attempt := Id128 0 1\<rparr>]))"
  using reconcile_interleaving
    [of "[entry_default\<lparr>e_attempt := Id128 0 1\<rparr>, entry_default\<lparr>e_attempt := Id128 0 2\<rparr>]"
      "[entry_default\<lparr>e_attempt := Id128 0 2\<rparr>, entry_default\<lparr>e_attempt := Id128 0 1\<rparr>]" "\<lambda>_. 0"]
  by auto

text \<open>The winner is the latest success: an attempt wins exactly when some attempt ended without a
  failure or cancellation; the winner is one of those and no other of them ended later; a request
  is completed, cancelled or failed, exactly one of the three, and completed exactly when there is
  a winner.\<close>

theorem winning_latest:
  "(case winning m of
      None \<Rightarrow> \<forall>kv \<in> set m. \<not> successful (snd kv)
    | Some x \<Rightarrow> \<exists>a. (x, a) \<in> set m \<and> successful a \<and>
        list_all (\<lambda>kv. \<not> successful (snd kv) \<or> at_terminal_ns (snd kv) \<le> at_terminal_ns a) m) \<and>
   (ac_completed (outcome_of es m) \<longleftrightarrow> winning m \<noteq> None) \<and>
   ac_failed (outcome_of es m) = (\<not> ac_completed (outcome_of es m) \<and> \<not> ac_cancelled (outcome_of es m)) \<and>
   \<not> (ac_completed (outcome_of es m) \<and> ac_cancelled (outcome_of es m))"
proof -
  have "case winning m of
      None \<Rightarrow> \<forall>kv \<in> set m. \<not> successful (snd kv)
    | Some x \<Rightarrow> \<exists>a. (x, a) \<in> set m \<and> successful a \<and>
        list_all (\<lambda>kv. \<not> successful (snd kv) \<or> at_terminal_ns (snd kv) \<le> at_terminal_ns a) m"
    using winner_fold [of m]
    by (cases "foldl winner_step None m") (auto simp: best_in_def winning_def list_all_iff)
  then show ?thesis by (auto simp: outcome_of_def Let_def)
qed

theorem winning_latest_witness:
  "winning [(Id128 0 1, attempt_default\<lparr>at_completed := True\<rparr>)] = Some (Id128 0 1)"
  using winning_latest [of "[(Id128 0 1, attempt_default\<lparr>at_completed := True\<rparr>)]" "[]"]
  by (auto simp: successful_def attempt_default_def split: option.splits)

text \<open>No time in an account is negative or a NaN, whatever the entries hold: latency, queueing,
  batching, transfer, execution (with its parts), recomputation and the three kinds of waste.\<close>

theorem account_times_nonnegative:
  "list_all (\<lambda>q. d_nn (q_value q))
     (let t = ac_timing (reconcile_request u es r); w = ac_work (reconcile_request u es r)
      in [ac_wall_latency_s t, ac_queue_time_s t, ac_execution_s t, ac_prefill_s t, ac_decode_s t,
          ac_gpu_active_s t, ac_cpu_active_s t, ac_batch_wait_s t,
          ac_transfer_duration_s (ac_transfers (reconcile_request u es r)),
          ac_spec_wasted_work_s w, ac_failed_attempt_work w, ac_cancelled_work w,
          ac_recomputed_work w])"
  using useful_nn [of u es] waste_nn_of [of u es] time_nn_fold [of "ty_time tally_init" es]
  by (simp add: reconcile_request_def timing_of_def work_of_def transfers_of_def derived_q_def
      attempt_nn_def waste_nn_def wall_latency_def tally_of_def tally_fold tally_init_def Let_def)

text \<open>C27: The waste ratio of a reconciled account lies between zero and one whenever the total work
  is finite.\<close>

theorem waste_ratio_unit_interval:
  assumes "isfinite (total_work (reconcile_request u es r))"
  shows "d_nn (waste_ratio (reconcile_request u es r)) \<and>
    d_le (waste_ratio (reconcile_request u es r)) (d_of_nat 1)"
proof -
  let ?a = "reconcile_request u es r"
  have nn: "d_nn (wasted_work ?a)" "d_nn (q_value (ac_execution_s (ac_timing ?a)))"
    using useful_nn [of u es] waste_nn_of [of u es]
    by (simp_all add: wasted_work_def reject_spec_work_def reconcile_request_def timing_of_def
        work_of_def derived_q_def attempt_nn_def waste_nn_def Let_def)
  have le: "d_le (wasted_work ?a) (total_work ?a)"
    unfolding total_work_def by (subst d_add_comm) (rule d_add_nn_ge [OF nn])
  show ?thesis
  proof (cases "d_lt d_zero (total_work ?a)")
    case True
    then have "0 < dord (total_work ?a)" by (simp add: d_lt_def)
    with True d_div_unit_interval [OF assms nn(1) le] show ?thesis by (simp add: waste_ratio_def)
  next
    case False
    then show ?thesis
      by (simp add: waste_ratio_def d_le_def d_of_nat_def isnan_def round_mag_le not_less) (simp add: dord_def)
  qed
qed

theorem waste_ratio_unit_interval_witness:
  "d_le (waste_ratio (reconcile_request (\<lambda>_. 0) [] (Id128 0 1))) (d_of_nat 1)"
proof -
  have "total_work (reconcile_request (\<lambda>_. 0) [] (Id128 0 1)) = d_zero"
    by (simp add: total_work_def wasted_work_def reject_spec_work_def reconcile_request_def timing_of_def
        work_of_def derived_q_def tally_of_def tally_init_def useful_attempt_def waste_of_def winning_def
        attempt_default_def Let_def d_zero_plus_zero)
  then have "isfinite (total_work (reconcile_request (\<lambda>_. 0) [] (Id128 0 1)))" by simp
  from waste_ratio_unit_interval [OF this] show ?thesis ..
qed



end
