(* ===== verification/Query.thy ===== *)
theory Query
  imports Account "HOL-Library.Multiset"
begin

text \<open>
  \<^verbatim>\<open>query.hpp\<close> and \<^verbatim>\<open>query.cpp\<close>: filtering a snapshot, the requests in it, grouping by
  request, and aggregates over accounts.
\<close>

section \<open>Filtering\<close>

record ledger_query =
  lq_request :: "request_id option"
  lq_tenant :: "tenant_id option"
  lq_model :: "model_id option"
  lq_model_revision :: "model_revision_id option"
  lq_adapter :: "adapter_id option"
  lq_batch :: "batch_id option"
  lq_attempt :: "attempt_id option"
  lq_worker :: "worker_id option"
  lq_device :: "device_id option"
  lq_event_kind :: "event_kind option"
  lq_resource_kind :: "resource_kind option"
  lq_start_ns :: "u64 option"
  lq_end_ns :: "u64 option"
  lq_pricing_policy :: "pricing_policy_id option"
  lq_outcome :: string

definition query_default :: ledger_query where
  "query_default =
     \<lparr>lq_request = None, lq_tenant = None, lq_model = None, lq_model_revision = None,
      lq_adapter = None, lq_batch = None, lq_attempt = None, lq_worker = None, lq_device = None,
      lq_event_kind = None, lq_resource_kind = None, lq_start_ns = None, lq_end_ns = None,
      lq_pricing_policy = None, lq_outcome = ''''\<rparr>"

definition wanted :: "'a option \<Rightarrow> ('a \<Rightarrow> bool) \<Rightarrow> bool" where
  "wanted x p = (case x of None \<Rightarrow> True | Some v \<Rightarrow> p v)"

text \<open>The conditions of the loop body, in order; each failing one is a \<^verbatim>\<open>continue\<close>.\<close>

definition query_matches :: "ledger_query \<Rightarrow> ledger_entry \<Rightarrow> bool" where
  "query_matches q e =
     (wanted (lq_request q) (\<lambda>v. e_request e = v) \<and>
      wanted (lq_tenant q) (\<lambda>v. e_tenant e = v) \<and>
      wanted (lq_model q) (\<lambda>v. e_model e = v) \<and>
      wanted (lq_model_revision q) (\<lambda>v. e_model_revision e = v) \<and>
      wanted (lq_adapter q) (\<lambda>v. e_has_adapter e \<and> e_adapter e = v) \<and>
      wanted (lq_attempt q) (\<lambda>v. e_attempt e = v) \<and>
      wanted (lq_worker q) (\<lambda>v. e_worker e = v) \<and>
      wanted (lq_device q) (\<lambda>v. e_device e = v) \<and>
      wanted (lq_event_kind q) (\<lambda>v. e_event_kind e = v) \<and>
      wanted (lq_resource_kind q) (\<lambda>v. e_resource_kind e = v) \<and>
      wanted (lq_start_ns q) (\<lambda>v. \<not> e_start_ts_ns e < v) \<and>
      wanted (lq_end_ns q) (\<lambda>v. \<not> v < e_start_ts_ns e) \<and>
      wanted (lq_batch q) (\<lambda>v. map_find (e_metadata e) ''batch'' = Some (id_to_string v)) \<and>
      (lq_outcome q = [] \<or> map_find (e_metadata e) ''outcome'' = Some (lq_outcome q)))"

primrec query_ledger :: "ledger_entry list \<Rightarrow> ledger_query \<Rightarrow> ledger_entry list" where
  "query_ledger [] q = []"
| "query_ledger (e # es) q =
     (if query_matches q e then e # query_ledger es q else query_ledger es q)"

section \<open>Requests\<close>

definition distinct_step :: "request_id set \<times> request_id list \<Rightarrow> ledger_entry \<Rightarrow> request_id set \<times> request_id list" where
  "distinct_step s e =
     (case s of (seen, out) \<Rightarrow>
        if is_zero (e_request e) then (seen, out)
        else if e_request e \<notin> seen then (insert (e_request e) seen, out @ [e_request e])
        else (seen, out))"

definition distinct_requests :: "ledger_entry list \<Rightarrow> request_id list" where
  "distinct_requests entries = snd (foldl distinct_step ({}, []) entries)"

definition group_step ::
    "(request_id, unit) omap \<times> (request_id, ledger_entry list) omap \<Rightarrow> ledger_entry \<Rightarrow>
     (request_id, unit) omap \<times> (request_id, ledger_entry list) omap" where
  "group_step s e =
     (case s of (order, m) \<Rightarrow>
        if is_zero (e_request e) then (order, m)
        else (map_emplace (e_request e) () order, map_push (e_request e) e m))"

definition group_by_request :: "ledger_entry list \<Rightarrow> (request_id \<times> ledger_entry list) list" where
  "group_by_request entries =
     (case foldl group_step ([], []) entries of (order, m) \<Rightarrow>
        map (\<lambda>(req, _). (req, case map_find m req of None \<Rightarrow> [] | Some es \<Rightarrow> es)) order)"

section \<open>Aggregates\<close>

record aggregate =
  ag_requests :: nat
  ag_cost_per_request :: double
  ag_cost_per_token :: double
  ag_gpu_seconds_per_request :: double
  ag_gpu_seconds_per_token :: double
  ag_transfer_bytes_per_request :: double
  ag_kv_bytes_per_request :: double
  ag_waste_ratio_avg :: double
  ag_retry_overhead :: double
  ag_reuse_rate_avg :: double
  ag_avoided_work :: double
  ag_total_cost :: double
  ag_total_gpu_s :: double
  ag_total_tokens :: double

text \<open>The sum the loop accumulates in one variable.\<close>

definition sum_over :: "('a \<Rightarrow> double) \<Rightarrow> 'a list \<Rightarrow> double" where
  "sum_over f xs = foldl (\<lambda>s x. d_add s (f x)) d_zero xs"

definition transfer_total :: "request_account \<Rightarrow> double" where
  "transfer_total acc =
     d_add (d_add (q_value (ac_h2d_bytes (ac_transfers acc))) (q_value (ac_d2h_bytes (ac_transfers acc))))
       (q_value (ac_inter_node_bytes (ac_transfers acc)))"

definition aggregate_accounts :: "request_account list \<Rightarrow> aggregate" where
  "aggregate_accounts accounts =
     (let gpu = sum_over (\<lambda>a. q_value (ac_gpu_active_s (ac_timing a))) accounts;
          tokens = sum_over (\<lambda>a. d_of_u64 (ac_generated_tokens (ac_counts a))) accounts;
          n = (if accounts = [] then d_of_nat 1 else d_of_nat (length accounts));
          cost = d_zero
      in \<lparr>ag_requests = length accounts, ag_cost_per_request = d_zero,
          ag_cost_per_token = (if d_lt d_zero tokens then d_div cost tokens else d_zero),
          ag_gpu_seconds_per_request = d_div gpu n,
          ag_gpu_seconds_per_token = (if d_lt d_zero tokens then d_div gpu tokens else d_zero),
          ag_transfer_bytes_per_request = d_div (sum_over transfer_total accounts) n,
          ag_kv_bytes_per_request =
            d_div (sum_over (\<lambda>a. q_value (ac_kv_allocated (ac_memory a))) accounts) n,
          ag_waste_ratio_avg = d_div (sum_over waste_ratio accounts) n,
          ag_retry_overhead = d_div (sum_over (\<lambda>a. d_of_u64 (ac_retries (ac_counts a))) accounts) n,
          ag_reuse_rate_avg = d_div (sum_over reuse_rate accounts) n,
          ag_avoided_work = sum_over (\<lambda>a. d_add (q_value (ac_reuse_avoided_work (ac_work a)))
            (q_value (ac_reused_work (ac_work a)))) accounts,
          ag_total_cost = cost, ag_total_gpu_s = gpu, ag_total_tokens = tokens\<rparr>)"

section \<open>Lemmas\<close>

lemma query_ledger_filter: "query_ledger es q = filter (query_matches q) es"
  by (induction es) simp_all

definition named :: "ledger_entry \<Rightarrow> bool" where
  "named e = (\<not> is_zero (e_request e))"

lemma group_fold:
  "foldl group_step (o', m) es =
     (foldl (\<lambda>o' e. map_emplace (e_request e) () o') o' (filter named es),
      foldl (\<lambda>m e. map_push (e_request e) e m) m (filter named es))"
  by (induction es arbitrary: o' m) (simp_all add: group_step_def named_def)

lemma order_fold:
  "map_wf o' \<Longrightarrow> map_wf (foldl (\<lambda>o' e. map_emplace (e_request e) () o') o' es) \<and>
     (\<forall>k. map_find (foldl (\<lambda>o' e. map_emplace (e_request e) () o') o' es) k \<noteq> None \<longleftrightarrow>
        map_find o' k \<noteq> None \<or> k \<in> e_request ` set es)"
proof (induction es arbitrary: o')
  case (Cons e es)
  then show ?case using Cons.IH [of "map_emplace (e_request e) () o'"] by (auto simp: map_find_emplace)
qed simp

lemma keys_of_find: "k \<in> fst ` set m \<longleftrightarrow> map_find m k \<noteq> None"
  by (simp add: map_find_def map_of_eq_None_iff)

lemma group_by_request_spec:
  "\<exists>rs. sorted_wrt (<) rs \<and> set rs = e_request ` set (filter named es) \<and>
     group_by_request es = map (\<lambda>r. (r, filter (\<lambda>e. e_request e = r) es)) rs"
proof -
  define ord where "ord = foldl (\<lambda>o' e. map_emplace (e_request e) () o') [] (filter named es)"
  define m where "m = foldl (\<lambda>m e. map_push (e_request e) e m) [] (filter named es)"
  have wf: "map_wf ord" and keys: "\<forall>k. map_find ord k \<noteq> None \<longleftrightarrow> k \<in> e_request ` set (filter named es)"
    using order_fold [of "[]" "filter named es"] by (simp_all add: ord_def)
  then have "set (map fst ord) = e_request ` set (filter named es)"
    using keys_of_find [of _ ord] by (auto simp: set_eq_iff)
  moreover have "group_by_request es = map (\<lambda>r. (r, filter (\<lambda>e. e_request e = r) es)) (map fst ord)"
  proof -
    have "(case map_find m r of None \<Rightarrow> [] | Some xs \<Rightarrow> xs) = filter (\<lambda>e. e_request e = r) es"
      if "r \<in> set (map fst ord)" for r
    proof -
      have r: "r \<in> e_request ` set (filter named es)" using that calculation by blast
      then have "map_find m r = Some (filter (\<lambda>e. e_request e = r) (filter named es))"
        by (simp add: m_def push_fold_Nil)
      moreover have "filter (\<lambda>e. e_request e = r) (filter named es) = filter (\<lambda>e. e_request e = r) es"
        using r by (auto simp: named_def intro: filter_cong)
      ultimately show ?thesis by simp
    qed
    then have "map (\<lambda>p. (fst p, case map_find m (fst p) of None \<Rightarrow> [] | Some es \<Rightarrow> es)) ord =
        map (\<lambda>p. (fst p, filter (\<lambda>e. e_request e = fst p) es)) ord"
      by (intro map_cong) auto
    then show ?thesis
      by (simp add: group_by_request_def group_fold ord_def [symmetric] m_def [symmetric]
          case_prod_beta comp_def)
  qed
  ultimately show ?thesis using wf unfolding map_wf_def by blast
qed

lemma mset_concat_groups:
  "distinct rs \<Longrightarrow> mset (concat (map (\<lambda>r. filter (\<lambda>e. f e = r) es) rs)) =
     mset (filter (\<lambda>e. f e \<in> set rs) es)"
proof (induction rs)
  case (Cons r rs)
  have "mset (filter (\<lambda>e. f e \<in> set (r # rs)) es) =
      mset (filter (\<lambda>e. f e = r) es) + mset (filter (\<lambda>e. f e \<in> set rs) es)"
    using Cons.prems by (induction es) auto
  with Cons show ?case by simp
qed simp

section \<open>Properties\<close>

text \<open>Grouping loses and invents nothing: the groups come in strictly increasing order of request
  identity (not in the order in which requests were first seen), each group is its request's
  entries in their original order, and together they are exactly the entries that name a
  request.\<close>

theorem group_by_request_partition:
  "sorted_wrt (<) (map fst (group_by_request es)) \<and>
   list_all (\<lambda>(r, g). g = filter (\<lambda>e. e_request e = r) es) (group_by_request es) \<and>
   mset (concat (map snd (group_by_request es))) = mset (filter (\<lambda>e. \<not> is_zero (e_request e)) es)"
proof -
  obtain rs where rs: "sorted_wrt (<) rs" "set rs = e_request ` set (filter named es)"
      "group_by_request es = map (\<lambda>r. (r, filter (\<lambda>e. e_request e = r) es)) rs"
    using group_by_request_spec by blast
  have "filter (\<lambda>e. e_request e \<in> set rs) es = filter (\<lambda>e. \<not> is_zero (e_request e)) es"
    by (rule filter_cong) (auto simp: rs(2) named_def)
  then have "mset (concat (map snd (group_by_request es))) = mset (filter (\<lambda>e. \<not> is_zero (e_request e)) es)"
    using rs mset_concat_groups [of rs e_request es] by (simp only: strict_sorted_iff map_map comp_def snd_conv)
  with rs show ?thesis by (simp add: comp_def list_all_iff)
qed

text \<open>The distinct requests of a snapshot are its non-zero request identities, each once, in order
  of first appearance.\<close>

theorem distinct_requests_first_seen:
  "distinct_requests es = rev (remdups (rev (map e_request (filter (\<lambda>e. \<not> is_zero (e_request e)) es))))"
proof -
  have "foldl distinct_step ({}, []) es =
      (e_request ` set (filter named es), rev (remdups (rev (map e_request (filter named es)))))"
    by (induction es rule: rev_induct) (auto simp: distinct_step_def named_def)
  then show ?thesis by (simp add: distinct_requests_def named_def [abs_def])
qed

text \<open>A query returns, in ledger order and with their multiplicity, exactly the entries that
  satisfy every condition it sets; the pricing policy it may name is not a condition.\<close>

theorem query_ledger_exact:
  "query_ledger es q = filter (query_matches q) es \<and>
   query_ledger es (q\<lparr>lq_pricing_policy := p\<rparr>) = query_ledger es q"
  by (simp add: query_ledger_filter query_matches_def [abs_def])

text \<open>Aggregates carry no cost: for every list of accounts the total cost and the costs per
  request and per token are zero.\<close>

theorem aggregate_costs_zero:
  "ag_total_cost (aggregate_accounts accs) = d_zero \<and>
   ag_cost_per_request (aggregate_accounts accs) = d_zero \<and>
   ag_cost_per_token (aggregate_accounts accs) = d_zero"
proof -
  have "d_div d_zero t = d_zero" if "d_lt d_zero t" for t
  proof -
    have t: "\<not> isnan t" "\<not> dsign t" "dmag t \<noteq> 0"
      using that by (auto simp: d_lt_def dord_def split: if_splits)
    show ?thesis
      using t d_nn_zero
      by (simp add: d_div_def d_nn_def) (simp add: isinf_def d_zero_def inf_mag_def)
  qed
  then show ?thesis by (simp add: aggregate_accounts_def Let_def)
qed

end
