(* ===== verification/Restart.thy ===== *)
theory Restart
  imports Persistence Query
begin

text \<open>
  What a ledger keeps through a file: the codec drops the values of absent optional fields
  (\<open>normalize_entry\<close>), and nothing that is computed from entries depends on them.
\<close>

section \<open>What a round trip through a file keeps\<close>

lemma normalize_fields [simp]:
  "e_event_kind (normalize_entry e) = e_event_kind e" "e_attempt (normalize_entry e) = e_attempt e"
  "e_has_end (normalize_entry e) = e_has_end e" "e_start_ts_ns (normalize_entry e) = e_start_ts_ns e"
  "e_end_ts_ns (normalize_entry e) = e_end_ts_ns e" "e_tenant (normalize_entry e) = e_tenant e"
  "e_workload (normalize_entry e) = e_workload e" "e_model (normalize_entry e) = e_model e"
  "e_model_revision (normalize_entry e) = e_model_revision e"
  "e_request (normalize_entry e) = e_request e" "e_worker (normalize_entry e) = e_worker e"
  "e_device (normalize_entry e) = e_device e" "e_has_adapter (normalize_entry e) = e_has_adapter e"
  "e_has_adapter e \<Longrightarrow> e_adapter (normalize_entry e) = e_adapter e"
  by (simp_all add: normalize_entry_def)

lemma steps_normalize:
  "attempt_step u a (normalize_entry e) = attempt_step u a e"
  "window_step w (normalize_entry e) = window_step w e"
  "time_step t (normalize_entry e) = time_step t e"
  "kv_step m (normalize_entry e) = kv_step m e"
  "tensor_step m (normalize_entry e) = tensor_step m e"
  "bytes_step b (normalize_entry e) = bytes_step b e"
  "counts_step u c (normalize_entry e) = counts_step u c e"
proof -
  have d: "dur_sec (normalize_entry e) = dur_sec e" by (simp add: dur_sec_def duration_ns_def)
  show "attempt_step u a (normalize_entry e) = attempt_step u a e"
    by (simp add: attempt_step_def d Let_def split: event_kind.split)
  show "window_step w (normalize_entry e) = window_step w e"
    by (simp add: window_step_def split: event_kind.split)
  show "time_step t (normalize_entry e) = time_step t e"
    by (simp add: time_step_def d Let_def split: event_kind.split)
  show "kv_step m (normalize_entry e) = kv_step m e" "tensor_step m (normalize_entry e) = tensor_step m e"
    by (simp_all add: kv_step_def tensor_step_def)
  show "bytes_step b (normalize_entry e) = bytes_step b e"
    by (simp add: bytes_step_def d Let_def split: event_kind.split)
  show "counts_step u c (normalize_entry e) = counts_step u c e"
    by (simp add: counts_step_def)
qed

lemma tally_step_normalize: "tally_step u t (normalize_entry e) = tally_step u t e"
  by (simp add: tally_step_def attempts_step_def steps_normalize)

lemma reconcile_normalize:
  "reconcile_request u (map normalize_entry es) r = reconcile_request u es r"
proof -
  have "tally_of u (map normalize_entry es) = tally_of u es"
    by (simp add: tally_of_def foldl_map tally_step_normalize)
  then show ?thesis
    by (simp add: reconcile_request_def outcome_of_def identity_of_def split: list.split)
qed

lemma query_normalize:
  "query_ledger (map normalize_entry es) q = map normalize_entry (query_ledger es q)"
proof -
  have "query_matches q (normalize_entry e) = query_matches q e" for e
    by (cases "lq_adapter q") (auto simp: query_matches_def wanted_def)
  then show ?thesis by (induction es) simp_all
qed

lemma normalized_equal:
  "list_all encodable es \<Longrightarrow> list_all2 entry_eq (map normalize_entry es) es"
  by (induction es) (auto simp: normalize_entry_eq content_encodable_def dest: encodable_frame)

lemma restart:
  assumes "ledger_inv l" "list_all encodable (snapshot l)"
    and "dv_openable dev p" "28 + length (frames_of (snapshot l)) \<le> dv_room dev p"
  shows "\<exists>d' l'. save_snapshot dev d (snapshot l) i p = (Inr (), d') \<and>
    replay_into d' None (ledger_new i) p = Some (Inr (), l') \<and> ledger_inv l' \<and>
    snapshot l' = map normalize_entry (snapshot l)"
proof -
  have "distinct (map e_id (snapshot l))"
    using ledger_inv_distinct [OF assms(1)] by (simp add: snapshot_def)
  from save_then_load [OF assms(2) this assms(3,4)] obtain d' r
    where r: "save_snapshot dev d (snapshot l) i p = (Inr (), d')" "load d' p = Some r" "lr_ok r"
      "lr_entries r = map normalize_entry (snapshot l)" by blast
  have "\<forall>e \<in> set (lr_entries r). content_is_valid e"
    using assms(2) by (auto simp: r(4) list_all_iff encodable_valid)
  from replay_loaded [OF r(2,3) this] r(1,4) show ?thesis by metis
qed

text \<open>Fresh valid entries are all kept by a new ledger without authority.\<close>

lemma appended_all:
  assumes "list_all content_is_valid es" "distinct (map e_id es)"
  shows "snapshot (append_all None (ledger_new i) es) = es" "ledger_inv (append_all None (ledger_new i) es)"
    "ledger_size (append_all None (ledger_new i) es) = length es"
proof -
  show s: "snapshot (append_all None (ledger_new i) es) = es"
    using log.run_fresh [OF ledger_inv_new assms(2), of i None] assms(1)
    by (simp add: append_all_foldl snapshot_def ledger_new_def admissible_detached list_all_iff)
  show "ledger_inv (append_all None (ledger_new i) es)"
    using log.inv_run [OF ledger_inv_new [of i], of None es] by (simp add: append_all_foldl)
  show "ledger_size (append_all None (ledger_new i) es) = length es"
    using s by (simp add: ledger_size_def snapshot_def)
qed

text \<open>The query the programs use: \<^verbatim>\<open>LedgerQuery{.request = r}\<close>.\<close>

definition by_request_id :: "request_id \<Rightarrow> ledger_query" where
  "by_request_id r = query_default\<lparr>lq_request := Some r\<rparr>"

lemma query_by_request: "query_ledger es (by_request_id r) = filter (\<lambda>e. e_request e = r) es"
proof -
  have "query_matches (by_request_id r) e \<longleftrightarrow> e_request e = r" for e
    by (auto simp: query_matches_def by_request_id_def query_default_def wanted_def)
  then show ?thesis by (induction es) simp_all
qed

end
