(* ===== verification/Multiprocess.thy ===== *)
theory Multiprocess
  imports Scenario Deployment Restart
begin

text \<open>
  The program of \<^verbatim>\<open>iledger_multiprocess.cpp\<close>: it writes the scripts of the scenario, starts a
  coordinator and workers as processes, reads what they print through pipes, and checks the
  acknowledgements, the saved ledger and its replay.

  The operating system is the parameter \<open>harness\<close>: which command lines start, the pieces of output
  that have been read from a child when it is looked at, and the disk once the children have ended.
\<close>

section \<open>Reading a child's output\<close>

abbreviation newline :: char where "newline \<equiv> CHR 0x0A"
abbreviation carriage_return :: char where "carriage_return \<equiv> CHR 0x0D"

definition drop_return :: "string \<Rightarrow> string" where
  "drop_return line = (if line \<noteq> [] \<and> last line = carriage_return then butlast line else line)"

text \<open>The inner loop: complete lines leave the accumulated text.\<close>

function cut_lines :: "string \<Rightarrow> string list \<times> string" where
  "cut_lines accum =
     (if newline \<in> set accum then
        (case cut_lines (tl (dropWhile (\<lambda>c. c \<noteq> newline) accum)) of (ls, rest) \<Rightarrow>
           (drop_return (takeWhile (\<lambda>c. c \<noteq> newline) accum) # ls, rest))
      else ([], accum))"
  by pat_completeness auto
termination
proof (relation "measure length")
  fix accum :: string
  assume "newline \<in> set accum"
  then have "dropWhile (\<lambda>c. c \<noteq> newline) accum \<noteq> []" by (simp add: dropWhile_eq_Nil_conv)
  moreover have "length (dropWhile (\<lambda>c. c \<noteq> newline) accum) \<le> length accum" by (rule length_dropWhile_le)
  ultimately show "(tl (dropWhile (\<lambda>c. c \<noteq> newline) accum), accum) \<in> measure length"
    by (cases "dropWhile (\<lambda>c. c \<noteq> newline) accum") simp_all
qed simp

declare cut_lines.simps [simp del]

text \<open>
  The lines the reader thread has pushed after the pieces it has read; an empty piece or the end of
  the pipe ends it, and then what is left over is pushed too.
\<close>

primrec reader :: "bool \<Rightarrow> string \<Rightarrow> string list \<Rightarrow> string list" where
  "reader closed accum [] = (if closed then [accum] else [])"
| "reader closed accum (b # bs) =
     (if b = [] then [accum]
      else case cut_lines (accum @ b) of (ls, rest) \<Rightarrow> ls @ reader closed rest bs)"

text \<open>What of a child's output has been read: the pieces, and whether the pipe is at its end.\<close>

type_synonym pipe = "string list \<times> bool"

definition lines_of :: "pipe \<Rightarrow> string list" where
  "lines_of p = reader (snd p) [] (fst p)"

text \<open>\<^verbatim>\<open>l.find(marker) != std::string::npos\<close>.\<close>

definition has :: "string \<Rightarrow> string \<Rightarrow> bool" where
  "has l marker = list_ex (\<lambda>k. take (length marker) (drop k l) = marker) [0..<Suc (length l)]"

record child =
  ch_waiting :: "string \<Rightarrow> nat \<Rightarrow> pipe"
  ch_after :: pipe

definition no_child :: child where
  "no_child = \<lparr>ch_waiting = (\<lambda>_ _. ([], False)), ch_after = ([], False)\<rparr>"

text \<open>Every 20 milliseconds the lines read by then are searched.\<close>

function wait_loop :: "(nat \<Rightarrow> pipe) \<Rightarrow> string \<Rightarrow> nat \<Rightarrow> nat \<Rightarrow> bool" where
  "wait_loop seen marker timeout waited =
     (if waited < timeout then
        if list_ex (\<lambda>l. has l marker) (lines_of (seen waited)) then True
        else wait_loop seen marker timeout (waited + 20)
      else False)"
  by pat_completeness auto
termination by (relation "measure (\<lambda>(_, _, timeout, waited). timeout - waited)") auto

declare wait_loop.simps [simp del]

definition wait_for :: "child \<Rightarrow> string \<Rightarrow> nat \<Rightarrow> bool" where
  "wait_for c marker timeout = wait_loop (ch_waiting c marker) marker timeout 0"

definition snapshot_lines :: "child \<Rightarrow> string list" where
  "snapshot_lines c = lines_of (ch_after c)"

definition contains :: "child \<Rightarrow> string \<Rightarrow> bool" where
  "contains c marker = list_ex (\<lambda>l. has l marker) (lines_of (ch_after c))"

section \<open>Writing a script\<close>

primrec write_script_loop :: "device \<Rightarrow> string \<Rightarrow> ostream \<Rightarrow> ledger_entry list \<Rightarrow> bool \<times> disk" where
  "write_script_loop dev path f [] = (True, snd f)"
| "write_script_loop dev path f (e # es) =
     (case encode_entry e of
        None \<Rightarrow> (False, snd f)
      | Some bytes \<Rightarrow> write_script_loop dev path (stream_write dev path f bytes) es)"

definition write_script :: "device \<Rightarrow> disk \<Rightarrow> ledger_entry list \<Rightarrow> string \<Rightarrow> bool \<times> disk" where
  "write_script dev d entries path =
     (case open_trunc dev d path of (good, d') \<Rightarrow>
        if \<not> good then (False, d') else write_script_loop dev path (good, d') entries)"

section \<open>The checks\<close>

type_synonym verdict = "bool \<times> string list"

definition failing :: "string \<Rightarrow> verdict \<Rightarrow> verdict" where
  "failing reason v = (False, snd v @ [reason])"

definition noting :: "string \<Rightarrow> verdict \<Rightarrow> verdict" where
  "noting reason v = (fst v, snd v @ [reason])"

definition unless :: "bool \<Rightarrow> string \<Rightarrow> verdict \<Rightarrow> verdict" where
  "unless ok reason v = (if ok then v else failing reason v)"

text \<open>A line that holds the first text must hold the second.\<close>

definition check_line :: "(string \<times> string \<times> string) list \<Rightarrow> verdict \<Rightarrow> string \<Rightarrow> verdict" where
  "check_line rules v line =
     foldl (\<lambda>v (ack, want, reason). if has line ack \<and> \<not> has line want then failing (reason @ line) v else v) v rules"

definition check_lines :: "(string \<times> string \<times> string) list \<Rightarrow> string list \<Rightarrow> verdict \<Rightarrow> verdict" where
  "check_lines rules lines v = foldl (check_line rules) v lines"

definition rules_b :: "(string \<times> string \<times> string) list" where
  "rules_b = [(''ACK 2 '', ''ACK 2 1'', ''workerB duplicate not idempotent: '')]"

definition rules_a2 :: "(string \<times> string \<times> string) list" where
  "rules_a2 =
     [(''ACK 0 '', ''ACK 0 3'', ''stale epoch not rejected: ''),
      (''ACK 1 '', ''ACK 1 3'', ''stale boot not rejected: ''),
      (''ACK 2 '', ''ACK 2 3'', ''stale attempt not rejected: ''),
      (''ACK 3 '', ''ACK 3 3'', ''stale accounting gen not rejected: ''),
      (''ACK 4 '', ''ACK 4 3'', ''stale duplicate not rejected: ''),
      (''ACK 5 '', ''ACK 5 0'', ''fresh RequestStart not accepted: ''),
      (''ACK 10 '', ''ACK 10 0'', ''fresh RequestEnd not accepted: '')]"

definition check_accounts :: "(double \<Rightarrow> u64) \<Rightarrow> ledger_entry list \<Rightarrow> verdict \<Rightarrow> verdict" where
  "check_accounts u entries v =
     (if entries = [] then v
      else
        let accR = ac_outcome (reconcile_request u (query_ledger entries (by_request_id mpR)) mpR);
            accR2 = ac_outcome (reconcile_request u (query_ledger entries (by_request_id mpR2)) mpR2);
            v = unless (ac_completed accR) ''R not completed'' v;
            v = unless (\<not> ac_attempt_count accR < 2) ''R attempts not reconstructed'' v;
            v = unless (ac_attempt_count accR = 2) ''R attempts != 2'' v
        in unless (ac_completed accR2) ''R2 not completed'' v)"

text \<open>The saved ledger and its replay; \<^term>\<open>None\<close> is a read outside the file.\<close>

definition check_ledger :: "(double \<Rightarrow> u64) \<Rightarrow> disk \<Rightarrow> string \<Rightarrow> verdict \<Rightarrow> verdict option" where
  "check_ledger u d ledger_path v =
     (case load d ledger_path of
        None \<Rightarrow> None
      | Some lr \<Rightarrow>
          let v = (if \<not> lr_ok lr then failing (''ledger load failed: '' @ lr_reason lr) v
                   else check_accounts u (lr_entries lr)
                          (noting (''loaded '' @ show_nat (length (lr_entries lr)) @ '' frames'') v))
          in (case replay_into d None (ledger_new id_default) ledger_path of
                None \<Rightarrow> None
              | Some (Inl rerr, _) \<Rightarrow> Some (failing (''replay failed: '' @ rerr) v)
              | Some (Inr _, fresh) \<Rightarrow>
                  let fp2 = ledger_fingerprint (snapshot fresh)
                  in Some (if fp2 \<noteq> lr_fingerprint lr then failing ''replay fingerprint mismatch'' v
                           else noting (''replay digest stable: '' @ fingerprint_to_string fp2) v)))"

definition report :: "verdict \<Rightarrow> prog_exit \<times> string list" where
  "report v =
     (if fst v then (Exit 0 [], ''MULTIPROCESS_PROOF PASS'' # map (\<lambda>r. ''  + '' @ r) (snd v))
      else (Exit 1 [], ''MULTIPROCESS_PROOF FAIL'' # map (\<lambda>r. ''  - '' @ r) (snd v)))"

section \<open>The program\<close>

record harness =
  hs_spawn :: "disk \<Rightarrow> string \<Rightarrow> child option"
  hs_device :: device
  hs_disk :: disk
  hs_left :: "disk \<Rightarrow> disk"

abbreviation mp_port :: nat where "mp_port \<equiv> 38921"

definition in_dir :: "string \<Rightarrow> string \<Rightarrow> string" where
  "in_dir dir name = dir @ CHR 0x5C # name"

definition coordinator_command :: "string \<Rightarrow> string" where
  "coordinator_command ledger_path = ''iledger_coordinator.exe '' @ show_nat mp_port @ '' '' @ ledger_path"

definition worker_command :: "worker_id \<Rightarrow> worker_boot_id \<Rightarrow> string \<Rightarrow> string" where
  "worker_command w b script =
     ''iledger_worker.exe 127.0.0.1 '' @ show_nat mp_port @ '' '' @ id_to_string w @ '' '' @
     id_to_string b @ '' '' @ script @ '' 1''"

text \<open>Start a worker on its script; a worker that did not start prints nothing.\<close>

definition start_worker :: "harness \<Rightarrow> disk \<Rightarrow> string \<Rightarrow> string \<Rightarrow> verdict \<Rightarrow> child \<times> verdict" where
  "start_worker h d command reason v =
     (case hs_spawn h d command of Some c \<Rightarrow> (c, v) | None \<Rightarrow> (no_child, failing reason v))"

definition first_sessions :: "harness \<Rightarrow> string \<Rightarrow> disk \<Rightarrow> verdict \<Rightarrow> verdict" where
  "first_sessions h dir d v =
     (let (wa, v) = start_worker h d (worker_command mpWA mp_bootA1 (in_dir dir ''wA1.script'')) ''spawn workerA failed'' v;
          (wb, v) = start_worker h d (worker_command mpWB mp_bootB (in_dir dir ''wB.script'')) ''spawn workerB failed'' v;
          v = unless (wait_for wa ''WORKER_DONE'' 15000) ''workerA boot1 did not finish'' v;
          v = unless (wait_for wb ''WORKER_DONE'' 15000) ''workerB did not finish'' v
      in check_lines rules_b (snapshot_lines wb) v)"

definition second_session :: "harness \<Rightarrow> string \<Rightarrow> disk \<Rightarrow> verdict \<Rightarrow> verdict" where
  "second_session h dir d v =
     (let (wa2, v) = start_worker h d (worker_command mpWA mp_bootA2 (in_dir dir ''wA2.script'')) ''spawn workerA boot2 failed'' v;
          v = unless (wait_for wa2 ''WORKER_DONE'' 15000) ''workerA boot2 did not finish'' v
      in check_lines rules_a2 (snapshot_lines wa2) v)"

definition multiprocess_main :: "(double \<Rightarrow> u64) \<Rightarrow> harness \<Rightarrow> string list \<Rightarrow> prog_exit \<times> string list" where
  "multiprocess_main u h args =
     (let dir = (if args \<noteq> [] then hd args else ''.'');
          ledger_path = in_dir dir ''ledger.db''
      in case hs_spawn h (hs_disk h) (coordinator_command ledger_path) of
           None \<Rightarrow> (Exit 1 ''failed to spawn coordinator'', [])
         | Some coord \<Rightarrow>
             if \<not> wait_for coord ''COORD '' 8000 then (Exit 1 ''coordinator did not start'', [])
             else
               let (_, d) = write_script (hs_device h) (hs_disk h) script_a1 (in_dir dir ''wA1.script'');
                   (_, d) = write_script (hs_device h) d script_b1 (in_dir dir ''wB.script'');
                   v = first_sessions h dir d (True, []);
                   (_, d) = write_script (hs_device h) d script_a2 (in_dir dir ''wA2.script'');
                   v = second_session h dir d v;
                   v = unless (wait_for coord ''COORD_STOPPED'' 5000) ''coordinator did not save/shutdown'' v
               in case check_ledger u (hs_left h d) ledger_path v of
                    None \<Rightarrow> (BadRead, [])
                  | Some v \<Rightarrow> report v)"

section \<open>Lines and pieces\<close>

lemma cut_lines_none: "newline \<notin> set a \<Longrightarrow> cut_lines a = ([], a)"
  by (subst cut_lines.simps) simp

lemma cut_lines_line:
  assumes "newline \<notin> set l"
  shows "cut_lines (l @ newline # rest) = (drop_return l # fst (cut_lines rest), snd (cut_lines rest))"
proof -
  have "takeWhile (\<lambda>c. c \<noteq> newline) (l @ newline # rest) = l" "dropWhile (\<lambda>c. c \<noteq> newline) (l @ newline # rest) = newline # rest"
    using assms by (auto simp: takeWhile_append dropWhile_append)
  then show ?thesis by (subst cut_lines.simps) (simp add: case_prod_beta)
qed

lemma cut_lines_append:
  "cut_lines (x @ y) =
     (fst (cut_lines x) @ fst (cut_lines (snd (cut_lines x) @ y)), snd (cut_lines (snd (cut_lines x) @ y)))
   \<and> newline \<notin> set (snd (cut_lines x))"
proof (induction x rule: cut_lines.induct)
  case (1 x)
  show ?case
  proof (cases "newline \<in> set x")
    case True
    then obtain l rest where x: "x = l @ newline # rest" "newline \<notin> set l" by (meson split_list_first)
    have "tl (dropWhile (\<lambda>c. c \<noteq> newline) x) = rest"
      using x by (auto simp: dropWhile_append)
    with 1 [OF True] x(2) show ?thesis by (simp add: x(1) cut_lines_line)
  qed (simp add: cut_lines_none)
qed

lemma reader_pieces:
  "[] \<notin> set bs \<Longrightarrow> newline \<notin> set accum \<Longrightarrow> reader closed accum bs =
     fst (cut_lines (accum @ concat bs)) @ (if closed then [snd (cut_lines (accum @ concat bs))] else [])"
proof (induction bs arbitrary: accum)
  case (Cons b bs)
  then show ?case
    using cut_lines_append [of "accum @ b" "concat bs"] Cons.IH [of "snd (cut_lines (accum @ b))"]
    by (auto simp: case_prod_beta)
qed (simp add: cut_lines_none)

text \<open>The output of a child that printed the lines \<open>ls\<close>, on a pipe in text mode, in pieces of any size.\<close>

definition printed :: "pipe \<Rightarrow> string list \<Rightarrow> bool" where
  "printed p ls = ([] \<notin> set (fst p) \<and> \<not> snd p \<and>
     concat (fst p) = concat (map (\<lambda>l. l @ [carriage_return, newline]) ls))"

lemma printed_lines:
  assumes "printed p ls" "list_all (\<lambda>l. newline \<notin> set l) ls"
  shows "lines_of p = ls"
proof -
  have "cut_lines (concat (map (\<lambda>l. l @ [carriage_return, newline]) ls)) = (ls, [])"
    using assms(2)
  proof (induction ls)
    case (Cons l ls)
    have "drop_return (l @ [carriage_return]) = l" by (simp add: drop_return_def)
    with Cons cut_lines_line [of "l @ [carriage_return]"] show ?case by simp
  qed (simp add: cut_lines_none)
  with assms(1) show ?thesis by (simp add: printed_def lines_of_def reader_pieces)
qed

lemma has_append [simp]: "has (a @ m @ b) m"
proof -
  have "length a \<in> set [0..<Suc (length (a @ m @ b))]" by auto
  moreover have "take (length m) (drop (length a) (a @ m @ b)) = m" by simp
  ultimately show ?thesis unfolding has_def list_ex_iff by blast
qed

lemma has_prefix: "has (m @ b) m"
  using has_append [of "[]" m b] by simp

lemma wait_loop_seen:
  "waited + 20 * k < timeout \<Longrightarrow> list_ex (\<lambda>l. has l marker) (lines_of (seen (waited + 20 * k))) \<Longrightarrow>
     wait_loop seen marker timeout waited"
proof (induction k arbitrary: waited)
  case 0
  then show ?case by (simp add: wait_loop.simps)
next
  case (Suc k)
  then show ?case using Suc.IH [of "waited + 20"] by (subst wait_loop.simps) (simp add: algebra_simps)
qed

text \<open>The child has printed the lines \<open>ls\<close> at some look within the time allowed.\<close>

definition printed_in_time :: "child \<Rightarrow> string \<Rightarrow> nat \<Rightarrow> string list \<Rightarrow> bool" where
  "printed_in_time c marker timeout ls = list_ex (\<lambda>k. printed (ch_waiting c marker (20 * k)) ls) [0..<timeout div 20]"

lemma wait_for_printed:
  assumes "printed_in_time c marker timeout ls" "list_all (\<lambda>l. newline \<notin> set l) ls" "list_ex (\<lambda>l. has l marker) ls"
  shows "wait_for c marker timeout"
proof -
  obtain k where "k < timeout div 20" "printed (ch_waiting c marker (20 * k)) ls"
    using assms(1) by (auto simp: printed_in_time_def list_ex_iff)
  with assms(2,3) wait_loop_seen [of 0 k timeout marker "ch_waiting c marker"] show ?thesis
    by (simp add: wait_for_def printed_lines)
qed

section \<open>What the workers print\<close>

primrec ack_lines :: "nat \<Rightarrow> answer list \<Rightarrow> string list" where
  "ack_lines i [] = []"
| "ack_lines i (a # as) =
     (case a of
        Answer ar \<Rightarrow> ack_line i (append_status_val (ar_status ar)) (ar_reason ar) # ack_lines (Suc i) as
      | Registered_at e g \<Rightarrow> reg_line e g # ack_lines i as)"

definition worker_lines :: "worker_id \<Rightarrow> answer list \<Rightarrow> string list" where
  "worker_lines w as = ack_lines 0 as @ [''WORKER_DONE '' @ id_to_string w]"

abbreviation answers_a1 :: "answer list" where
  "answers_a1 \<equiv> Registered_at (Generation 1) (Generation 1) # replicate 8 accepted"

abbreviation answers_b1 :: "answer list" where
  "answers_b1 \<equiv> [Registered_at (Generation 1) (Generation 1), accepted, accepted,
     Answer \<lparr>ar_status = Duplicate, ar_reason = ''idempotent duplicate ignored''\<rparr>, accepted]"

abbreviation answers_a2 :: "answer list" where
  "answers_a2 \<equiv> Registered_at (Generation 2) (Generation 2) #
     map refused [StaleEpoch, StaleGeneration, StaleGeneration, StaleGeneration, StaleEpoch] @ replicate 6 accepted"

lemma lines_single:
  "list_all (\<lambda>l. newline \<notin> set l) (worker_lines mpWA answers_a1)"
  "list_all (\<lambda>l. newline \<notin> set l) (worker_lines mpWB answers_b1)"
  "list_all (\<lambda>l. newline \<notin> set l) (worker_lines mpWA answers_a2)"
  by code_simp+

lemma lines_checked:
  "check_lines rules_b (worker_lines mpWB answers_b1) v = v"
  "check_lines rules_a2 (worker_lines mpWA answers_a2) v = v"
  by code_simp+

lemma lines_done:
  "list_ex (\<lambda>l. has l ''WORKER_DONE'') (worker_lines w as)"
  using has_prefix [of "''WORKER_DONE''" "'' '' @ id_to_string w"] by (simp add: worker_lines_def)
section \<open>The saved ledger\<close>

lemma length_payload_mk:
  "length (entry_payload (mk i kind rk v unit prov he s end req w at ep b rg ag acg d m False ad [])) = 353"
  by (simp add: entry_payload_def put_opt_id_def put_quantity_def put_source_def put_authority_def put_metadata_def)

lemma encodable_mk:
  assumes "content_is_valid (mk i kind rk v unit prov he s end req w at ep b rg ag acg d m False ad [])"
  shows "encodable (mk i kind rk v unit prov he s end req w at ep b rg ag acg d m False ad [])"
  using assms length_payload_mk [of i kind rk v unit prov he s "end" req w at ep b rg ag acg d m ad]
  by (simp add: encodable_def encode_entry_def content_mk q_is_integral_def metadata_ok_def map_wf_def)

lemma scripts_encodable:
  "list_all (\<lambda>e. encodable e \<and> length (frame_of e) = 361) (script_a1 @ script_b1 @ script_a2)"
  using scripts_valid
  by (simp add: script_a1_def script_b1_def script_a2_def encodable_mk frame_of_def length_payload_mk)

lemma length_frames: "list_all (\<lambda>e. length (frame_of e) = 361) es \<Longrightarrow> length (frames_of es) = 361 * length es"
  by (induction es) simp_all

definition stored_a :: "ledger_entry list" where
  "stored_a = script_a1 @ drop 5 script_a2"

definition stored_b :: "ledger_entry list" where
  "stored_b = [script_b1 ! 0, script_b1 ! 1, script_b1 ! 3]"

lemma stored_parts:
  "set stored_a \<union> set stored_b \<subseteq> set (script_a1 @ script_b1 @ script_a2)"
  "distinct (map e_id (stored_a @ stored_b))"
  by (auto simp: stored_a_def stored_b_def script_a1_def script_b1_def script_a2_def)

lemma stored_outcome:
  "ac_completed (ac_outcome (reconcile_request u stored_a r))"
  "ac_attempt_count (ac_outcome (reconcile_request u stored_a r)) = 2"
  "ac_completed (ac_outcome (reconcile_request u stored_b r'))"
  by (simp_all add: completed_by attempts_counted attempt_succeeds_def stored_a_def stored_b_def
      script_a1_def script_b1_def script_a2_def)

lemma in_shuffles_filter:
  assumes "zs \<in> shuffles xs ys" "list_all P xs" "list_all (\<lambda>x. \<not> P x) ys"
  shows "filter P zs = xs"
proof -
  have "filter P zs \<in> shuffles (filter P xs) (filter P ys)"
    using assms(1) by (metis filter_shuffles image_eqI)
  moreover have "filter P xs = xs" "filter P ys = []" using assms(2,3) by (simp_all add: list_all_iff)
  ultimately show ?thesis by simp
qed

lemma queried:
  assumes "es \<in> shuffles stored_a stored_b"
  shows "query_ledger es (by_request_id mpR) = stored_a" "query_ledger es (by_request_id mpR2) = stored_b"
proof -
  have a: "list_all (\<lambda>e. e_request e = mpR \<and> e_request e \<noteq> mpR2) stored_a"
    by (simp add: stored_a_def script_a1_def script_a2_def)
  have b: "list_all (\<lambda>e. e_request e = mpR2 \<and> e_request e \<noteq> mpR) stored_b"
    by (simp add: stored_b_def script_b1_def)
  show "query_ledger es (by_request_id mpR) = stored_a"
    unfolding query_by_request using a b by (intro in_shuffles_filter [OF assms]) (auto simp: list_all_iff)
  show "query_ledger es (by_request_id mpR2) = stored_b"
    unfolding query_by_request using a b
    by (intro in_shuffles_filter [OF assms [unfolded shuffles_commutes [of stored_a]]]) (auto simp: list_all_iff)
qed

lemma accounts_checked:
  "es \<in> shuffles stored_a stored_b \<Longrightarrow> check_accounts u (map normalize_entry es) v = v"
  by (simp add: check_accounts_def query_normalize reconcile_normalize queried stored_outcome unless_def Let_def)

lemma show_17: "show_nat 17 = ''17''"
  by code_simp

lemma ledger_checked:
  assumes es: "snapshot (co_ledger c) \<in> shuffles stored_a stored_b" and dev: "dv_openable dev p" "7000 \<le> dv_room dev p"
  shows "\<exists>d'. coordinator_finish dev d p c = (Exit 0 [], [''COORD_STOPPED 17 '' @
        fingerprint_to_string (ledger_fingerprint (snapshot (co_ledger c)))], d', coord_stop c) \<and>
    check_ledger u d' p (ok, rs) = Some (ok, rs @ [''loaded 17 frames'', ''replay digest stable: '' @
        fingerprint_to_string (ledger_fingerprint (snapshot (co_ledger c)))])"
proof -
  let ?es = "snapshot (co_ledger c)"
  have set: "set ?es \<subseteq> set (script_a1 @ script_b1 @ script_a2)"
    using set_shuffles [OF es] stored_parts(1) by simp
  then have all: "list_all (\<lambda>e. encodable e \<and> length (frame_of e) = 361) ?es"
    using scripts_encodable unfolding list_all_iff by blast
  then have enc: "list_all encodable ?es" by (simp add: list_all_iff)
  have len: "length ?es = 17"
    using length_shuffles [OF es] by (simp add: stored_a_def stored_b_def script_a1_def script_a2_def)
  have dis: "distinct (map e_id ?es)"
  proof -
    have "mset ?es = mset (stored_a @ stored_b)" using es by (simp add: mset_shuffles)
    then have "mset (map e_id ?es) = mset (map e_id (stored_a @ stored_b))" by (metis mset_map)
    then show ?thesis using stored_parts(2) mset_eq_imp_distinct_iff by blast
  qed
  have room: "28 + length (frames_of ?es) \<le> dv_room dev p"
    using all len dev(2) by (simp add: length_frames list_all_iff)
  from save_then_load [OF enc dis dev(1) room, of d program_ledger] obtain d' r
    where r: "save_snapshot dev d ?es program_ledger p = (Inr (), d')" "load d' p = Some r" "lr_ok r"
      "lr_entries r = map normalize_entry ?es" "lr_fingerprint r = ledger_fingerprint ?es" by blast
  have "\<forall>e \<in> set (lr_entries r). content_is_valid e"
    using enc by (auto simp: r(4) list_all_iff encodable_valid)
  from replay_loaded [OF r(2,3) this, of id_default] r show ?thesis
    by (auto simp: coordinator_finish_def check_ledger_def accounts_checked [OF es] noting_def len show_17 Let_def)
qed

lemma fingerprint_single: "newline \<notin> set (fingerprint_to_string bs)"
proof -
  have "newline \<notin> set kHex" "length kHex = 16" by (simp_all add: kHex_def)
  moreover have "unat (x AND 0x0F) < 16" for x :: u8 by (rule unat_low_nibble)
  ultimately have "kHex ! unat (x AND 0x0F) \<noteq> newline" for x :: u8 by (metis nth_mem)
  then show ?thesis by (auto simp: fingerprint_to_string_def dest: sym)
qed

lemma show_nat_single: "newline \<notin> set (show_nat n)"
proof -
  have "\<not> c_isdigit newline" by (simp add: c_isdigit_def)
  then show ?thesis using show_nat_digits [of n] by (auto simp: list_all_iff)
qed

lemma coordinator_lines:
  "newline \<notin> set (''COORD '' @ show_nat mp_port)" "newline \<notin> set (''COORD_STOPPED 17 '' @ fingerprint_to_string fp)"
  "has (''COORD_STOPPED 17 '' @ fingerprint_to_string fp) ''COORD_STOPPED''"
proof -
  show "newline \<notin> set (''COORD '' @ show_nat mp_port)" by (simp add: show_nat_single)
  show "newline \<notin> set (''COORD_STOPPED 17 '' @ fingerprint_to_string fp)"
    by (simp add: fingerprint_single)
  show "has (''COORD_STOPPED 17 '' @ fingerprint_to_string fp) ''COORD_STOPPED''"
    using has_prefix [of "''COORD_STOPPED''" "'' 17 '' @ fingerprint_to_string fp"] by simp
qed

section \<open>Properties\<close>


text \<open>A harness in which it runs: the children have printed everything at the first look.\<close>

definition steady :: "string list \<Rightarrow> pipe" where
  "steady ls = ([concat (map (\<lambda>l. l @ [carriage_return, newline]) ls)], False)"

definition steady_child :: "string list \<Rightarrow> child" where
  "steady_child ls = \<lparr>ch_waiting = (\<lambda>_ _. steady ls), ch_after = steady ls\<rparr>"

lemma steady_printed: "ls \<noteq> [] \<Longrightarrow> printed (steady ls) ls"
  by (cases ls) (simp_all add: printed_def steady_def)

lemma in_time_at_once: "printed (ch_waiting c marker 0) ls \<Longrightarrow> 20 \<le> timeout \<Longrightarrow> printed_in_time c marker timeout ls"
  unfolding printed_in_time_def list_ex_iff by (rule bexI [of _ 0]) (simp_all add: div_greater_zero_iff)

lemma steady_in_time: "ls \<noteq> [] \<Longrightarrow> 20 \<le> timeout \<Longrightarrow> printed_in_time (steady_child ls) marker timeout ls"
  by (intro in_time_at_once) (simp_all add: steady_child_def steady_printed)

lemma steady_after: "ch_after (steady_child ls) = steady ls"
  by (simp add: steady_child_def)

definition sample_lost :: coordinator where
  "sample_lost = lose (end_state operate fresh_coordinator
     (worker_ops mpWA mp_bootA1 script_a1 @ worker_ops mpWB mp_bootB script_b1))"

definition sample_final :: coordinator where
  "sample_final = end_state operate sample_lost (worker_ops mpWA mp_bootA2 script_a2)"

definition sample_coordinator :: child where
  "sample_coordinator =
     \<lparr>ch_waiting = (\<lambda>marker _. steady ((''COORD '' @ show_nat mp_port) #
        (if marker = ''COORD '' then []
         else [''COORD_STOPPED 17 '' @ fingerprint_to_string (ledger_fingerprint (snapshot (co_ledger sample_final)))]))),
      ch_after = steady []\<rparr>"

definition sample_harness :: harness where
  "sample_harness =
     \<lparr>hs_spawn = (\<lambda>d command.
        if command = coordinator_command (in_dir ''d'' ''ledger.db'') then Some sample_coordinator
        else if command = worker_command mpWA mp_bootA1 (in_dir ''d'' ''wA1.script'') then Some (steady_child (worker_lines mpWA answers_a1))
        else if command = worker_command mpWB mp_bootB (in_dir ''d'' ''wB.script'') then Some (steady_child (worker_lines mpWB answers_b1))
        else Some (steady_child (worker_lines mpWA answers_a2))),
      hs_device = plenty, hs_disk = Map.empty,
      hs_left = (\<lambda>d. fst (snd (snd (coordinator_finish plenty d (in_dir ''d'' ''ledger.db'') sample_final))))\<rparr>"

lemma length_id_to_string: "length (id_to_string i) = 32"
  by (simp add: id_to_string_def length_concat)

lemma command_inject:
  "worker_command w b s = worker_command w' b' s' \<longleftrightarrow> w = w' \<and> b = b' \<and> s = s'"
proof
  assume "worker_command w b s = worker_command w' b' s'"
  then have "id_to_string w = id_to_string w'" "id_to_string b = id_to_string b'" "s = s'"
    by (simp_all add: worker_command_def append_eq_append_conv length_id_to_string)
  then show "w = w' \<and> b = b' \<and> s = s'" by (metis parse_to_string option.inject)
qed simp

lemma command_differs: "coordinator_command p \<noteq> worker_command w b s" "worker_command w b s \<noteq> coordinator_command p"
  by (simp_all add: coordinator_command_def worker_command_def)


end
