(* ===== verification/Handles.thy ===== *)
theory Handles
  imports Prelude "HOL-Library.Multiset"
begin

text \<open>
  Descriptors and handles of the operating system: the open ones, and a count of calls on ones that
  were not open. \<open>owns\<close> says that the objects of a program hold exactly the open ones, each once.
\<close>

section \<open>Open handles\<close>

record sys =
  sy_open :: "int list"
  sy_stray :: nat

definition sys_opened :: "int \<Rightarrow> sys \<Rightarrow> sys" where
  "sys_opened s y = y\<lparr>sy_open := s # sy_open y\<rparr>"

definition sys_close :: "int \<Rightarrow> sys \<Rightarrow> sys" where
  "sys_close s y =
     (if s \<in> set (sy_open y) then y\<lparr>sy_open := remove1 s (sy_open y)\<rparr> else y\<lparr>sy_stray := Suc (sy_stray y)\<rparr>)"

text \<open>A call on a handle that leaves it open.\<close>

definition sys_use :: "int \<Rightarrow> sys \<Rightarrow> sys" where
  "sys_use s y = (if s \<in> set (sy_open y) then y else y\<lparr>sy_stray := Suc (sy_stray y)\<rparr>)"

lemma sys_use_open [simp]: "s \<in> set (sy_open y) \<Longrightarrow> sys_use s y = y"
  by (simp add: sys_use_def)

lemma sys_close_opened: "s \<notin> set (sy_open y) \<Longrightarrow> sys_close s (sys_opened s y) = y"
  by (simp add: sys_close_def sys_opened_def)

lemma sys_opened_open [simp]: "sy_open (sys_opened s y) = s # sy_open y"
  by (simp add: sys_opened_def)

section \<open>Ownership\<close>

text \<open>\<open>none\<close> is the value of a variable that holds no handle.\<close>

definition owns :: "int \<Rightarrow> int list \<Rightarrow> sys \<Rightarrow> bool" where
  "owns none held y =
     (sy_stray y = 0 \<and> distinct (sy_open y) \<and> mset (sy_open y) = mset (filter (\<lambda>s. s \<noteq> none) held))"

lemma owns_opened:
  "owns none held y \<Longrightarrow> s \<notin> set (sy_open y) \<Longrightarrow> s \<noteq> none \<Longrightarrow> owns none (s # held) (sys_opened s y)"
  by (simp add: owns_def sys_opened_def)

lemma owns_closed:
  "owns none (s # held) y \<Longrightarrow> s \<noteq> none \<Longrightarrow> owns none held (sys_close s y)"
proof -
  assume o: "owns none (s # held) y" and s: "s \<noteq> none"
  then have m: "mset (sy_open y) = add_mset s (mset (filter (\<lambda>s. s \<noteq> none) held))" by (simp add: owns_def)
  then have "s \<in># mset (sy_open y)" by simp
  then have "s \<in> set (sy_open y)" by simp
  moreover have "mset (remove1 s (sy_open y)) = mset (filter (\<lambda>s. s \<noteq> none) held)" unfolding mset_remove1 m by simp
  moreover have "sy_stray y = 0" "distinct (sy_open y)" using o by (simp_all add: owns_def)
  ultimately show ?thesis by (simp add: owns_def sys_close_def)
qed

lemma owns_none [simp]: "owns none (none # held) y \<longleftrightarrow> owns none held y"
  by (simp add: owns_def)

lemma owns_perm: "mset a = mset b \<Longrightarrow> owns none a y \<longleftrightarrow> owns none b y"
  by (simp add: owns_def)

lemma owns_move: "owns none (a @ s # b) y \<longleftrightarrow> owns none (s # a @ b) y"
  by (rule owns_perm) simp

lemma owns_close_at:
  "owns none (a @ s # b) y \<Longrightarrow> s \<noteq> none \<Longrightarrow> owns none (a @ b) (sys_close s y)"
  unfolding owns_move by (rule owns_closed)

lemma owns_started: "owns none [] \<lparr>sy_open = [], sy_stray = 0\<rparr>"
  by (simp add: owns_def)

section \<open>A system that numbers its handles upwards\<close>

lemma above_start: "b \<le> fold max xs (b :: int)"
  using Max_ge [of "set (b # xs)" b] by (simp only: Max.set_eq_fold) simp

lemma above_fresh: "0 < d \<Longrightarrow> fold max xs b + d \<notin> set (xs :: int list)"
proof
  assume d: "0 < d" and "fold max xs b + d \<in> set xs"
  then have "fold max xs b + d \<le> Max (set (b # xs))" by (intro Max_ge) simp_all
  with d show False by (simp only: Max.set_eq_fold)
qed

end
