(* ===== verification/Processes.thy ===== *)
theory Processes
  imports Handles
begin

text \<open>
  The children of \<^verbatim>\<open>iledger_multiprocess.cpp\<close> as objects of the operating system: the handles of
  their pipes and processes and the thread that reads their output, and in which order the program
  opens, uses and gives them up. The system calls that create handles are parameters, \<^verbatim>\<open>HANDLE\<close>
  is an integer and \<^verbatim>\<open>nullptr\<close> is \<open>0\<close>.
\<close>

section \<open>System calls\<close>

abbreviation no_handle :: int where "no_handle \<equiv> 0"

text \<open>\<^verbatim>\<open>CreatePipe\<close> gives the reading and the writing end, \<^verbatim>\<open>CreateProcessW\<close> a process and a thread.\<close>

record windows =
  wn_pipe :: "sys \<Rightarrow> (int \<times> int) option"
  wn_process :: "sys \<Rightarrow> string \<Rightarrow> (int \<times> int) option"

section \<open>Operations\<close>

text \<open>\<^verbatim>\<open>os_reader\<close> says that the thread \<^verbatim>\<open>reader\<close> is joinable.\<close>

record os_child =
  os_proc :: int
  os_hRead :: int
  os_hWrite :: int
  os_reader :: bool

definition os_child_new :: os_child where
  "os_child_new = \<lparr>os_proc = no_handle, os_hRead = no_handle, os_hWrite = no_handle, os_reader = False\<rparr>"

definition spawn :: "windows \<Rightarrow> string \<Rightarrow> os_child \<Rightarrow> sys \<Rightarrow> bool \<times> os_child \<times> sys" where
  "spawn k cmdline c y =
     (case wn_pipe k y of
        None \<Rightarrow> (False, c, y)
      | Some (outR, outW) \<Rightarrow>
          let y = sys_opened outW (sys_opened outR y)
          in case wn_pipe k y of
               None \<Rightarrow> (False, c, y)
             | Some (inR, inW) \<Rightarrow>
                 let y = sys_opened inW (sys_opened inR y);
                     y = sys_use inW (sys_use outR y)
                 in case wn_process k y cmdline of
                      None \<Rightarrow> (False, c, sys_close inW (sys_close inR (sys_close outW (sys_close outR y))))
                    | Some (hProcess, hThread) \<Rightarrow>
                        let y = sys_opened hThread (sys_opened hProcess y);
                            y = sys_close hThread (sys_close inR (sys_close outW y))
                        in (True, \<lparr>os_proc = hProcess, os_hRead = outR, os_hWrite = inW, os_reader = True\<rparr>, y))"

definition write_stdin :: "os_child \<Rightarrow> string \<Rightarrow> sys \<Rightarrow> sys" where
  "write_stdin c s y = sys_use (os_hWrite c) y"

text \<open>\<^verbatim>\<open>if (c.hRead) { CloseHandle(c.hRead); c.hRead = nullptr; }\<close>\<close>

definition give_up :: "int \<Rightarrow> sys \<Rightarrow> sys" where
  "give_up h y = (if h \<noteq> no_handle then sys_close h y else y)"

definition kill_child :: "os_child \<Rightarrow> sys \<Rightarrow> os_child \<times> sys" where
  "kill_child c y =
     (let y = (if os_proc c \<noteq> no_handle then sys_use (os_proc c) (sys_use (os_proc c) y) else y);
          y = give_up (os_proc c) y;
          y = give_up (os_hRead c) y;
          y = give_up (os_hWrite c) y
      in (\<lparr>os_proc = no_handle, os_hRead = no_handle, os_hWrite = no_handle, os_reader = False\<rparr>, y))"

section \<open>The program\<close>

text \<open>
  What \<^verbatim>\<open>main\<close> does with its children: the four commands, whether the coordinator printed its first
  line in time, and the children as they are when \<^verbatim>\<open>main\<close> returns.
\<close>

definition run_children :: "windows \<Rightarrow> (nat \<Rightarrow> string) \<Rightarrow> bool \<Rightarrow> sys \<Rightarrow> os_child list \<times> sys" where
  "run_children k cmd started y =
     (case spawn k (cmd 0) os_child_new y of (ok, coord, y) \<Rightarrow>
        if \<not> ok then ([coord], y)
        else if \<not> started then (case kill_child coord y of (coord, y) \<Rightarrow> ([coord], y))
        else
          case spawn k (cmd 1) os_child_new y of (_, wa, y) \<Rightarrow>
          case spawn k (cmd 2) os_child_new y of (_, wb, y) \<Rightarrow>
          case kill_child wa y of (wa, y) \<Rightarrow>
          case spawn k (cmd 3) os_child_new y of (_, wa2, y) \<Rightarrow>
          let y = write_stdin coord (''SHUTDOWN'' @ [CHR 0x0A]) y in
          case kill_child coord y of (coord, y) \<Rightarrow>
          case kill_child wb y of (wb, y) \<Rightarrow>
          case kill_child wa2 y of (wa2, y) \<Rightarrow> ([coord, wa, wb, wa2], y))"

section \<open>Ownership\<close>

text \<open>What the system promises: a new handle is neither null nor one of the open ones.\<close>

definition fresh_pair :: "sys \<Rightarrow> (int \<times> int) option \<Rightarrow> bool" where
  "fresh_pair y p = (case p of None \<Rightarrow> True | Some (a, b) \<Rightarrow> distinct [no_handle, a, b] \<and> a \<notin> set (sy_open y) \<and> b \<notin> set (sy_open y))"

definition fresh_handles :: "windows \<Rightarrow> bool" where
  "fresh_handles k = (\<forall>y. fresh_pair y (wn_pipe k y) \<and> (\<forall>s. fresh_pair y (wn_process k y s)))"

text \<open>A pipe that could be created is never followed by one that could not.\<close>

definition pipes_in_twos :: "windows \<Rightarrow> bool" where
  "pipes_in_twos k = (\<forall>y a b. wn_pipe k y = Some (a, b) \<longrightarrow> wn_pipe k (sys_opened b (sys_opened a y)) \<noteq> None)"

definition os_handles :: "os_child \<Rightarrow> int list" where
  "os_handles c = [os_proc c, os_hRead c, os_hWrite c]"

abbreviation held_by :: "int list \<Rightarrow> sys \<Rightarrow> bool" where "held_by \<equiv> owns no_handle"

lemma held_by_pair:
  assumes "fresh_pair y (Some (a, b))" "held_by held y"
  shows "held_by (b # a # held) (sys_opened b (sys_opened a y)) \<and> a \<noteq> no_handle \<and> b \<noteq> no_handle"
proof -
  from assms(1) have n: "a \<notin> set (sy_open y)" "a \<noteq> no_handle" "b \<notin> set (sy_open (sys_opened a y))" "b \<noteq> no_handle"
    by (auto simp: fresh_pair_def)
  from owns_opened [OF owns_opened [OF assms(2) n(1,2)] n(3,4)] n show ?thesis by simp
qed

lemma fresh_pipe: "fresh_handles k \<Longrightarrow> wn_pipe k y = Some p \<Longrightarrow> fresh_pair y (Some p)"
  and fresh_process: "fresh_handles k \<Longrightarrow> wn_process k y s = Some p \<Longrightarrow> fresh_pair y (Some p)"
  by (metis fresh_handles_def)+

lemma held_by_give_up: "held_by (a @ h # b) y \<Longrightarrow> held_by (a @ b) (give_up h y)"
  by (auto simp: give_up_def owns_close_at) (simp add: owns_move)

lemma held_by_used: "held_by held y \<Longrightarrow> h \<in> set held \<Longrightarrow> h \<noteq> no_handle \<Longrightarrow> sys_use h y = y"
proof -
  assume "held_by held y" "h \<in> set held" "h \<noteq> no_handle"
  then have "h \<in># mset (sy_open y)" by (simp add: owns_def)
  then show ?thesis by simp
qed

text \<open>A child that holds what a successful \<^const>\<open>spawn\<close> gave it, or nothing.\<close>

definition os_child_ok :: "os_child \<Rightarrow> bool" where
  "os_child_ok c =
     (c = os_child_new \<or> (os_proc c \<noteq> no_handle \<and> os_hRead c \<noteq> no_handle \<and> os_hWrite c \<noteq> no_handle \<and> os_reader c))"

text \<open>The handles of both pipes are closed again when the process does not start, and the ends the
  child took over when it does.\<close>

lemma close_pipes:
  assumes "held_by (inW # inR # outW # outR # held) y" "list_all (\<lambda>h. h \<noteq> no_handle) [inW, inR, outW, outR]"
  shows "held_by held (sys_close inW (sys_close inR (sys_close outW (sys_close outR y))))"
proof -
  have "held_by (inW # inR # outW # held) (sys_close outR y)"
    using assms owns_close_at [of no_handle "[inW, inR, outW]" outR held y] by simp
  then have "held_by (inW # inR # held) (sys_close outW (sys_close outR y))"
    using assms owns_close_at [of no_handle "[inW, inR]" outW held] by simp
  then have "held_by (inW # held) (sys_close inR (sys_close outW (sys_close outR y)))"
    using assms owns_close_at [of no_handle "[inW]" inR held] by simp
  then show ?thesis using assms owns_closed [of no_handle inW held] by simp
qed

lemma keep_ends:
  assumes "held_by (hT # hP # inW # inR # outW # outR # held) y" "list_all (\<lambda>h. h \<noteq> no_handle) [hT, inR, outW]"
  shows "held_by (hP # outR # inW # held) (sys_close hT (sys_close inR (sys_close outW y)))"
proof -
  have "held_by (hT # hP # inW # inR # outR # held) (sys_close outW y)"
    using assms owns_close_at [of no_handle "[hT, hP, inW, inR]" outW "outR # held" y] by simp
  then have "held_by (hT # hP # inW # outR # held) (sys_close inR (sys_close outW y))"
    using assms owns_close_at [of no_handle "[hT, hP, inW]" inR "outR # held"] by simp
  then have "held_by (hP # inW # outR # held) (sys_close hT (sys_close inR (sys_close outW y)))"
    using assms owns_closed [of no_handle hT] by simp
  then show ?thesis by (subst owns_perm) auto
qed

text \<open>The last step of \<^const>\<open>spawn\<close>, when both pipes are there.\<close>

lemma start_held:
  assumes k: "fresh_handles k" and h: "held_by (inW # inR # outW # outR # held) y"
    and nz: "list_all (\<lambda>h. h \<noteq> no_handle) [inW, inR, outW, outR]"
    and s: "(case wn_process k y cmd of
        None \<Rightarrow> (False, os_child_new, sys_close inW (sys_close inR (sys_close outW (sys_close outR y))))
      | Some (hP, hT) \<Rightarrow> (True, \<lparr>os_proc = hP, os_hRead = outR, os_hWrite = inW, os_reader = True\<rparr>,
          sys_close hT (sys_close inR (sys_close outW (sys_opened hT (sys_opened hP y)))))) = (ok, c, y')"
  shows "os_child_ok c \<and> (ok \<longleftrightarrow> c \<noteq> os_child_new) \<and> held_by (os_handles c @ held) y'"
proof (cases "wn_process k y cmd")
  case None
  with s close_pipes [OF h nz] show ?thesis by (auto simp: os_child_ok_def os_handles_def os_child_new_def)
next
  case (Some r)
  obtain hP hT where r: "r = (hP, hT)" by (cases r)
  from held_by_pair [OF fresh_process [OF k Some [unfolded r]] h]
  have "held_by (hT # hP # inW # inR # outW # outR # held) (sys_opened hT (sys_opened hP y))"
    "hP \<noteq> no_handle" "hT \<noteq> no_handle" by simp_all
  with keep_ends [of hT hP inW inR outW outR held "sys_opened hT (sys_opened hP y)"] nz s Some r show ?thesis
    by (auto simp: os_child_ok_def os_handles_def os_child_new_def)
qed

lemma spawn_held:
  assumes k: "fresh_handles k" and y: "held_by held y" and s: "spawn k cmd os_child_new y = (ok, c, y')"
  shows "os_child_ok c \<and> (ok \<longleftrightarrow> c \<noteq> os_child_new) \<and>
    (\<exists>left. held_by (os_handles c @ left @ held) y' \<and> no_handle \<notin> set left \<and>
       (left = [] \<or> length left = 2 \<and> \<not> pipes_in_twos k))"
proof (cases "wn_pipe k y")
  case None
  with s y have "ok = False" "c = os_child_new" "y' = y" by (simp_all add: spawn_def)
  with y show ?thesis by (auto simp: os_child_ok_def os_handles_def os_child_new_def intro!: exI [of _ "[]"])
next
  case P: (Some p)
  obtain outR outW where p: "p = (outR, outW)" by (cases p)
  let ?y1 = "sys_opened outW (sys_opened outR y)"
  from held_by_pair [OF fresh_pipe [OF k P [unfolded p]] y]
  have h1: "held_by (outW # outR # held) ?y1" "outR \<noteq> no_handle" "outW \<noteq> no_handle" by simp_all
  show ?thesis
  proof (cases "wn_pipe k ?y1")
    case None
    then have "\<not> pipes_in_twos k" using P unfolding p pipes_in_twos_def by blast
    moreover have "ok = False" "c = os_child_new" "y' = ?y1" using None P p s by (simp_all add: spawn_def)
    ultimately show ?thesis using h1
      by (auto simp: os_child_ok_def os_handles_def os_child_new_def intro!: exI [of _ "[outW, outR]"])
  next
    case Q: (Some q)
    obtain inR inW where q: "q = (inR, inW)" by (cases q)
    let ?y2 = "sys_opened inW (sys_opened inR ?y1)"
    from held_by_pair [OF fresh_pipe [OF k Q [unfolded q]] h1(1)]
    have h2: "held_by (inW # inR # outW # outR # held) ?y2" "inR \<noteq> no_handle" "inW \<noteq> no_handle" by simp_all
    have u: "sys_use inW (sys_use outR ?y2) = ?y2" by simp
    have "os_child_ok c \<and> (ok \<longleftrightarrow> c \<noteq> os_child_new) \<and> held_by (os_handles c @ held) y'"
      using h1(2,3) h2(2,3) s P Q unfolding p q
      by (intro start_held [OF k h2(1), of cmd]) (simp_all add: spawn_def u Let_def cong: option.case_cong)
    then show ?thesis by (auto intro!: exI [of _ "[]"])
  qed
qed

lemma kill_held:
  assumes "held_by (os_handles c @ held) y" "kill_child c y = (c', y')"
  shows "c' = os_child_new \<and> held_by held y'"
proof -
  let ?y = "if os_proc c \<noteq> no_handle then sys_use (os_proc c) (sys_use (os_proc c) y) else y"
  have u: "?y = y" using assms(1) held_by_used [OF assms(1), of "os_proc c"] by (simp add: os_handles_def)
  have "held_by (os_hRead c # os_hWrite c # held) (give_up (os_proc c) y)"
    using assms(1) held_by_give_up [of "[]" "os_proc c"] by (simp add: os_handles_def)
  then have "held_by (os_hWrite c # held) (give_up (os_hRead c) (give_up (os_proc c) y))"
    using held_by_give_up [of "[]" "os_hRead c"] by simp
  then have "held_by held (give_up (os_hWrite c) (give_up (os_hRead c) (give_up (os_proc c) y)))"
    using held_by_give_up [of "[]" "os_hWrite c"] by simp
  with assms(2) u show ?thesis by (auto simp: kill_child_def Let_def os_child_new_def)
qed

text \<open>
  The open handles are those of the live children and those there were before; where a second pipe
  could not be created, also the ends of a first one.
\<close>

definition accounted :: "windows \<Rightarrow> int list \<Rightarrow> int list \<Rightarrow> sys \<Rightarrow> bool" where
  "accounted k before held y =
     (\<exists>left. held_by (held @ left @ before) y \<and> no_handle \<notin> set left \<and> even (length left) \<and>
        (left = [] \<or> \<not> pipes_in_twos k))"

lemma accounted_new [simp]: "accounted k before (os_handles os_child_new @ held) y \<longleftrightarrow> accounted k before held y"
  by (simp add: accounted_def os_handles_def os_child_new_def)

lemma accounted_spawn:
  assumes "fresh_handles k" "accounted k before held y" "spawn k cmd os_child_new y = (ok, c, y')"
  shows "accounted k before (os_handles c @ held) y' \<and> os_child_ok c \<and> (ok \<longleftrightarrow> c \<noteq> os_child_new)"
proof -
  obtain lost where l: "held_by (held @ lost @ before) y" "no_handle \<notin> set lost" "even (length lost)" "lost = [] \<or> \<not> pipes_in_twos k"
    using assms(2) unfolding accounted_def by blast
  from spawn_held [OF assms(1) l(1) assms(3)] obtain left where
    m: "held_by (os_handles c @ left @ held @ lost @ before) y'" "no_handle \<notin> set left" "left = [] \<or> length left = 2 \<and> \<not> pipes_in_twos k"
    and c: "os_child_ok c" "ok \<longleftrightarrow> c \<noteq> os_child_new" by blast
  have "held_by ((os_handles c @ held) @ (left @ lost) @ before) y'" using m(1) by (subst owns_perm) auto
  moreover have "no_handle \<notin> set (left @ lost)" "even (length (left @ lost))" "left @ lost = [] \<or> \<not> pipes_in_twos k"
    using m(2,3) l(2-4) by auto
  ultimately show ?thesis using c unfolding accounted_def by blast
qed

lemma accounted_kill:
  assumes "accounted k before (a @ os_handles c @ b) y" "kill_child c y = (c', y')"
  shows "accounted k before (a @ b) y' \<and> c' = os_child_new"
proof -
  obtain left where l: "held_by ((a @ os_handles c @ b) @ left @ before) y"
      "no_handle \<notin> set left" "even (length left)" "left = [] \<or> \<not> pipes_in_twos k"
    using assms(1) unfolding accounted_def by blast
  have "held_by (os_handles c @ (a @ b) @ left @ before) y" using l(1) by (subst owns_perm) auto
  from kill_held [OF this assms(2)] l(2-4) show ?thesis unfolding accounted_def by blast
qed

lemma accounted_write:
  assumes "accounted k before (a @ os_handles c @ b) y" "os_child_ok c" "c \<noteq> os_child_new"
  shows "write_stdin c s y = y"
  using assms held_by_used [of _ y "os_hWrite c"]
  by (fastforce simp: accounted_def write_stdin_def os_child_ok_def os_handles_def)

lemma run_accounted:
  assumes k: "fresh_handles k" and y: "accounted k before [] y" and run: "run_children k cmd started y = (cs, y')"
  shows "list_all (\<lambda>c. c = os_child_new) cs \<and> accounted k before [] y'"
proof -
  obtain ok coord y1 where s0: "spawn k (cmd 0) os_child_new y = (ok, coord, y1)" by (metis prod_cases3)
  obtain oka wa y2 where s1: "spawn k (cmd 1) os_child_new y1 = (oka, wa, y2)" by (metis prod_cases3)
  obtain okb wb y3 where s2: "spawn k (cmd 2) os_child_new y2 = (okb, wb, y3)" by (metis prod_cases3)
  obtain wa' y4 where k1: "kill_child wa y3 = (wa', y4)" by fastforce
  obtain okc wa2 y5 where s3: "spawn k (cmd 3) os_child_new y4 = (okc, wa2, y5)" by (metis prod_cases3)
  let ?y6 = "write_stdin coord (''SHUTDOWN'' @ [CHR 0x0A]) y5"
  obtain coord' y7 where k2: "kill_child coord ?y6 = (coord', y7)" by fastforce
  obtain wb' y8 where k3: "kill_child wb y7 = (wb', y8)" by fastforce
  obtain wa2' y9 where k4: "kill_child wa2 y8 = (wa2', y9)" by fastforce
  obtain coord'' yk where k5: "kill_child coord y1 = (coord'', yk)" by fastforce
  note a0 = accounted_spawn [OF k y s0, simplified]
  note a1 = accounted_spawn [OF k conjunct1 [OF a0] s1]
  note a2 = accounted_spawn [OF k conjunct1 [OF a1] s2]
  note b1 = accounted_kill [OF conjunct1 [OF a2] k1]
  note a3 = accounted_spawn [OF k conjunct1 [OF b1] s3]
  show ?thesis
  proof (cases "ok \<and> started")
    case False
    with run s0 k5 a0 accounted_kill [of k before "[]" coord "[]" y1] accounted_new [of k before "[]" y1] show ?thesis
      by (auto simp: run_children_def split: if_splits)
  next
    case True
    have "?y6 = y5" using a0 a3 True accounted_write [of k before "os_handles wa2 @ os_handles wb" coord "[]" y5] by simp
    then have b2: "accounted k before (os_handles wa2 @ os_handles wb) y7 \<and> coord' = os_child_new"
      using accounted_kill [of k before "os_handles wa2 @ os_handles wb" coord "[]" y5] a3 k2 by simp
    then have b3: "accounted k before (os_handles wa2) y8 \<and> wb' = os_child_new"
      using accounted_kill [of k before "os_handles wa2" wb "[]" y7] k3 by simp
    then have b4: "accounted k before [] y9 \<and> wa2' = os_child_new"
      using accounted_kill [of k before "[]" wa2 "[]" y8] k4 by simp
    from run True s0 s1 s2 s3 k1 k2 k3 k4 have "cs = [coord', wa', wb', wa2']" "y' = y9"
      by (simp_all add: run_children_def Let_def)
    with b1 b2 b3 b4 show ?thesis by simp
  qed
qed

section \<open>Properties\<close>


definition some_windows :: windows where
  "some_windows =
     \<lparr>wn_pipe = (\<lambda>y. let h = fold max (sy_open y) 0 in Some (h + 4, h + 8)),
      wn_process = (\<lambda>y s. let h = fold max (sy_open y) 0 in if s = ''b'' then None else Some (h + 4, h + 8))\<rparr>"

lemma some_windows_fresh: "fresh_handles some_windows"
  unfolding fresh_handles_def
  using above_start [of 0] by (auto simp: fresh_pair_def some_windows_def Let_def above_fresh add_nonneg_eq_0_iff)


end
