(* ===== verification/Pricing.thy ===== *)
theory Pricing
  imports Account
begin

text \<open>
  \<^verbatim>\<open>pricing.hpp\<close> and \<^verbatim>\<open>pricing.cpp\<close>: rates, the cost of an account under a policy,
  and the store of policies. Floating-point sums associate to the left, as in the source.
\<close>

section \<open>Rates and policies\<close>

record pricing_rates =
  pr_gpu_per_second :: double
  pr_cpu_per_second :: double
  pr_memory_per_gib_second :: double
  pr_host_memory_per_gib_second :: double
  pr_pinned_memory_per_gib_second :: double
  pr_transfer_per_gib :: double
  pr_storage_per_gib_second :: double
  pr_persistent_cache_cost :: double
  pr_energy_per_kwh :: double
  pr_custom_device_per_second :: "(string, double) omap"

definition rates_default :: pricing_rates where
  "rates_default =
     \<lparr>pr_gpu_per_second = d_zero, pr_cpu_per_second = d_zero, pr_memory_per_gib_second = d_zero,
      pr_host_memory_per_gib_second = d_zero, pr_pinned_memory_per_gib_second = d_zero,
      pr_transfer_per_gib = d_zero, pr_storage_per_gib_second = d_zero,
      pr_persistent_cache_cost = d_zero, pr_energy_per_kwh = d_zero,
      pr_custom_device_per_second = []\<rparr>"

definition all_finite :: "pricing_rates \<Rightarrow> bool" where
  "all_finite r =
     (list_all isfinite
        [pr_cpu_per_second r, pr_gpu_per_second r, pr_memory_per_gib_second r,
         pr_host_memory_per_gib_second r, pr_pinned_memory_per_gib_second r, pr_transfer_per_gib r,
         pr_storage_per_gib_second r, pr_persistent_cache_cost r, pr_energy_per_kwh r] \<and>
      list_all (\<lambda>kv. isfinite (snd kv)) (pr_custom_device_per_second r))"

record pricing_policy =
  pp_id :: pricing_policy_id
  pp_generation :: u64
  pp_currency :: string
  pp_name :: string
  pp_rates :: pricing_rates

definition policy_default :: pricing_policy where
  "policy_default =
     \<lparr>pp_id = id_default, pp_generation = 0, pp_currency = '''', pp_name = '''', pp_rates = rates_default\<rparr>"

text \<open>\<^verbatim>\<open>PricingPolicy::operator==\<close>; the map of custom rates compares its pairs in order.\<close>

definition rates_eq :: "pricing_rates \<Rightarrow> pricing_rates \<Rightarrow> bool" where
  "rates_eq a b =
     (d_eq (pr_gpu_per_second a) (pr_gpu_per_second b) \<and>
      d_eq (pr_cpu_per_second a) (pr_cpu_per_second b) \<and>
      d_eq (pr_memory_per_gib_second a) (pr_memory_per_gib_second b) \<and>
      d_eq (pr_host_memory_per_gib_second a) (pr_host_memory_per_gib_second b) \<and>
      d_eq (pr_pinned_memory_per_gib_second a) (pr_pinned_memory_per_gib_second b) \<and>
      d_eq (pr_transfer_per_gib a) (pr_transfer_per_gib b) \<and>
      d_eq (pr_storage_per_gib_second a) (pr_storage_per_gib_second b) \<and>
      d_eq (pr_persistent_cache_cost a) (pr_persistent_cache_cost b) \<and>
      d_eq (pr_energy_per_kwh a) (pr_energy_per_kwh b) \<and>
      list_all2 (\<lambda>x y. fst x = fst y \<and> d_eq (snd x) (snd y))
        (pr_custom_device_per_second a) (pr_custom_device_per_second b))"

definition policy_eq :: "pricing_policy \<Rightarrow> pricing_policy \<Rightarrow> bool" where
  "policy_eq p q =
     (pp_id p = pp_id q \<and> pp_generation p = pp_generation q \<and> pp_currency p = pp_currency q \<and>
      pp_name p = pp_name q \<and> all_finite (pp_rates p) = all_finite (pp_rates q) \<and>
      rates_eq (pp_rates p) (pp_rates q))"

section \<open>Cost of an account\<close>

record cost_result =
  cr_policy_id :: pricing_policy_id
  cr_policy_generation :: u64
  cr_currency :: string
  cr_compute_cost :: double
  cr_cpu_compute_cost :: double
  cr_residency_cost :: double
  cr_transfer_cost :: double
  cr_storage_cache_cost :: double
  cr_energy_cost :: double
  cr_useful_work_cost :: double
  cr_wasted_work_cost :: double
  cr_cancelled_cost :: double
  cr_retry_cost :: double
  cr_rejected_spec_cost :: double
  cr_recomputed_cost :: double
  cr_reuse_credit :: double
  cr_energy_kwh :: double

definition kGiB :: double where
  "kGiB = Dbl 0x41D0000000000000"

definition kJoulesPerKwh :: double where
  "kJoulesPerKwh = Dbl 0x414B774000000000"

definition cost_total :: "cost_result \<Rightarrow> double" where
  "cost_total r =
     d_add (d_add (d_add (d_add (cr_compute_cost r) (cr_residency_cost r)) (cr_transfer_cost r))
       (cr_storage_cache_cost r)) (cr_energy_cost r)"

definition component_sum :: "cost_result \<Rightarrow> double" where
  "component_sum r =
     d_add (d_add (d_add (d_add (d_add (d_add (d_add (d_add (cr_useful_work_cost r)
       (cr_wasted_work_cost r)) (cr_cancelled_cost r)) (cr_recomputed_cost r))
       (cr_cpu_compute_cost r)) (cr_residency_cost r)) (cr_transfer_cost r))
       (cr_storage_cache_cost r)) (cr_energy_cost r)"

definition cost_reconciles :: "cost_result \<Rightarrow> bool" where
  "cost_reconciles r = d_lt (d_fabs (d_sub (component_sum r) (cost_total r))) d_1e_9"

definition useful_fraction :: "cost_result \<Rightarrow> double" where
  "useful_fraction r =
     (let t = cost_total r in if d_lt d_zero t then d_div (cr_useful_work_cost r) t else d_zero)"

definition apply_pricing :: "request_account \<Rightarrow> pricing_policy \<Rightarrow> cost_result" where
  "apply_pricing acc policy =
     (let rates = pp_rates policy;
          gpu_rate = pr_gpu_per_second rates;
          cpu_rate = pr_cpu_per_second rates;
          t = ac_timing acc; w = ac_work acc; m = ac_memory acc; x = ac_transfers acc;
          useful = d_mul (q_value (ac_execution_s t)) gpu_rate;
          wasted = d_mul (d_add (q_value (ac_failed_attempt_work w)) (q_value (ac_spec_wasted_work_s w))) gpu_rate;
          cancelled = d_mul (q_value (ac_cancelled_work w)) gpu_rate;
          recomputed = d_mul (q_value (ac_recomputed_work w)) gpu_rate;
          cpu = d_mul (q_value (ac_cpu_active_s t)) cpu_rate;
          transfer_bytes = d_add (d_add (q_value (ac_h2d_bytes x)) (q_value (ac_d2h_bytes x)))
            (q_value (ac_inter_node_bytes x));
          kwh = d_div (q_value (ac_energy_joules w)) kJoulesPerKwh;
          avoided_s = d_add (q_value (ac_reuse_avoided_work w)) (q_value (ac_reused_work w))
      in \<lparr>cr_policy_id = pp_id policy, cr_policy_generation = pp_generation policy,
          cr_currency = pp_currency policy,
          cr_compute_cost = d_add (d_add (d_add (d_add useful wasted) cancelled) recomputed) cpu,
          cr_cpu_compute_cost = cpu,
          cr_residency_cost =
            d_mul (d_div (d_add (q_value (ac_model_byte_seconds m)) (q_value (ac_adapter_byte_seconds m))) kGiB)
              (pr_memory_per_gib_second rates),
          cr_transfer_cost = d_mul (d_div transfer_bytes kGiB) (pr_transfer_per_gib rates),
          cr_storage_cache_cost =
            d_mul (d_of_u64 (ac_cache_writes (ac_counts acc))) (pr_persistent_cache_cost rates),
          cr_energy_cost = d_mul kwh (pr_energy_per_kwh rates),
          cr_useful_work_cost = useful, cr_wasted_work_cost = wasted, cr_cancelled_cost = cancelled,
          cr_retry_cost = d_mul (q_value (ac_failed_attempt_work w)) gpu_rate,
          cr_rejected_spec_cost = d_mul (q_value (ac_spec_wasted_work_s w)) gpu_rate,
          cr_recomputed_cost = recomputed,
          cr_reuse_credit = d_mul avoided_s gpu_rate,
          cr_energy_kwh = kwh\<rparr>)"

section \<open>Store\<close>

type_synonym policy_store = "(pricing_policy_id, pricing_policy) omap"

definition policy_add :: "policy_store \<Rightarrow> pricing_policy \<Rightarrow> policy_store" where
  "policy_add s p = map_put (pp_id p) p s"

definition policy_find :: "policy_store \<Rightarrow> pricing_policy_id \<Rightarrow> pricing_policy option" where
  "policy_find s i = map_find s i"

definition policy_all :: "policy_store \<Rightarrow> pricing_policy list" where
  "policy_all s = map snd s"

section \<open>Properties\<close>

lemma apply_pricing_sum: "component_sum (apply_pricing acc p) = cost_total (apply_pricing acc p)"
  by (simp add: component_sum_def cost_total_def apply_pricing_def Let_def)

lemma d_sub_self: "isfinite a \<Longrightarrow> d_sub a a = d_zero"
  using isfinite_not [of a] by (auto simp: d_sub_def d_add_def dval_neg d_zero_def)

lemma d_sub_self_infinite: "\<not> isfinite a \<Longrightarrow> isnan (d_sub a a)"
  using isfinite_cases [of a] by (auto simp: d_sub_def d_add_def isnan_d_nan)

lemma isnan_fabs: "isnan (d_fabs a) = isnan a"
  using dmag_mk [OF dmag_lt, of False a] by (simp add: d_fabs_def isnan_def)

lemma reconciles_iff: "cost_reconciles (apply_pricing acc p) \<longleftrightarrow> isfinite (cost_total (apply_pricing acc p))"
proof (cases "isfinite (cost_total (apply_pricing acc p))")
  case True
  have "d_fabs d_zero = d_zero" by (simp add: d_fabs_def d_zero_def)
  moreover have "d_lt d_zero d_1e_9"
    using d_nn_zero
    by (simp add: d_lt_def d_nn_def) (simp add: d_1e_9_def isnan_def dord_def dsign_def dmag_def inf_mag_def)
  ultimately show ?thesis
    using True by (simp add: apply_pricing_sum cost_reconciles_def d_sub_self)
next
  case False
  then show ?thesis
    using d_sub_self_infinite [OF False]
    by (simp add: apply_pricing_sum cost_reconciles_def d_lt_def isnan_fabs)
qed

text \<open>The cost of every account under every policy reconciles (the billed total equals the sum
  of its declared components, here bit for bit) exactly when the total is a finite number.\<close>

theorem pricing_reconciles:
  "component_sum (apply_pricing acc p) = cost_total (apply_pricing acc p) \<and>
   (cost_reconciles (apply_pricing acc p) \<longleftrightarrow> isfinite (cost_total (apply_pricing acc p)))"
  by (simp add: apply_pricing_sum reconciles_iff)

text \<open>The store of policies behaves as a map ordered by identity: after any sequence of additions
  a look-up returns the last policy added under that identity, and the listing is in strictly
  increasing order of identity; in particular adding a policy replaces one with the same identity,
  whatever its generation.\<close>

theorem policy_store_last_added:
  "policy_find (foldl policy_add [] ps) i = find (\<lambda>p. pp_id p = i) (rev ps) \<and>
   map_wf (foldl policy_add [] ps) \<and>
   map pp_id (policy_all (foldl policy_add [] ps)) = map fst (foldl policy_add [] ps)"
proof -
  have "policy_find (foldl policy_add [] ps) i = find (\<lambda>p. pp_id p = i) (rev ps)"
    by (induction ps rule: rev_induct) (simp_all add: policy_find_def policy_add_def map_find_put)
  moreover have "map_wf (foldl policy_add [] ps)"
    by (induction ps rule: rev_induct) (simp_all add: policy_add_def)
  moreover have "\<forall>kv \<in> set (foldl policy_add [] ps). fst kv = pp_id (snd kv)"
    by (induction ps rule: rev_induct) (auto simp: policy_add_def dest!: set_map_put)
  ultimately show ?thesis by (simp add: policy_all_def)
qed

end
