(* ===== verification/Batch.thy ===== *)
theory Batch
  imports Query
begin

text \<open>
  \<^verbatim>\<open>batch.hpp\<close> and \<^verbatim>\<open>batch.cpp\<close>: attributing a shared amount to the members of a
  batch, and the account of a batch.
\<close>

section \<open>Attribution\<close>

datatype attribution_policy =
    EqualShare | ProportionalBytes | ProportionalTokens | ProportionalExecution
  | ProportionalReserved | DirectOwnership | Weighted

primrec attribution_policy_name :: "attribution_policy \<Rightarrow> string" where
  "attribution_policy_name EqualShare = ''equal_share''"
| "attribution_policy_name ProportionalBytes = ''proportional_bytes''"
| "attribution_policy_name ProportionalTokens = ''proportional_tokens''"
| "attribution_policy_name ProportionalExecution = ''proportional_execution''"
| "attribution_policy_name ProportionalReserved = ''proportional_reserved''"
| "attribution_policy_name DirectOwnership = ''direct_ownership''"
| "attribution_policy_name Weighted = ''weighted''"

record member_share =
  ms_request :: request_id
  ms_share :: double
  ms_weight :: double

record shared_allocation =
  sa_policy :: attribution_policy
  sa_members :: "member_share list"
  sa_unallocated_overhead :: double
  sa_total :: double

definition member_sum :: "shared_allocation \<Rightarrow> double" where
  "member_sum a = sum_over ms_share (sa_members a)"

definition d_1e_12 :: double where
  "d_1e_12 = Dbl 0x3D719799812DEA11"

definition allocation_reconciles :: "shared_allocation \<Rightarrow> bool" where
  "allocation_reconciles a =
     (let diff = d_sub (d_add (member_sum a) (sa_unallocated_overhead a)) (sa_total a);
          magnitude = (if d_lt d_zero (sa_total a) then sa_total a else d_of_nat 1)
      in d_lt diff (d_mul d_1e_9 magnitude) \<and> d_lt (d_mul (d_neg d_1e_9) magnitude) diff)"

definition uniform_weights :: "nat \<Rightarrow> double list" where
  "uniform_weights n = replicate n (d_of_nat 1)"

text \<open>The effective weights and their sum.\<close>

definition effective_weights :: "nat \<Rightarrow> double list \<Rightarrow> attribution_policy \<Rightarrow> double list \<times> double" where
  "effective_weights n weights policy =
     (let w = (if length weights \<noteq> n then uniform_weights n else weights);
          w = (if policy = EqualShare then uniform_weights n else w);
          wsum = sum_over (\<lambda>x. x) w
      in if d_le wsum d_zero then (uniform_weights n, d_of_nat n) else (w, wsum))"

definition allocate_shared ::
    "double \<Rightarrow> request_id list \<Rightarrow> double list \<Rightarrow> attribution_policy \<Rightarrow> request_id \<Rightarrow> shared_allocation" where
  "allocate_shared amount members weights policy direct_owner =
     (if members = []
      then \<lparr>sa_policy = policy, sa_members = [], sa_unallocated_overhead = d_zero, sa_total = amount\<rparr>
      else if policy = DirectOwnership then
        let owner = (if is_zero direct_owner then hd members else direct_owner)
        in \<lparr>sa_policy = policy,
            sa_members = map (\<lambda>m. \<lparr>ms_request = m, ms_share = (if m = owner then amount else d_zero),
              ms_weight = (if m = owner then d_of_nat 1 else d_zero)\<rparr>) members,
            sa_unallocated_overhead = d_zero, sa_total = amount\<rparr>
      else
        let (w, wsum) = effective_weights (length members) weights policy;
            shares = map (\<lambda>(m, wi). \<lparr>ms_request = m, ms_share = d_mul amount (d_div wi wsum),
              ms_weight = wi\<rparr>) (zip members w);
            assigned = sum_over ms_share shares;
            overhead = d_sub amount assigned
        in \<lparr>sa_policy = policy, sa_members = shares,
            sa_unallocated_overhead =
              (if d_lt overhead d_zero \<and> d_lt (d_neg d_1e_12) overhead then d_zero else overhead),
            sa_total = amount\<rparr>)"

definition member_weight :: "attribution_policy \<Rightarrow> request_account \<Rightarrow> double" where
  "member_weight policy m =
     (case policy of
        ProportionalBytes \<Rightarrow> d_add (q_value (ac_kv_allocated (ac_memory m)))
          (q_value (ac_tensor_allocated (ac_memory m)))
      | ProportionalTokens \<Rightarrow> d_of_u64 (ac_generated_tokens (ac_counts m))
      | ProportionalExecution \<Rightarrow> q_value (ac_execution_s (ac_timing m))
      | ProportionalReserved \<Rightarrow> d_of_u64 (ac_reservations_acquired (ac_counts m))
      | _ \<Rightarrow> d_of_nat 1)"

definition member_weights_for_policy :: "request_account list \<Rightarrow> attribution_policy \<Rightarrow> double list" where
  "member_weights_for_policy members policy = map (member_weight policy) members"

section \<open>Batches\<close>

record batch_account =
  ba_batch :: batch_id
  ba_members :: "request_id list"
  ba_phase :: string
  ba_total_execution_s :: double
  ba_total_generated_tokens :: double
  ba_total_gpu_s :: double
  ba_cancelled_members :: u64
  ba_partial_completion :: bool
  ba_member_accounts :: "request_account list"

definition batch_default :: "batch_id \<Rightarrow> batch_account" where
  "batch_default batch =
     \<lparr>ba_batch = batch, ba_members = [], ba_phase = '''', ba_total_execution_s = d_zero,
      ba_total_generated_tokens = d_zero, ba_total_gpu_s = d_zero, ba_cancelled_members = 0,
      ba_partial_completion = False, ba_member_accounts = []\<rparr>"

text \<open>An entry is left out only when it names another batch.\<close>

definition in_batch :: "batch_id \<Rightarrow> ledger_entry \<Rightarrow> bool" where
  "in_batch batch e =
     (case map_find (e_metadata e) ''batch'' of None \<Rightarrow> True | Some s \<Rightarrow> s = id_to_string batch)"

definition by_request :: "batch_id \<Rightarrow> ledger_entry list \<Rightarrow> (request_id, ledger_entry list) omap" where
  "by_request batch entries =
     foldl (\<lambda>m e. if in_batch batch e then map_push (e_request e) e m else m) [] entries"

definition batch_step ::
    "(double \<Rightarrow> u64) \<Rightarrow> batch_account \<Rightarrow> request_id \<times> ledger_entry list \<Rightarrow> batch_account" where
  "batch_step unspec ba kvp =
     (let acc = reconcile_request unspec (snd kvp) (fst kvp)
      in ba\<lparr>ba_members := ba_members ba @ [fst kvp],
            ba_member_accounts := ba_member_accounts ba @ [acc],
            ba_total_execution_s := d_add (ba_total_execution_s ba) (q_value (ac_execution_s (ac_timing acc))),
            ba_total_generated_tokens :=
              d_add (ba_total_generated_tokens ba) (d_of_u64 (ac_generated_tokens (ac_counts acc))),
            ba_total_gpu_s := d_add (ba_total_gpu_s ba) (q_value (ac_gpu_active_s (ac_timing acc))),
            ba_cancelled_members := (if ac_cancelled (ac_outcome acc) then ba_cancelled_members ba + 1
                                     else ba_cancelled_members ba),
            ba_partial_completion := (ba_partial_completion ba \<or> \<not> ac_completed (ac_outcome acc))\<rparr>)"

definition reconcile_batch :: "(double \<Rightarrow> u64) \<Rightarrow> ledger_entry list \<Rightarrow> batch_id \<Rightarrow> batch_account" where
  "reconcile_batch unspec entries batch =
     (let ba = foldl (batch_step unspec) (batch_default batch) (by_request batch entries)
      in if ba_members ba = [] \<and> entries \<noteq> [] then ba\<lparr>ba_partial_completion := True\<rparr> else ba)"

section \<open>Lemmas\<close>

lemma sum_fold_ge: "d_nn s \<Longrightarrow> list_all d_nn xs \<Longrightarrow> d_le s (foldl d_add s xs) \<and> d_nn (foldl d_add s xs)"
proof (induction xs arbitrary: s)
  case Nil
  then show ?case by (simp add: d_le_refl d_nn_def)
next
  case (Cons x xs)
  then have "d_nn (d_add s x)" "d_le s (d_add s x)" by (simp_all add: d_add_nn_ge)
  with Cons show ?case using Cons.IH [of "d_add s x"] d_le_trans by auto
qed

text \<open>A non-negative term is at most the sum.\<close>

lemma member_le_sum_fold: "x \<in> set xs \<Longrightarrow> d_nn s \<Longrightarrow> list_all d_nn xs \<Longrightarrow> d_le x (foldl d_add s xs)"
proof (induction xs arbitrary: s)
  case (Cons y ys)
  then have nn: "d_nn (d_add s y)" by simp
  show ?case
  proof (cases "x = y")
    case True
    have "d_le y (d_add s y)" using d_add_nn_ge [of y s] Cons.prems by (simp add: d_add_comm)
    with True sum_fold_ge [OF nn, of ys] Cons.prems(3) show ?thesis using d_le_trans by auto
  next
    case False
    with Cons nn show ?thesis by simp
  qed
qed simp

lemma sum_over_map: "sum_over f xs = foldl d_add d_zero (map f xs)"
  by (simp add: sum_over_def foldl_map)

lemma foldl_add_zeros: "d_nn s \<Longrightarrow> \<not> (dsign s \<and> dmag s = 0) \<Longrightarrow> foldl d_add s (map (\<lambda>_. d_zero) xs) = s"
  by (induction xs) (simp_all add: d_add_zero_right d_nn_def)

lemma batch_fold:
  "foldl (batch_step u) ba kvs =
     ba\<lparr>ba_members := ba_members ba @ map fst kvs,
        ba_member_accounts := ba_member_accounts ba @ map (\<lambda>kv. reconcile_request u (snd kv) (fst kv)) kvs,
        ba_total_execution_s := foldl d_add (ba_total_execution_s ba)
          (map (\<lambda>kv. q_value (ac_execution_s (ac_timing (reconcile_request u (snd kv) (fst kv))))) kvs),
        ba_total_generated_tokens := foldl d_add (ba_total_generated_tokens ba)
          (map (\<lambda>kv. d_of_u64 (ac_generated_tokens (ac_counts (reconcile_request u (snd kv) (fst kv))))) kvs),
        ba_total_gpu_s := foldl d_add (ba_total_gpu_s ba)
          (map (\<lambda>kv. q_value (ac_gpu_active_s (ac_timing (reconcile_request u (snd kv) (fst kv))))) kvs),
        ba_cancelled_members := ba_cancelled_members ba + word_of_nat (length
          (filter (\<lambda>kv. ac_cancelled (ac_outcome (reconcile_request u (snd kv) (fst kv)))) kvs)),
        ba_partial_completion := (ba_partial_completion ba \<or>
          list_ex (\<lambda>kv. \<not> ac_completed (ac_outcome (reconcile_request u (snd kv) (fst kv)))) kvs)\<rparr>"
  by (induction kvs arbitrary: ba) (simp_all add: batch_step_def Let_def)

lemma by_request_groups:
  "map_wf (by_request b es) \<and>
   (\<forall>r. map_find (by_request b es) r =
      (if r \<in> e_request ` set (filter (in_batch b) es)
       then Some (filter (\<lambda>e. e_request e = r) (filter (in_batch b) es)) else None))"
  using map_wf_push_fold [of "[]" e_request "filter (in_batch b) es"]
    push_fold_Nil [of e_request "filter (in_batch b) es"]
  by (simp add: by_request_def foldl_if_filter)

section \<open>Properties\<close>


lemma d_one_facts:
  "d_nn (d_of_nat 1)" "isfinite (d_of_nat 1)" "d_lt d_zero (d_of_nat 1)" "\<not> d_le (d_of_nat 1) d_zero"
  "d_add d_zero (d_of_nat 1) = d_of_nat 1"
proof -
  show nn: "d_nn (d_of_nat 1)" using dmag_one by (simp add: d_nn_iff isnan_def inf_mag_def)
  show "isfinite (d_of_nat 1)" using dmag_one by (simp add: isfinite_def inf_mag_def)
  show "d_lt d_zero (d_of_nat 1)" "\<not> d_le (d_of_nat 1) d_zero"
    using nn d_nn_zero dmag_one by (simp_all add: d_lt_def d_le_def d_nn_def) (simp_all add: dord_def)
  show "d_add d_zero (d_of_nat 1) = d_of_nat 1"
    using nn dmag_one by (intro d_add_zero_left) (simp_all add: d_nn_def)
qed


text \<open>Direct ownership charges the whole amount, exactly, to the owner when it is one of the
  members and occurs once, and charges nothing to anyone when it is not a member: the amount is then
  neither in a share nor in the overhead.\<close>

theorem direct_ownership:
  assumes "members \<noteq> []" "\<not> is_zero owner" "d_nn amount" "\<not> dsign amount"
  shows "(owner \<in> set members \<and> distinct members \<longrightarrow>
       member_sum (allocate_shared amount members weights DirectOwnership owner) = amount) \<and>
    (owner \<notin> set members \<longrightarrow>
       member_sum (allocate_shared amount members weights DirectOwnership owner) = d_zero) \<and>
    sa_unallocated_overhead (allocate_shared amount members weights DirectOwnership owner) = d_zero"
proof -
  let ?f = "\<lambda>m. if m = owner then amount else d_zero"
  have sum: "member_sum (allocate_shared amount members weights DirectOwnership owner) =
      foldl d_add d_zero (map ?f members)"
    using assms(1,2) by (simp add: allocate_shared_def member_sum_def sum_over_map comp_def Let_def)
  have z: "foldl d_add d_zero (map (\<lambda>_. d_zero) xs) = d_zero" for xs :: "request_id list"
    by (rule foldl_add_zeros [OF d_nn_zero]) (simp add: d_zero_def)
  have absent: "map ?f xs = map (\<lambda>_. d_zero) xs" if "owner \<notin> set xs" for xs
    using that by auto
  have "foldl d_add d_zero (map ?f members) = amount" if own: "owner \<in> set members" and d: "distinct members"
  proof -
    obtain xs ys where ms: "members = xs @ owner # ys" "owner \<notin> set xs" "owner \<notin> set ys"
      using own d by (metis split_list distinct.simps(2) distinct_append not_distinct_conv_prefix)
    have "foldl d_add d_zero (map ?f members) = foldl d_add (d_add d_zero amount) (map (\<lambda>_. d_zero) ys)"
      by (simp add: ms(1) absent [OF ms(2)] absent [OF ms(3)] z)
    also have "d_add d_zero amount = amount"
      using assms(3,4) by (intro d_add_zero_left) (simp_all add: d_nn_def)
    finally show ?thesis using foldl_add_zeros [of amount ys] assms(3,4) by simp
  qed
  moreover have "foldl d_add d_zero (map ?f members) = d_zero" if "owner \<notin> set members"
    unfolding absent [OF that] by (rule z)
  moreover have "sa_unallocated_overhead (allocate_shared amount members weights DirectOwnership owner) = d_zero"
    using assms(1) by (simp add: allocate_shared_def Let_def)
  ultimately show ?thesis unfolding sum by blast
qed

theorem direct_ownership_witness:
  "member_sum (allocate_shared (d_of_nat 1) [Id128 0 1] [] DirectOwnership (Id128 0 1)) = d_of_nat 1 \<and>
   member_sum (allocate_shared (d_of_nat 1) [Id128 0 1] [] DirectOwnership (Id128 0 2)) = d_zero"
  using direct_ownership [of "[Id128 0 1]" "Id128 0 1" "d_of_nat 1" "[]"]
    direct_ownership [of "[Id128 0 1]" "Id128 0 2" "d_of_nat 1" "[]"] d_one_facts(1) dmag_one(2)
  by (simp add: is_zero_def)

text \<open>The account of a batch has one member per request with an entry of the batch, in increasing
  order, each accounted from exactly its entries of the batch in ledger order; the batch totals are
  the sums over the members, and it is partial exactly when some member did not complete or entries
  were given and none belonged to it. An entry that names no batch belongs to every batch.\<close>

theorem reconcile_batch_members:
  "sorted_wrt (<) (ba_members (reconcile_batch u es b)) \<and>
   set (ba_members (reconcile_batch u es b)) = e_request ` set (filter (in_batch b) es) \<and>
   ba_member_accounts (reconcile_batch u es b) =
     map (\<lambda>r. reconcile_request u (filter (\<lambda>e. e_request e = r) (filter (in_batch b) es)) r)
       (ba_members (reconcile_batch u es b)) \<and>
   ba_total_execution_s (reconcile_batch u es b) =
     sum_over (\<lambda>a. q_value (ac_execution_s (ac_timing a))) (ba_member_accounts (reconcile_batch u es b)) \<and>
   (ba_partial_completion (reconcile_batch u es b) \<longleftrightarrow>
     list_ex (\<lambda>a. \<not> ac_completed (ac_outcome a)) (ba_member_accounts (reconcile_batch u es b)) \<or>
     es \<noteq> [] \<and> ba_members (reconcile_batch u es b) = [])"
proof -
  let ?g = "by_request b es"
  have wf: "map_wf ?g" and find: "map_find ?g r =
      (if r \<in> e_request ` set (filter (in_batch b) es)
       then Some (filter (\<lambda>e. e_request e = r) (filter (in_batch b) es)) else None)" for r
    using by_request_groups [of b es] by auto
  have grp: "snd kv = filter (\<lambda>e. e_request e = fst kv) (filter (in_batch b) es)" if "kv \<in> set ?g" for kv
    using that find [of "fst kv"] map_find_of_set [OF wf, of "fst kv" "snd kv"]
    by (auto split: if_splits)
  have fields: "ba_members (reconcile_batch u es b) = map fst ?g"
      "ba_member_accounts (reconcile_batch u es b) = map (\<lambda>kv. reconcile_request u (snd kv) (fst kv)) ?g"
      "ba_total_execution_s (reconcile_batch u es b) = foldl d_add d_zero
         (map (\<lambda>kv. q_value (ac_execution_s (ac_timing (reconcile_request u (snd kv) (fst kv))))) ?g)"
      "ba_partial_completion (reconcile_batch u es b) \<longleftrightarrow>
         list_ex (\<lambda>kv. \<not> ac_completed (ac_outcome (reconcile_request u (snd kv) (fst kv)))) ?g \<or>
         es \<noteq> [] \<and> ?g = []"
    by (auto simp: reconcile_batch_def batch_fold batch_default_def Let_def)
  have "set (map fst ?g) = e_request ` set (filter (in_batch b) es)"
    using find keys_of_find [of _ ?g] by (auto simp: set_eq_iff split: if_splits)
  moreover have "map (\<lambda>kv. reconcile_request u (snd kv) (fst kv)) ?g =
      map (\<lambda>r. reconcile_request u (filter (\<lambda>e. e_request e = r) (filter (in_batch b) es)) r) (map fst ?g)"
    using grp by simp
  ultimately show ?thesis
    using wf unfolding fields map_wf_def
    by (simp add: sum_over_map comp_def list_ex_iff)
qed

end
