(* ===== verification/Cli.thy ===== *)
theory Cli
  imports Restart Pricing Batch Exact
begin

text \<open>
  \<^verbatim>\<open>iledger_cli.cpp\<close>: the command line interface. A run gives the exit, the lines of the
  standard output and the disk afterwards. The text of a file read by a formatted stream and the
  status of a command passed to \<^verbatim>\<open>std::system\<close> are parameters.

  \<open>BadDeref\<close> is the dereference of an empty optional, \<open>Uncaught\<close> the exception of
  \<^verbatim>\<open>std::stod\<close> leaving \<^verbatim>\<open>main\<close>; what was printed before is lost in neither case, but no
  command prints before it.
\<close>

section \<open>Quantities as text\<close>

text \<open>\<^verbatim>\<open>std::to_string(double)\<close>: six digits after the point, rounded from the exact value.\<close>

definition show_fixed :: "double \<Rightarrow> string" where
  "show_fixed d =
     (if dsign d then ''-'' else []) @
     (if isnan d then ''nan'' else if isinf d then ''inf''
      else let n = round_half_even (mag_val (dmag d) * 10 ^ 6) d_unit;
               ds = show_nat (n mod 10 ^ 6)
           in show_nat (n div 10 ^ 6) @ ''.'' @ replicate (6 - length ds) (CHR ''0'') @ ds)"

definition quantity_to_string :: "quantity \<Rightarrow> string" where
  "quantity_to_string q =
     show_fixed (q_value q) @ '' '' @ unit_name (q_unit q) @ '' ['' @ provenance_name (q_provenance q) @ '']''"

section \<open>Accounts as text\<close>

definition f2 :: "double \<Rightarrow> string" where
  "f2 v = show_double v"

abbreviation fq :: "quantity \<Rightarrow> string" where
  "fq q \<equiv> f2 (q_value q)"

abbreviation fn :: "u64 \<Rightarrow> string" where
  "fn n \<equiv> show_nat (unat n)"

definition print_account_text :: "request_account \<Rightarrow> string list" where
  "print_account_text a =
     (let t = ac_timing a; x = ac_transfers a; m = ac_memory a; c = ac_counts a; w = ac_work a; r = ac_outcome a in
      [''request '' @ id_to_string (ac_request (ac_identity a)),
       ''  outcome      '' @ ac_terminal_outcome r,
       ''  wall_latency_s '' @ fq (ac_wall_latency_s t) @ '' ['' @ provenance_name (q_provenance (ac_wall_latency_s t)) @ '']'',
       ''  queue_s      '' @ fq (ac_queue_time_s t),
       ''  execution_s  '' @ fq (ac_execution_s t),
       ''  prefill_s    '' @ fq (ac_prefill_s t),
       ''  decode_s     '' @ fq (ac_decode_s t),
       ''  gpu_active_s '' @ fq (ac_gpu_active_s t),
       ''  cpu_active_s '' @ fq (ac_cpu_active_s t),
       ''  h2d_bytes    '' @ fq (ac_h2d_bytes x),
       ''  d2h_bytes    '' @ fq (ac_d2h_bytes x),
       ''  inter_node_bytes '' @ fq (ac_inter_node_bytes x),
       ''  kv_allocated '' @ fq (ac_kv_allocated m),
       ''  kv_peak      '' @ fq (ac_kv_peak m),
       ''  kv_reuse     '' @ fq (ac_kv_reuse m),
       ''  tensor_allocated '' @ fq (ac_tensor_allocated m),
       ''  model_byte_seconds '' @ fq (ac_model_byte_seconds m),
       ''  adapter_byte_seconds '' @ fq (ac_adapter_byte_seconds m),
       ''  reservations acquired/released '' @ fn (ac_reservations_acquired c) @ ''/'' @ fn (ac_reservations_released c),
       ''  allocation_peak '' @ fq (ac_allocation_peak m),
       ''  spec proposed/accepted/rejected '' @ fn (ac_spec_proposed c) @ ''/'' @ fn (ac_spec_accepted c) @ ''/'' @ fn (ac_spec_rejected c),
       ''  generated_tokens '' @ fn (ac_generated_tokens c),
       ''  retries      '' @ fn (ac_retries c),
       ''  attempt_count '' @ show_nat (ac_attempt_count r),
       ''  failed_work_s '' @ fq (ac_failed_attempt_work w),
       ''  cancelled_work_s '' @ fq (ac_cancelled_work w),
       ''  recompute_s  '' @ fq (ac_recomputed_work w),
       ''  reuse_avoided_s '' @ fq (ac_reuse_avoided_work w),
       ''  reused_s     '' @ fq (ac_reused_work w),
       ''  energy_j     '' @ fq (ac_energy_joules w),
       ''  kernel_hits/misses '' @ fn (ac_kernel_hits c) @ ''/'' @ fn (ac_kernel_misses c),
       ''  graph_hits/misses '' @ fn (ac_graph_hits c) @ ''/'' @ fn (ac_graph_misses c),
       ''  waste_ratio  '' @ f2 (waste_ratio a),
       ''  reuse_credit '' @ f2 (reuse_credit a)])"

abbreviation quote :: char where "quote \<equiv> CHR 0x22"
abbreviation backslash :: char where "backslash \<equiv> CHR 0x5C"

primrec json_escape :: "string \<Rightarrow> string" where
  "json_escape [] = []"
| "json_escape (c # s) =
     (if c = quote \<or> c = backslash then [backslash, c] else [c]) @ json_escape s"

definition json_field :: "string \<Rightarrow> string \<Rightarrow> string" where
  "json_field name value = ''  '' @ [quote] @ name @ [quote] @ '':'' @ value"

definition print_account_json :: "request_account \<Rightarrow> string list" where
  "print_account_json a =
     (let t = ac_timing a; m = ac_memory a; c = ac_counts a in
      [''{'',
       json_field ''request'' ([quote] @ id_to_string (ac_request (ac_identity a)) @ [quote]) @ '','',
       json_field ''outcome'' ([quote] @ ac_terminal_outcome (ac_outcome a) @ [quote]) @ '','',
       json_field ''wall_latency_s'' (fq (ac_wall_latency_s t)) @ '','',
       json_field ''execution_s'' (fq (ac_execution_s t)) @ '','',
       json_field ''prefill_s'' (fq (ac_prefill_s t)) @ '','',
       json_field ''decode_s'' (fq (ac_decode_s t)) @ '','',
       json_field ''gpu_active_s'' (fq (ac_gpu_active_s t)) @ '','',
       json_field ''kv_allocated'' (fq (ac_kv_allocated m)) @ '','',
       json_field ''kv_reuse'' (fq (ac_kv_reuse m)) @ '','',
       json_field ''generated_tokens'' (fn (ac_generated_tokens c)) @ '','',
       json_field ''retries'' (fn (ac_retries c)) @ '','',
       json_field ''attempts'' (show_nat (ac_attempt_count (ac_outcome a))) @ '','',
       json_field ''waste_ratio'' (f2 (waste_ratio a)) @ '','',
       json_field ''reuse_credit'' (f2 (reuse_credit a)),
       ''}''])"

section \<open>Pricing policies from a file\<close>

definition set_rate :: "string \<Rightarrow> double \<Rightarrow> string \<Rightarrow> pricing_policy \<Rightarrow> pricing_policy" where
  "set_rate k v text p =
     (if k = ''gpu_per_second'' then p\<lparr>pp_rates := (pp_rates p)\<lparr>pr_gpu_per_second := v\<rparr>\<rparr>
      else if k = ''cpu_per_second'' then p\<lparr>pp_rates := (pp_rates p)\<lparr>pr_cpu_per_second := v\<rparr>\<rparr>
      else if k = ''memory_per_gib_second'' then p\<lparr>pp_rates := (pp_rates p)\<lparr>pr_memory_per_gib_second := v\<rparr>\<rparr>
      else if k = ''transfer_per_gib'' then p\<lparr>pp_rates := (pp_rates p)\<lparr>pr_transfer_per_gib := v\<rparr>\<rparr>
      else if k = ''energy_per_kwh'' then p\<lparr>pp_rates := (pp_rates p)\<lparr>pr_energy_per_kwh := v\<rparr>\<rparr>
      else if k = ''persistent_cache_cost'' then p\<lparr>pp_rates := (pp_rates p)\<lparr>pr_persistent_cache_cost := v\<rparr>\<rparr>
      else if k = ''currency'' then p\<lparr>pp_currency := text\<rparr>
      else p)"

text \<open>A line is empty, a comment, has no equals sign, or assigns the text after the first one.\<close>

definition assignment :: "string \<Rightarrow> (string \<times> string) option" where
  "assignment line =
     (if line = [] \<or> hd line = CHR ''#'' \<or> CHR ''='' \<notin> set line then None
      else Some (takeWhile (\<lambda>c. c \<noteq> CHR ''='') line, tl (dropWhile (\<lambda>c. c \<noteq> CHR ''='') line)))"

primrec policy_loop :: "string list \<Rightarrow> pricing_policy \<Rightarrow> pricing_policy option" where
  "policy_loop [] p = Some p"
| "policy_loop (line # ls) p =
     (case assignment line of
        None \<Rightarrow> policy_loop ls p
      | Some (k, text) \<Rightarrow>
          (case stod text of None \<Rightarrow> None | Some v \<Rightarrow> policy_loop ls (set_rate k v text p)))"

text \<open>\<^term>\<open>None\<close> is the exception of \<^verbatim>\<open>std::stod\<close>; a file that does not open has no lines.\<close>

definition load_policy :: "(string \<Rightarrow> string option) \<Rightarrow> string \<Rightarrow> pricing_policy option" where
  "load_policy texts path =
     map_option (\<lambda>p. p\<lparr>pp_id := Id128 0xCAFE 1\<rparr>)
       (policy_loop (case texts path of None \<Rightarrow> [] | Some s \<Rightarrow> getlines s)
          (policy_default\<lparr>pp_currency := ''usd'', pp_generation := 1\<rparr>))"

section \<open>Commands\<close>

type_synonym outcome_text = "prog_exit \<times> string list"

definition account_for :: "(double \<Rightarrow> u64) \<Rightarrow> ledger_entry list \<Rightarrow> request_id \<Rightarrow> request_account" where
  "account_for u snap req = reconcile_request u (query_ledger snap (by_request_id req)) req"

definition cmd_cost ::
    "(double \<Rightarrow> u64) \<Rightarrow> ledger_entry list \<Rightarrow> string \<Rightarrow> pricing_policy \<Rightarrow> outcome_text" where
  "cmd_cost u snap reqhex policy =
     (case parse reqhex of
        None \<Rightarrow> (Exit 0 ''bad request id'', [])
      | Some req \<Rightarrow>
          let c = apply_pricing (account_for u snap req) policy
          in (Exit 0 [],
              [''cost for request '' @ reqhex @ '' ('' @ cr_currency c @ '')'',
               ''  useful_work    '' @ f2 (cr_useful_work_cost c),
               ''  wasted_work    '' @ f2 (cr_wasted_work_cost c),
               ''  retry_cost     '' @ f2 (cr_retry_cost c),
               ''  cancelled_cost '' @ f2 (cr_cancelled_cost c),
               ''  rejected_spec  '' @ f2 (cr_rejected_spec_cost c),
               ''  residency_cost '' @ f2 (cr_residency_cost c),
               ''  transfer_cost  '' @ f2 (cr_transfer_cost c),
               ''  energy_cost    '' @ f2 (cr_energy_cost c),
               ''  reuse_credit   '' @ f2 (cr_reuse_credit c),
               ''  total          '' @ f2 (cost_total c),
               ''  reconciles     '' @ (if cost_reconciles c then ''yes'' else ''no'')]))"

definition list_csv_line :: "ledger_entry \<Rightarrow> string" where
  "list_csv_line e =
     id_to_string (e_id e) @ '','' @ event_kind_name (e_event_kind e) @ '','' @
     resource_kind_name (e_resource_kind e) @ '','' @ fq (e_quantity e) @ '','' @
     unit_name (q_unit (e_quantity e)) @ '','' @ provenance_name (q_provenance (e_quantity e)) @ '','' @
     id_to_string (e_request e) @ '','' @ id_to_string (e_attempt e) @ '','' @
     fn (gen_value (a_epoch (e_authority e))) @ '','' @ fn (gen_value (a_accounting_generation (e_authority e)))"

definition list_line :: "ledger_entry \<Rightarrow> string" where
  "list_line e =
     id_to_string (e_id e) @ '' '' @ event_kind_name (e_event_kind e) @ '' '' @
     resource_kind_name (e_resource_kind e) @ '' '' @ fq (e_quantity e) @ '' '' @
     unit_name (q_unit (e_quantity e)) @ '' req='' @ id_to_string (e_request e)"

definition cmd_list :: "ledger_entry list \<Rightarrow> bool \<Rightarrow> outcome_text" where
  "cmd_list snap csv =
     (Exit 0 [],
      if csv then ''id,event,resource,value,unit,provenance,request,attempt,epoch,accounting_gen'' # map list_csv_line snap
      else map list_line snap)"

definition cmd_explain :: "(double \<Rightarrow> u64) \<Rightarrow> ledger_entry list \<Rightarrow> string \<Rightarrow> outcome_text" where
  "cmd_explain u snap reqhex =
     (case parse reqhex of
        None \<Rightarrow> (BadDeref, [])
      | Some req \<Rightarrow>
          let acc = account_for u snap req; t = ac_timing acc; x = ac_transfers acc; m = ac_memory acc;
              c = ac_counts acc; w = ac_work acc
          in (Exit 0 [],
              [''EXPLAIN request '' @ id_to_string (req :: request_id),
               ''  consumed:  gpu_active_s='' @ fq (ac_gpu_active_s t) @ '' kv_alloc='' @ fq (ac_kv_allocated m) @
                 '' transfer='' @ f2 (d_add (q_value (ac_h2d_bytes x)) (q_value (ac_d2h_bytes x))) @ ''B'',
               ''  time:      wall='' @ fq (ac_wall_latency_s t) @ ''s prefill='' @ fq (ac_prefill_s t) @
                 ''s decode='' @ fq (ac_decode_s t) @ ''s'',
               ''  useful:    generated_tokens='' @ fn (ac_generated_tokens c) @ '' accepted_spec='' @ fn (ac_spec_accepted c),
               ''  wasted:    rejected_spec='' @ fn (ac_spec_rejected c) @ '' failed_work_s='' @
                 fq (ac_failed_attempt_work w) @ '' cancelled_s='' @ fq (ac_cancelled_work w),
               ''  reused:    kv_reuse='' @ fq (ac_kv_reuse m) @ ''B reuse_credit='' @ f2 (reuse_credit acc),
               ''  avoided:   reuse_avoided_s='' @ fq (ac_reuse_avoided_work w) @ '' (derived/estimated)'',
               ''  provenance: aggregate=derived from '' @ show_nat (rr_entries (ac_reconcile (ac_outcome acc))) @
                 '' entries across '' @ show_nat (ac_attempt_count (ac_outcome acc)) @ '' attempt(s) via worker '' @
                 (if snap = [] then ''?'' else id_to_string (e_worker (hd snap))),
               ''  shared-cost policy: not applied at the request level (see batch)'']))"

definition cmd_request :: "(double \<Rightarrow> u64) \<Rightarrow> ledger_entry list \<Rightarrow> string \<Rightarrow> bool \<Rightarrow> outcome_text" where
  "cmd_request u snap reqhex json =
     (case parse reqhex of
        None \<Rightarrow> (Exit 2 ''bad request id'', [])
      | Some req \<Rightarrow>
          let acc = account_for u snap req
          in (Exit 0 [], if json then print_account_json acc else print_account_text acc))"

instantiation resource_kind :: linorder
begin

definition less_eq_resource_kind :: "resource_kind \<Rightarrow> resource_kind \<Rightarrow> bool" where
  "less_eq_resource_kind a b = (resource_kind_val a \<le> resource_kind_val b)"

definition less_resource_kind :: "resource_kind \<Rightarrow> resource_kind \<Rightarrow> bool" where
  "less_resource_kind a b = (resource_kind_val a < resource_kind_val b)"

instance
proof
  fix a b :: resource_kind
  show "a \<le> b \<Longrightarrow> b \<le> a \<Longrightarrow> a = b"
    unfolding less_eq_resource_kind_def by (metis resource_kind_of_val order_antisym)
qed (auto simp: less_eq_resource_kind_def less_resource_kind_def)

end

definition resources_step :: "(resource_kind, double) omap \<Rightarrow> ledger_entry \<Rightarrow> (resource_kind, double) omap" where
  "resources_step bykind e =
     (if q_unit (e_quantity e) = Bytes \<or> q_unit (e_quantity e) = Count then
        map_put (e_resource_kind e)
          (d_add (case map_find bykind (e_resource_kind e) of None \<Rightarrow> d_zero | Some v \<Rightarrow> v) (q_value (e_quantity e)))
          bykind
      else bykind)"

definition cmd_resources :: "ledger_entry list \<Rightarrow> outcome_text" where
  "cmd_resources snap =
     (Exit 0 [], map (\<lambda>kv. resource_kind_name (fst kv) @ '' '' @ f2 (snd kv)) (foldl resources_step [] snap))"

text \<open>Entries selected by an identity of theirs; the optional is dereferenced once per entry.\<close>

definition select_by :: "(ledger_entry \<Rightarrow> 'tag id128) \<Rightarrow> ledger_entry list \<Rightarrow> string \<Rightarrow> ledger_entry list option" where
  "select_by field snap hex =
     (case parse hex of
        None \<Rightarrow> if snap = [] then Some [] else None
      | Some i \<Rightarrow> Some (filter (\<lambda>e. field e = i) snap))"

definition cmd_scope :: "(double \<Rightarrow> u64) \<Rightarrow> string \<Rightarrow> string \<Rightarrow> ledger_entry list option \<Rightarrow> outcome_text" where
  "cmd_scope u cmd hex selected =
     (case selected of
        None \<Rightarrow> (BadDeref, [])
      | Some es \<Rightarrow>
          (Exit 0 [],
           (cmd @ '' '' @ hex @ '': '' @ show_nat (length es) @ '' entries'') #
           map (\<lambda>req. let acc = account_for u es req
                      in ''  req '' @ id_to_string req @ '' gpu_s='' @ fq (ac_gpu_active_s (ac_timing acc)) @
                         '' tokens='' @ fn (ac_generated_tokens (ac_counts acc)))
             (distinct_requests es)))"

definition cmd_batch :: "(double \<Rightarrow> u64) \<Rightarrow> ledger_entry list \<Rightarrow> string \<Rightarrow> outcome_text" where
  "cmd_batch u snap hex =
     (case parse hex of
        None \<Rightarrow> (BadDeref, [])
      | Some b \<Rightarrow>
          let ba = reconcile_batch u snap b
          in (Exit 0 [],
              [''batch '' @ hex @ '': '' @ show_nat (length (ba_members ba)) @ '' members'',
               ''  exec_s '' @ f2 (ba_total_execution_s ba) @ '' tokens '' @ f2 (ba_total_generated_tokens ba) @
                 '' partial '' @ (if ba_partial_completion ba then ''1'' else ''0'')]))"

definition cmd_waste :: "(double \<Rightarrow> u64) \<Rightarrow> ledger_entry list \<Rightarrow> string \<Rightarrow> outcome_text" where
  "cmd_waste u snap hex =
     (case parse hex of
        None \<Rightarrow> (BadDeref, [])
      | Some req \<Rightarrow>
          let acc = account_for u snap req; w = ac_work acc
          in (Exit 0 [],
              [''waste for '' @ hex,
               ''  failed_work_s     '' @ fq (ac_failed_attempt_work w),
               ''  cancelled_work_s  '' @ fq (ac_cancelled_work w),
               ''  spec_rejected     '' @ fn (ac_spec_rejected (ac_counts acc)),
               ''  spec_wasted_s     '' @ fq (ac_spec_wasted_work_s w),
               ''  waste_ratio       '' @ f2 (waste_ratio acc)]))"

definition cmd_reuse :: "(double \<Rightarrow> u64) \<Rightarrow> ledger_entry list \<Rightarrow> string \<Rightarrow> outcome_text" where
  "cmd_reuse u snap hex =
     (case parse hex of
        None \<Rightarrow> (BadDeref, [])
      | Some req \<Rightarrow>
          let acc = account_for u snap req; w = ac_work acc
          in (Exit 0 [],
              [''reuse for '' @ hex,
               ''  kv_reuse_bytes    '' @ fq (ac_kv_reuse (ac_memory acc)),
               ''  tensor_reuse      '' @ fq (ac_tensor_reuse (ac_memory acc)),
               ''  reuse_avoided_s   '' @ fq (ac_reuse_avoided_work w),
               ''  reused_s          '' @ fq (ac_reused_work w),
               ''  reuse_credit      '' @ f2 (reuse_credit acc),
               ''  reuse_rate        '' @ f2 (reuse_rate acc)]))"

definition compare_line :: "string \<Rightarrow> string \<Rightarrow> string \<Rightarrow> string" where
  "compare_line name a b = name @ a @ '' vs '' @ b"

definition cmd_compare :: "(double \<Rightarrow> u64) \<Rightarrow> ledger_entry list \<Rightarrow> string \<Rightarrow> string \<Rightarrow> outcome_text" where
  "cmd_compare u snap hexa hexb =
     (case (parse hexa, parse hexb) of
        (Some ra, Some rb) \<Rightarrow>
          let a = account_for u snap ra; b = account_for u snap rb
          in (Exit 0 [],
              [''compare '' @ hexa @ '' vs '' @ hexb,
               compare_line ''  gpu_s        '' (fq (ac_gpu_active_s (ac_timing a))) (fq (ac_gpu_active_s (ac_timing b))),
               compare_line ''  tokens       '' (fn (ac_generated_tokens (ac_counts a))) (fn (ac_generated_tokens (ac_counts b))),
               compare_line ''  kv_allocated '' (fq (ac_kv_allocated (ac_memory a))) (fq (ac_kv_allocated (ac_memory b))),
               compare_line ''  kv_reuse     '' (fq (ac_kv_reuse (ac_memory a))) (fq (ac_kv_reuse (ac_memory b))),
               compare_line ''  retries      '' (fn (ac_retries (ac_counts a))) (fn (ac_retries (ac_counts b))),
               compare_line ''  waste_ratio  '' (f2 (waste_ratio a)) (f2 (waste_ratio b)),
               compare_line ''  reuse_credit '' (f2 (reuse_credit a)) (f2 (reuse_credit b))])
      | _ \<Rightarrow> (BadDeref, []))"

definition cmd_snapshot :: "device \<Rightarrow> disk \<Rightarrow> load_result \<Rightarrow> string \<Rightarrow> prog_exit \<times> string list \<times> disk" where
  "cmd_snapshot dev d lr out =
     (case save_snapshot dev d (lr_entries lr) (lr_ledger_id lr) out of
        (Inr _, d') \<Rightarrow> (Exit 0 [], [''saved '' @ show_nat (length (lr_entries lr)) @ '' entries to '' @ out], d')
      | (Inl err, d') \<Rightarrow> (Exit 1 (''save: '' @ err), [], d'))"

definition cmd_replay :: "disk \<Rightarrow> string \<Rightarrow> outcome_text" where
  "cmd_replay d path =
     (case replay_into d None (ledger_new (Id128 0x494C4544474552 0x1)) path of
        None \<Rightarrow> (BadRead, [])
      | Some (Inr _, fresh) \<Rightarrow>
          (Exit 0 [], [''replayed '' @ show_nat (ledger_size fresh) @ '' entries; fingerprint '' @
             fingerprint_to_string (ledger_fingerprint (snapshot fresh))])
      | Some (Inl err, _) \<Rightarrow> (Exit 1 (''replay: '' @ err), []))"

definition cmd_recover :: "disk \<Rightarrow> string \<Rightarrow> outcome_text" where
  "cmd_recover d path =
     (case recover d path of
        None \<Rightarrow> (BadRead, [])
      | Some rec \<Rightarrow>
          (Exit (if lr_ok rec then 0 else 1) [], [''recover: '' @ (if lr_ok rec then ''ok'' else lr_reason rec)]))"

section \<open>The program\<close>

record environment =
  en_undefined :: "double \<Rightarrow> u64"
  en_device :: device
  en_texts :: "string \<Rightarrow> string option"
  en_system :: "string \<Rightarrow> nat"

definition cli_usage :: string where
  "cli_usage = ''usage: iledger <subcommand> ...'' @ concat (map (\<lambda>l. CHR 0x0A # l)
     [''  list <ledger> [--csv]'',
      ''  request <ledger> <request_id_hex> [--json]'',
      ''  explain <ledger> <request_id_hex>'',
      ''  attempt <ledger> <attempt_id_hex>'',
      ''  tenant <ledger> <tenant_id_hex>'',
      ''  model <ledger> <model_id_hex>'',
      ''  batch <ledger> <batch_id_hex>'',
      ''  device <ledger> <device_id_hex>'',
      ''  resources <ledger> [--resource <kind>]'',
      ''  cost <ledger> <request_id_hex> --policy <file>'',
      ''  pricing <ledger> <request_id_hex> --policy <file>'',
      ''  waste <ledger> <request_id_hex>'',
      ''  reuse <ledger> <request_id_hex>'',
      ''  compare <ledger> <reqA> <reqB> [--policy <file>]'',
      ''  snapshot <ledger> <out>'',
      ''  replay <ledger>'',
      ''  recover <ledger>'',
      ''  multiprocess <dir>'',
      ''  cuda'',
      ''  benchmark <ledger>''])"

text \<open>The commands on a loaded ledger; \<open>args\<close> are the arguments after the ledger's path.\<close>

definition cli_command ::
    "environment \<Rightarrow> disk \<Rightarrow> string \<Rightarrow> string \<Rightarrow> load_result \<Rightarrow> string list \<Rightarrow> prog_exit \<times> string list \<times> disk" where
  "cli_command en d cmd path lr args =
     (let u = en_undefined en; snap = lr_entries lr;
          pure = (\<lambda>(x, out). (x, out, d));
          needs = (\<lambda>n message run. if length args < n then (Exit 2 message, [], d) else pure (run ()))
      in if cmd = ''list'' then pure (cmd_list snap (args \<noteq> [] \<and> hd args = ''--csv''))
         else if cmd = ''explain'' then needs 1 ''need request id'' (\<lambda>_. cmd_explain u snap (args ! 0))
         else if cmd = ''request'' then
           needs 1 ''need request id'' (\<lambda>_. cmd_request u snap (args ! 0) (1 < length args \<and> args ! 1 = ''--json''))
         else if cmd = ''resources'' then pure (cmd_resources snap)
         else if cmd = ''tenant'' then needs 1 ''need id'' (\<lambda>_. cmd_scope u cmd (args ! 0) (select_by e_tenant snap (args ! 0)))
         else if cmd = ''model'' then needs 1 ''need id'' (\<lambda>_. cmd_scope u cmd (args ! 0) (select_by e_model snap (args ! 0)))
         else if cmd = ''device'' then needs 1 ''need id'' (\<lambda>_. cmd_scope u cmd (args ! 0) (select_by e_device snap (args ! 0)))
         else if cmd = ''batch'' then needs 1 ''need batch id'' (\<lambda>_. cmd_batch u snap (args ! 0))
         else if cmd = ''cost'' \<or> cmd = ''pricing'' then
           if length args < 3 \<or> args ! 1 \<noteq> ''--policy'' then (Exit 2 ''need --policy <file>'', [], d)
           else (case load_policy (en_texts en) (args ! 2) of
                   None \<Rightarrow> (Uncaught, [], d)
                 | Some p \<Rightarrow> pure (cmd_cost u snap (args ! 0) p))
         else if cmd = ''waste'' then needs 1 ''need request id'' (\<lambda>_. cmd_waste u snap (args ! 0))
         else if cmd = ''reuse'' then needs 1 ''need request id'' (\<lambda>_. cmd_reuse u snap (args ! 0))
         else if cmd = ''compare'' then needs 2 ''need reqA reqB'' (\<lambda>_. cmd_compare u snap (args ! 0) (args ! 1))
         else if cmd = ''snapshot'' \<or> cmd = ''save'' then
           if args = [] then (Exit 2 ''need output path'', [], d) else cmd_snapshot (en_device en) d lr (args ! 0)
         else if cmd = ''replay'' then pure (cmd_replay d path)
         else if cmd = ''recover'' then pure (cmd_recover d path)
         else if cmd = ''benchmark'' then (Exit (en_system en (''iledger_benchmark.exe '' @ path)) [], [], d)
         else (Exit 2 (''unknown command '' @ cmd), [], d))"

definition cli_main :: "environment \<Rightarrow> disk \<Rightarrow> string list \<Rightarrow> prog_exit \<times> string list \<times> disk" where
  "cli_main en d args =
     (case args of
        [] \<Rightarrow> (Exit 2 cli_usage, [], d)
      | cmd # rest \<Rightarrow>
          if cmd = ''multiprocess'' then
            (Exit (en_system en (''iledger_multiprocess.exe '' @ (if rest \<noteq> [] then hd rest else ''.''))) [], [], d)
          else if cmd = ''cuda'' then (Exit (en_system en ''iledger_cuda_proof.exe'') [], [], d)
          else if cmd = ''serve'' \<or> cmd = ''worker'' then
            (Exit 2 ''use the iledger_coordinator / iledger_worker executables'', [], d)
          else case rest of
            [] \<Rightarrow> (Exit 2 ''missing ledger path'', [], d)
          | path # args \<Rightarrow>
              (case load d path of
                 None \<Rightarrow> (BadRead, [], d)
               | Some lr \<Rightarrow>
                   if \<not> lr_ok lr then (Exit 1 (''load: '' @ lr_reason lr), [], d)
                   else cli_command en d cmd path lr args))"
section \<open>Arguments that crash it\<close>

definition is_id :: "string \<Rightarrow> bool" where
  "is_id s = (length s = 32 \<and> list_all (\<lambda>c. 0 \<le> hex_to_nibble c) s)"

lemma parse_is_id: "parse s = None \<longleftrightarrow> \<not> is_id s"
  unfolding parse_None is_id_def list_all_iff by force

lemma parse_id_cases: "parse s = None \<Longrightarrow> \<not> is_id s" "parse s = Some i \<Longrightarrow> is_id s"
  by (simp add: parse_is_id) (metis option.distinct(1) parse_is_id)

text \<open>The commands that dereference an identity without looking whether it was parsed.\<close>

definition dereferences :: "string \<Rightarrow> string list \<Rightarrow> ledger_entry list \<Rightarrow> bool" where
  "dereferences cmd args es =
     (if cmd = ''explain'' \<or> cmd = ''waste'' \<or> cmd = ''reuse'' \<or> cmd = ''batch'' then args \<noteq> [] \<and> \<not> is_id (args ! 0)
      else if cmd = ''tenant'' \<or> cmd = ''model'' \<or> cmd = ''device'' then args \<noteq> [] \<and> \<not> is_id (args ! 0) \<and> es \<noteq> []
      else if cmd = ''compare'' then 2 \<le> length args \<and> \<not> (is_id (args ! 0) \<and> is_id (args ! 1))
      else False)"

text \<open>How each command ends.\<close>

lemma command_exits:
  "fst (cmd_list es csv) = Exit 0 []"
  "fst (cmd_resources es) = Exit 0 []"
  "fst (cmd_request u es h j) = (if is_id h then Exit 0 [] else Exit 2 ''bad request id'')"
  "fst (cmd_cost u es h p) = (if is_id h then Exit 0 [] else Exit 0 ''bad request id'')"
  "fst (cmd_explain u es h) = (if is_id h then Exit 0 [] else BadDeref)"
  "fst (cmd_waste u es h) = (if is_id h then Exit 0 [] else BadDeref)"
  "fst (cmd_reuse u es h) = (if is_id h then Exit 0 [] else BadDeref)"
  "fst (cmd_batch u es h) = (if is_id h then Exit 0 [] else BadDeref)"
  "fst (cmd_compare u es h h') = (if is_id h \<and> is_id h' then Exit 0 [] else BadDeref)"
  "fst (cmd_scope u c h sel) = (if sel = None then BadDeref else Exit 0 [])"
  "select_by field es h = None \<longleftrightarrow> \<not> is_id h \<and> es \<noteq> []"
  by (auto simp: cmd_list_def cmd_resources_def cmd_request_def cmd_cost_def cmd_explain_def cmd_waste_def
      cmd_reuse_def cmd_batch_def cmd_compare_def cmd_scope_def select_by_def Let_def
      dest: parse_id_cases split: option.split)

lemma cli_command_bad_deref:
  "fst (cli_command en d cmd path lr args) = BadDeref \<longleftrightarrow> dereferences cmd args (lr_entries lr)"
proof -
  have s: "fst (cmd_snapshot dev d lr out) \<noteq> BadDeref" "fst (cmd_replay d path) \<noteq> BadDeref"
      "fst (cmd_recover d path) \<noteq> BadDeref" for dev out
    by (auto simp: cmd_snapshot_def cmd_replay_def cmd_recover_def split: option.split prod.split sum.split)
  then show ?thesis
    by (simp add: cli_command_def Let_def case_prod_beta dereferences_def command_exits not_less Suc_le_eq
        split: option.split)
qed
section \<open>Policy files\<close>

lemma policy_loop_None:
  "policy_loop ls p = None \<longleftrightarrow>
     list_ex (\<lambda>line. case assignment line of None \<Rightarrow> False | Some (k, text) \<Rightarrow> stod text = None) ls"
  by (induction ls arbitrary: p) (auto split: option.split)

lemma policy_loop_currency:
  "policy_loop ls p = Some q \<Longrightarrow> pp_currency p = ''usd'' \<or> stod (pp_currency p) \<noteq> None \<Longrightarrow>
     pp_currency q = ''usd'' \<or> stod (pp_currency q) \<noteq> None"
proof (induction ls arbitrary: p)
  case (Cons line ls)
  show ?case
  proof (cases "assignment line")
    case None
    with Cons show ?thesis by simp
  next
    case (Some kt)
    obtain k rhs where kt: "kt = (k, rhs)" by (cases kt)
    with Some Cons.prems(1) obtain v where v: "stod rhs = Some v" "policy_loop ls (set_rate k v rhs p) = Some q"
      by (auto split: option.splits)
    have "pp_currency (set_rate k v rhs p) = (if k = ''currency'' then rhs else pp_currency p)"
      by (simp add: set_rate_def)
    with Cons.IH [OF v(2)] v(1) Cons.prems(2) show ?thesis by (auto split: if_splits)
  qed
qed simp

text \<open>The last line that assigns a rate decides it.\<close>

primrec last_rate :: "string \<Rightarrow> string list \<Rightarrow> double \<Rightarrow> double" where
  "last_rate name [] v = v"
| "last_rate name (line # ls) v =
     last_rate name ls
       (case assignment line of
          Some (k, text) \<Rightarrow> (if k = name then (case stod text of Some w \<Rightarrow> w | None \<Rightarrow> v) else v)
        | None \<Rightarrow> v)"

lemma policy_loop_rates:
  "policy_loop ls p = Some q \<Longrightarrow>
     pp_rates q = (pp_rates p)
       \<lparr>pr_gpu_per_second := last_rate ''gpu_per_second'' ls (pr_gpu_per_second (pp_rates p)),
        pr_cpu_per_second := last_rate ''cpu_per_second'' ls (pr_cpu_per_second (pp_rates p)),
        pr_memory_per_gib_second := last_rate ''memory_per_gib_second'' ls (pr_memory_per_gib_second (pp_rates p)),
        pr_transfer_per_gib := last_rate ''transfer_per_gib'' ls (pr_transfer_per_gib (pp_rates p)),
        pr_energy_per_kwh := last_rate ''energy_per_kwh'' ls (pr_energy_per_kwh (pp_rates p)),
        pr_persistent_cache_cost := last_rate ''persistent_cache_cost'' ls (pr_persistent_cache_cost (pp_rates p))\<rparr>"
proof (induction ls arbitrary: p)
  case (Cons line ls)
  show ?case
  proof (cases "assignment line")
    case None
    with Cons show ?thesis by simp
  next
    case (Some kt)
    obtain k rhs where kt: "kt = (k, rhs)" by (cases kt)
    with Some Cons.prems obtain v where v: "stod rhs = Some v" "policy_loop ls (set_rate k v rhs p) = Some q"
      by (auto split: option.splits)
    from Cons.IH [OF v(2)] v(1) Some kt show ?thesis by (simp add: set_rate_def)
  qed
qed simp

section \<open>A copied ledger\<close>

lemma account_for_normalize [simp]: "account_for u (map normalize_entry es) r = account_for u es r"
  by (simp add: account_for_def query_normalize reconcile_normalize)

lemma distinct_requests_normalize [simp]: "distinct_requests (map normalize_entry es) = distinct_requests es"
proof -
  have "distinct_step s (normalize_entry e) = distinct_step s e" for s e by (cases s) (simp add: distinct_step_def)
  then show ?thesis by (simp add: distinct_requests_def foldl_map)
qed

lemma select_by_normalize:
  "(\<And>e. field (normalize_entry e) = field e) \<Longrightarrow>
     select_by field (map normalize_entry es) h = map_option (map normalize_entry) (select_by field es h)"
  by (auto simp: select_by_def filter_map comp_def split: option.split)

lemma cmd_scope_normalize [simp]:
  "cmd_scope u c h (map_option (map normalize_entry) sel) = cmd_scope u c h sel"
  by (cases sel) (simp_all add: cmd_scope_def)

lemma e_authority_normalize [simp]: "e_authority (normalize_entry e) = e_authority e"
  by (simp add: normalize_entry_def)

lemma cmd_list_normalize [simp]: "cmd_list (map normalize_entry es) csv = cmd_list es csv"
  by (simp add: cmd_list_def list_line_def list_csv_line_def)

lemma cmd_resources_normalize [simp]: "cmd_resources (map normalize_entry es) = cmd_resources es"
proof -
  have "resources_step m (normalize_entry e) = resources_step m e" for m e by (simp add: resources_step_def)
  then show ?thesis by (simp add: cmd_resources_def foldl_map)
qed

lemma reconcile_batch_normalize [simp]: "reconcile_batch u (map normalize_entry es) b = reconcile_batch u es b"
proof -
  let ?f = "map (\<lambda>kv. (fst kv, map normalize_entry (snd kv)))"
  have put: "map_put k (map normalize_entry vs) (?f m) = ?f (map_put k vs m)"
    for k :: request_id and vs m
    by (induction m) auto
  have find: "map_find (?f m) k = map_option (map normalize_entry) (map_find m k)"
    for k :: request_id and m
    by (induction m) auto
  have push: "map_push k (normalize_entry e) (?f m) = ?f (map_push k e m)" for k :: request_id and e m
    using put [of k "(case map_find m k of None \<Rightarrow> [] | Some xs \<Rightarrow> xs) @ [e]" m]
    by (auto simp: map_push_def find split: option.splits)
  have "foldl (\<lambda>m e. if in_batch b e then map_push (e_request e) e m else m) (?f m) (map normalize_entry es) =
      ?f (foldl (\<lambda>m e. if in_batch b e then map_push (e_request e) e m else m) m es)" for m
    by (induction es arbitrary: m) (auto simp: push in_batch_def)
  from this [of "[]"] have "by_request b (map normalize_entry es) = ?f (by_request b es)"
    by (simp add: by_request_def)
  moreover have "batch_step u ba (fst kv, map normalize_entry (snd kv)) = batch_step u ba kv" for ba kv
    by (simp add: batch_step_def reconcile_normalize)
  ultimately show ?thesis by (simp add: reconcile_batch_def foldl_map)
qed

lemma command_normalize [simp]:
  "cmd_explain u (map normalize_entry es) h = cmd_explain u es h"
  "cmd_request u (map normalize_entry es) h j = cmd_request u es h j"
  "cmd_batch u (map normalize_entry es) h = cmd_batch u es h"
  "cmd_cost u (map normalize_entry es) h p = cmd_cost u es h p"
  "cmd_waste u (map normalize_entry es) h = cmd_waste u es h"
  "cmd_reuse u (map normalize_entry es) h = cmd_reuse u es h"
  "cmd_compare u (map normalize_entry es) h h' = cmd_compare u es h h'"
  by (auto simp: cmd_explain_def cmd_request_def cmd_batch_def cmd_cost_def cmd_waste_def cmd_reuse_def
      cmd_compare_def hd_map split: option.split)
lemma cli_command_copy:
  assumes "lr_entries lr' = map normalize_entry (lr_entries lr)"
    and "list_all (\<lambda>c. cmd \<noteq> c) [''snapshot'', ''save'', ''replay'', ''recover'', ''benchmark'']"
  shows "fst (cli_command en d' cmd path' lr' args) = fst (cli_command en d cmd path lr args) \<and>
    fst (snd (cli_command en d' cmd path' lr' args)) = fst (snd (cli_command en d cmd path lr args))"
  using assms(2)
  by (simp add: cli_command_def Let_def case_prod_beta assms(1) select_by_normalize split: option.split)

lemma cli_command_disk:
  "cmd \<noteq> ''snapshot'' \<Longrightarrow> cmd \<noteq> ''save'' \<Longrightarrow> snd (snd (cli_command en d cmd path lr args)) = d"
  by (simp add: cli_command_def Let_def case_prod_beta split: option.split)

section \<open>Properties\<close>

text \<open>C34: Which arguments crash the command line interface: a command on a ledger dereferences an empty
  optional exactly when the ledger loads and the command is one of those that never look at the
  result of parsing an identity, with an argument that is not 32 hexadecimal digits (for tenant,
  model and device only when the ledger has entries).\<close>

theorem cli_bad_deref:
  "fst (cli_main en d args) = BadDeref \<longleftrightarrow>
     (case args of
        cmd # path # rest \<Rightarrow>
          (case load d path of
             Some lr \<Rightarrow> lr_ok lr \<and> dereferences cmd rest (lr_entries lr)
           | None \<Rightarrow> False)
      | _ \<Rightarrow> False)"
proof (cases args)
  case (Cons cmd tail)
  have plain: "\<not> dereferences cmd rest es"
    if "cmd = ''multiprocess'' \<or> cmd = ''cuda'' \<or> cmd = ''serve'' \<or> cmd = ''worker''" for rest es
    using that by (auto simp: dereferences_def)
  show ?thesis
  proof (cases "cmd = ''multiprocess'' \<or> cmd = ''cuda'' \<or> cmd = ''serve'' \<or> cmd = ''worker''")
    case True
    then have "fst (cli_main en d args) \<noteq> BadDeref" unfolding Cons cli_main_def by auto
    with plain [OF True] show ?thesis by (simp add: Cons split: list.split option.split)
  next
    case False
    then show ?thesis
      by (auto simp: Cons cli_main_def cli_command_bad_deref split: list.split option.split)
  qed
qed (simp add: cli_main_def)

text \<open>A pricing policy file is refused exactly when some assignment has a right-hand side that is not a
  number, whatever its key; so a currency other than the default must look like a number. Each rate
  is the last one assigned.\<close>

theorem load_policy_spec:
  "(case load_policy texts path of
      None \<Rightarrow> \<exists>s. texts path = Some s \<and>
        list_ex (\<lambda>line. case assignment line of None \<Rightarrow> False | Some (k, rhs) \<Rightarrow> stod rhs = None) (getlines s)
    | Some p \<Rightarrow>
        (pp_currency p = ''usd'' \<or> is_some (stod (pp_currency p))) \<and>
        pr_gpu_per_second (pp_rates p) =
          last_rate ''gpu_per_second'' (case texts path of None \<Rightarrow> [] | Some s \<Rightarrow> getlines s) d_zero \<and>
        pr_energy_per_kwh (pp_rates p) =
          last_rate ''energy_per_kwh'' (case texts path of None \<Rightarrow> [] | Some s \<Rightarrow> getlines s) d_zero) \<and>
   load_policy [''p'' \<mapsto> ''currency=eur''] ''p'' = None"
proof (intro conjI)
  let ?ls = "case texts path of None \<Rightarrow> [] | Some s \<Rightarrow> getlines s"
  let ?p = "policy_default\<lparr>pp_currency := ''usd'', pp_generation := 1\<rparr>"
  show "case load_policy texts path of
      None \<Rightarrow> \<exists>s. texts path = Some s \<and>
        list_ex (\<lambda>line. case assignment line of None \<Rightarrow> False | Some (k, rhs) \<Rightarrow> stod rhs = None) (getlines s)
    | Some p \<Rightarrow>
        (pp_currency p = ''usd'' \<or> is_some (stod (pp_currency p))) \<and>
        pr_gpu_per_second (pp_rates p) = last_rate ''gpu_per_second'' ?ls d_zero \<and>
        pr_energy_per_kwh (pp_rates p) = last_rate ''energy_per_kwh'' ?ls d_zero"
  proof (cases "policy_loop ?ls ?p")
    case None
    moreover from this have "list_ex (\<lambda>line. case assignment line of None \<Rightarrow> False | Some (k, rhs) \<Rightarrow> stod rhs = None) ?ls"
      by (simp only: policy_loop_None)
    ultimately show ?thesis by (cases "texts path") (simp_all add: load_policy_def)
  next
    case (Some q)
    from policy_loop_currency [OF this] policy_loop_rates [OF this] Some show ?thesis
      by (simp add: load_policy_def policy_default_def rates_default_def is_some_def)
  qed
  show "load_policy [''p'' \<mapsto> ''currency=eur''] ''p'' = None" by code_simp
qed

text \<open>C22: Copying a ledger keeps every report: after the snapshot command, which succeeds on a device with
  room, replaying the copy prints the same line as replaying the original, and every reporting
  command on the copy ends and prints as on the original. The reporting commands leave the disk as it is.\<close>

theorem cli_snapshot_copies:
  assumes "load d path = Some lr" "lr_ok lr" "list_all encodable (lr_entries lr)"
    and "dv_openable (en_device en) out" "28 + length (frames_of (lr_entries lr)) \<le> dv_room (en_device en) out"
  shows "\<exists>d'. cli_main en d [''snapshot'', path, out] =
      (Exit 0 [], [''saved '' @ show_nat (length (lr_entries lr)) @ '' entries to '' @ out], d') \<and>
    (\<exists>line. cli_main en d' [''replay'', out] = (Exit 0 [], [line], d') \<and>
       cli_main en d [''replay'', path] = (Exit 0 [], [line], d)) \<and>
    (\<forall>cmd args. list_all (\<lambda>c. cmd \<noteq> c) [''snapshot'', ''save'', ''recover'', ''benchmark'', ''replay'', ''multiprocess''] \<longrightarrow>
       cli_main en d' (cmd # out # args) =
         (fst (cli_main en d (cmd # path # args)), fst (snd (cli_main en d (cmd # path # args))), d'))"
proof -
  have valid: "\<forall>e \<in> set (lr_entries lr). content_is_valid e"
    using assms(3) by (auto simp: list_all_iff encodable_valid)
  obtain l where l: "replay_into d None (ledger_new (Id128 0x494C4544474552 0x1)) path = Some (Inr (), l)"
      "ledger_inv l" "snapshot l = lr_entries lr"
    using replay_loaded [OF assms(1,2) valid] by blast
  have dis: "distinct (map e_id (lr_entries lr))"
    using ledger_inv_distinct [OF l(2)] by (simp add: snapshot_def flip: l(3))
  obtain d' r where r: "save_snapshot (en_device en) d (lr_entries lr) (lr_ledger_id lr) out = (Inr (), d')"
      "load d' out = Some r" "lr_ok r" "lr_entries r = map normalize_entry (lr_entries lr)"
    using save_then_load [OF assms(3) dis assms(4,5), of d "lr_ledger_id lr"] by blast
  have valid': "\<forall>e \<in> set (lr_entries r). content_is_valid e" using valid by (auto simp: r(4))
  obtain l' where l': "replay_into d' None (ledger_new (Id128 0x494C4544474552 0x1)) out = Some (Inr (), l')"
      "snapshot l' = lr_entries r"
    using replay_loaded [OF r(2,3) valid'] by blast
  have size: "ledger_size x = length (snapshot x)" for x by (simp add: ledger_size_def snapshot_def)
  have "cli_main en d [''snapshot'', path, out] =
      (Exit 0 [], [''saved '' @ show_nat (length (lr_entries lr)) @ '' entries to '' @ out], d')"
    using assms(1,2) r(1) by (simp add: cli_main_def cli_command_def cmd_snapshot_def Let_def)
  moreover have "\<exists>line. cli_main en d' [''replay'', out] = (Exit 0 [], [line], d') \<and>
       cli_main en d [''replay'', path] = (Exit 0 [], [line], d)"
    using assms(1,2) r l l' by (simp add: cli_main_def cli_command_def cmd_replay_def Let_def size)
  moreover have "cli_main en d' (cmd # out # args) =
      (fst (cli_main en d (cmd # path # args)), fst (snd (cli_main en d (cmd # path # args))), d')"
    if "list_all (\<lambda>c. cmd \<noteq> c) [''snapshot'', ''save'', ''recover'', ''benchmark'', ''replay'', ''multiprocess'']" for cmd args
    using that assms(1,2) r(2,3) cli_command_copy [OF r(4), of cmd en d' out args d path] cli_command_disk [of cmd en d' out r args]
    by (auto simp: cli_main_def prod_eq_iff)
  ultimately show ?thesis by blast
qed

theorem cli_snapshot_copies_witness:
  "\<exists>d'. cli_main \<lparr>en_undefined = (\<lambda>_. 0), en_device = plenty, en_texts = Map.empty, en_system = (\<lambda>_. 0)\<rparr>
      [''a'' \<mapsto> header_of (Id128 0 9)] [''snapshot'', ''a'', ''b''] = (Exit 0 [], [''saved 0 entries to b''], d')"
proof -
  let ?en = "\<lparr>en_undefined = (\<lambda>_. 0), en_device = plenty, en_texts = Map.empty, en_system = (\<lambda>_. 0)\<rparr>"
  have l: "load [''a'' \<mapsto> header_of (Id128 0 9)] ''a'' = load_finish (Id128 0 9) ([], Scanned ())"
    using load_header_of [of "[''a'' \<mapsto> header_of (Id128 0 9)]" "''a''" "Id128 0 9" "[]"] by simp
  then obtain lr where lr: "load [''a'' \<mapsto> header_of (Id128 0 9)] ''a'' = Some lr" "lr_ok lr" "lr_entries lr = []"
    by (simp add: load_finish_def)
  have z: "show_nat 0 = ''0''" by code_simp
  have p: "list_all encodable (lr_entries lr)" "dv_openable (en_device ?en) ''b''"
      "28 + length (frames_of (lr_entries lr)) \<le> dv_room (en_device ?en) ''b''"
    by (simp_all add: lr(3) plenty_def)
  from cli_snapshot_copies [OF lr(1,2) p] obtain d'
    where "cli_main ?en [''a'' \<mapsto> header_of (Id128 0 9)] [''snapshot'', ''a'', ''b''] =
      (Exit 0 [], [''saved '' @ show_nat (length (lr_entries lr)) @ '' entries to '' @ ''b''], d')" by blast
  then show ?thesis by (simp add: lr(3) z)
qed

end
