(* ===== verification/Sockets.thy ===== *)
theory Sockets
  imports Protocol Handles
begin

text \<open>
  The set-up half of \<^verbatim>\<open>protocol.cpp\<close>: who owns which descriptor. The system calls are
  parameters. \<^verbatim>\<open>SOCKET\<close> is an integer, \<^verbatim>\<open>~0\<close> is \<open>-1\<close>.
\<close>

section \<open>System calls\<close>

abbreviation no_socket :: int where "no_socket \<equiv> - 1"

record kernel =
  kn_startup :: bool
  kn_socket :: "sys \<Rightarrow> int"
  kn_accept :: "sys \<Rightarrow> int \<Rightarrow> int"
  kn_pton :: "string \<Rightarrow> u32 option"
  kn_bind :: "sys \<Rightarrow> int \<Rightarrow> u32 \<Rightarrow> u16 \<Rightarrow> bool"
  kn_listen :: "sys \<Rightarrow> int \<Rightarrow> bool"
  kn_connect :: "sys \<Rightarrow> int \<Rightarrow> u32 \<Rightarrow> u16 \<Rightarrow> bool"

section \<open>Operations\<close>

definition network_init :: "kernel \<Rightarrow> string + unit" where
  "network_init k = (if kn_startup k then Inr () else Inl ''WSAStartup failed'')"

text \<open>A \<^verbatim>\<open>FramedSocket\<close> is the descriptor it owns.\<close>

definition fs_ok :: "int \<Rightarrow> bool" where
  "fs_ok sock = (sock \<noteq> no_socket)"

definition fs_close :: "int \<Rightarrow> sys \<Rightarrow> int \<times> sys" where
  "fs_close sock y = (if fs_ok sock then (no_socket, sys_close sock y) else (sock, y))"

definition fs_adopt :: "int \<Rightarrow> int \<Rightarrow> sys \<Rightarrow> int \<times> sys" where
  "fs_adopt sock s y = (s, if fs_ok sock then snd (fs_close sock y) else y)"

definition bind_and_listen :: "kernel \<Rightarrow> string \<Rightarrow> u16 \<Rightarrow> int \<Rightarrow> sys \<Rightarrow> (string + unit) \<times> int \<times> sys" where
  "bind_and_listen k host port listen_sock y =
     (let s = kn_socket k y
      in if s = no_socket then (Inl ''socket failed'', listen_sock, y)
         else let y = sys_opened s y
              in case (if host = [] then Some 0 else kn_pton k host) of
                   None \<Rightarrow> (Inl ''bad host'', listen_sock, sys_close s y)
                 | Some addr \<Rightarrow>
                     if \<not> kn_bind k y s addr port then (Inl ''bind failed'', listen_sock, sys_close s y)
                     else if \<not> kn_listen k y s then (Inl ''listen failed'', listen_sock, sys_close s y)
                     else (Inr (), s, y))"

definition server_accept :: "kernel \<Rightarrow> int \<Rightarrow> sys \<Rightarrow> (string + int) \<times> sys" where
  "server_accept k listen_sock y =
     (let s = kn_accept k y listen_sock
      in if s = no_socket then (Inl ''accept failed'', y) else (Inr s, sys_opened s y))"

definition server_close :: "int \<Rightarrow> sys \<Rightarrow> int \<times> sys" where
  "server_close listen_sock y =
     (if listen_sock \<noteq> no_socket then (no_socket, sys_close listen_sock y) else (listen_sock, y))"

text \<open>The result of \<^verbatim>\<open>inet_pton\<close> is not looked at; the address stays zero when it fails.\<close>

definition connect_tcp :: "kernel \<Rightarrow> string \<Rightarrow> u16 \<Rightarrow> int \<Rightarrow> sys \<Rightarrow> (string + unit) \<times> int \<times> sys" where
  "connect_tcp k host port out y =
     (let s = kn_socket k y
      in if s = no_socket then (Inl ''socket failed'', out, y)
         else let y = sys_opened s y;
                  addr = (case kn_pton k host of None \<Rightarrow> 0 | Some a \<Rightarrow> a)
              in if \<not> kn_connect k y s addr port then (Inl ''connect failed'', out, sys_close s y)
                 else case fs_adopt out s y of (out, y) \<Rightarrow> (Inr (), out, y))"

section \<open>Programs that use them\<close>

text \<open>A server and any number of \<^verbatim>\<open>FramedSocket\<close> objects.\<close>

record world =
  wo_listen :: int
  wo_conns :: "int list"
  wo_sys :: sys

definition world_new :: world where
  "world_new = \<lparr>wo_listen = no_socket, wo_conns = [], wo_sys = \<lparr>sy_open = [], sy_stray = 0\<rparr>\<rparr>"

text \<open>
  The steps of such a program: listening (by a server that does not listen yet), accepting into a new
  connection as \<^verbatim>\<open>accept_loop\<close> does, connecting an object whatever it held, closing and
  destroying objects, closing the server.
\<close>

inductive sock_step :: "kernel \<Rightarrow> world \<Rightarrow> world \<Rightarrow> bool" for k where
  listen: "wo_listen w = no_socket \<Longrightarrow> bind_and_listen k host port (wo_listen w) (wo_sys w) = (r, l, y) \<Longrightarrow>
     sock_step k w (w\<lparr>wo_listen := l, wo_sys := y\<rparr>)"
| accept: "server_accept k (wo_listen w) (wo_sys w) = (Inr s, y) \<Longrightarrow> fs_adopt no_socket s y = (c, y') \<Longrightarrow>
     sock_step k w (w\<lparr>wo_conns := wo_conns w @ [c], wo_sys := y'\<rparr>)"
| accept_failed: "server_accept k (wo_listen w) (wo_sys w) = (Inl e, y) \<Longrightarrow> sock_step k w (w\<lparr>wo_sys := y\<rparr>)"
| create: "sock_step k w (w\<lparr>wo_conns := wo_conns w @ [no_socket]\<rparr>)"
| connect: "wo_conns w = cs @ c # ds \<Longrightarrow> connect_tcp k host port c (wo_sys w) = (r, c', y) \<Longrightarrow>
     sock_step k w (w\<lparr>wo_conns := cs @ c' # ds, wo_sys := y\<rparr>)"
| close: "wo_conns w = cs @ c # ds \<Longrightarrow> fs_close c (wo_sys w) = (c', y) \<Longrightarrow>
     sock_step k w (w\<lparr>wo_conns := cs @ c' # ds, wo_sys := y\<rparr>)"
| destroy: "wo_conns w = cs @ c # ds \<Longrightarrow> fs_close c (wo_sys w) = (c', y) \<Longrightarrow>
     sock_step k w (w\<lparr>wo_conns := cs @ ds, wo_sys := y\<rparr>)"
| close_server: "server_close (wo_listen w) (wo_sys w) = (l, y) \<Longrightarrow> sock_step k w (w\<lparr>wo_listen := l, wo_sys := y\<rparr>)"

inductive_cases sock_stepE: "sock_step k w w'"

text \<open>What the kernel promises: a new descriptor is not one of the open ones.\<close>

definition fresh_descriptors :: "kernel \<Rightarrow> bool" where
  "fresh_descriptors k =
     (\<forall>y. kn_socket k y \<notin> set (sy_open y) \<and> (\<forall>l. kn_accept k y l \<notin> set (sy_open y)))"

text \<open>Every open descriptor has exactly one owner, and nothing else was ever closed.\<close>

abbreviation owned_by :: "int list \<Rightarrow> sys \<Rightarrow> bool" where "owned_by \<equiv> owns no_socket"

definition all_owned :: "world \<Rightarrow> bool" where
  "all_owned w = owned_by (wo_listen w # wo_conns w) (wo_sys w)"

section \<open>Ownership\<close>

lemma fs_close_owned: "fs_close c y = (c', y') \<Longrightarrow> owned_by (c # socks) y \<Longrightarrow> c' = no_socket \<and> owned_by socks y'"
  by (auto simp: fs_close_def fs_ok_def owns_closed split: if_splits)

lemma bind_owned:
  assumes "fresh_descriptors k" "bind_and_listen k host port no_socket y = (r, l, y')" "owned_by socks y"
  shows "owned_by (l # socks) y'"
  using assms
  by (auto simp: bind_and_listen_def Let_def fresh_descriptors_def sys_close_opened owns_opened
      split: if_splits option.splits)

lemma connect_owned:
  assumes "fresh_descriptors k" "connect_tcp k host port c y = (r, c', y')" "owned_by (c # socks) y"
  shows "owned_by (c' # socks) y'"
proof (cases "kn_socket k y = no_socket")
  case True
  with assms show ?thesis by (simp add: connect_tcp_def)
next
  case False
  let ?s = "kn_socket k y"
  have new: "?s \<notin> set (sy_open y)" using assms(1) by (simp add: fresh_descriptors_def)
  have "owned_by (?s # c # socks) (sys_opened ?s y)" by (rule owns_opened [OF assms(3) new False])
  then have "owned_by (c # ?s # socks) (sys_opened ?s y)" by (subst owns_perm) auto
  then have "owned_by (?s # socks) (snd (fs_adopt c ?s (sys_opened ?s y)))"
    using owns_closed by (auto simp: fs_adopt_def fs_close_def fs_ok_def)
  with assms(2,3) False new show ?thesis
    by (auto simp: connect_tcp_def Let_def fs_adopt_def sys_close_opened split: if_splits)
qed

lemma all_owned_at:
  "all_owned w \<Longrightarrow> wo_conns w = cs @ c # ds \<Longrightarrow> owned_by (c # wo_listen w # cs @ ds) (wo_sys w)"
  using owns_move [of no_socket "wo_listen w # cs" c ds] by (simp add: all_owned_def)

lemma all_owned_put:
  "owned_by (c # wo_listen w # cs @ ds) y \<Longrightarrow> all_owned (w\<lparr>wo_conns := cs @ c # ds, wo_sys := y\<rparr>)"
  using owns_move [of no_socket "wo_listen w # cs" c ds] by (simp add: all_owned_def)

lemma sock_step_owned:
  assumes "fresh_descriptors k" "sock_step k w w'" "all_owned w"
  shows "all_owned w'"
  using assms(2,3)
proof cases
  case (listen host port r l y)
  with assms(1,3) show ?thesis
    using bind_owned [of k host port "wo_sys w" r l y "wo_conns w"] by (simp add: all_owned_def)
next
  case (accept s y c y')
  then have s: "s \<noteq> no_socket" "y = sys_opened s (wo_sys w)" "s = kn_accept k (wo_sys w) (wo_listen w)" "c = s" "y' = y"
    by (auto simp: server_accept_def Let_def fs_adopt_def fs_ok_def split: if_splits)
  have "owned_by (s # wo_listen w # wo_conns w) y"
    using owns_opened [of no_socket "wo_listen w # wo_conns w" "wo_sys w" s] assms(1,3) s
    by (simp add: all_owned_def fresh_descriptors_def)
  then have "owned_by (wo_listen w # wo_conns w @ [s]) y" by (subst owns_perm) auto
  with accept(1) s show ?thesis by (simp add: all_owned_def)
next
  case (accept_failed e y)
  with assms(3) show ?thesis by (auto simp: all_owned_def server_accept_def Let_def split: if_splits)
next
  case create
  with assms(3) all_owned_put [of no_socket w "wo_conns w" "[]" "wo_sys w"] show ?thesis by (simp add: all_owned_def)
next
  case (connect cs c ds host port r c' y)
  from connect_owned [OF assms(1) connect(3) all_owned_at [OF assms(3) connect(2)]] show ?thesis
    unfolding connect(1) by (rule all_owned_put)
next
  case (close cs c ds c' y)
  from fs_close_owned [OF close(3) all_owned_at [OF assms(3) close(2)]] show ?thesis
    unfolding close(1) by (intro all_owned_put) simp
next
  case (destroy cs c ds c' y)
  from fs_close_owned [OF destroy(3) all_owned_at [OF assms(3) destroy(2)]] show ?thesis
    using destroy(1) by (simp add: all_owned_def)
next
  case (close_server l y)
  with assms(3) show ?thesis
    by (auto simp: all_owned_def server_close_def owns_closed split: if_splits)
qed

section \<open>Properties\<close>


definition posix_kernel :: kernel where
  "posix_kernel =
     \<lparr>kn_startup = True,
      kn_socket = (\<lambda>y. fold max (sy_open y) 2 + 1), kn_accept = (\<lambda>y l. fold max (sy_open y) 2 + 1),
      kn_pton = (\<lambda>s. Some 0x7F000001), kn_bind = (\<lambda>y s a p. True), kn_listen = (\<lambda>y s. True),
      kn_connect = (\<lambda>y s a p. True)\<rparr>"

lemma posix_fresh: "fresh_descriptors posix_kernel"
  by (simp add: fresh_descriptors_def posix_kernel_def above_fresh)


end
