(* ===== verification/Durations.thy ===== *)
theory Durations
  imports Account Exact
begin

text \<open>
  Values of accounts in closed form: seconds of a duration as an exact fraction, when a value is
  finite and not negative, and the accounts of few attempts. The programs that compute fixed
  accounts rest on these.
\<close>

section \<open>Durations as doubles\<close>

lemma round_mag_cross: "0 < b \<Longrightarrow> 0 < b' \<Longrightarrow> a * b' = a' * b \<Longrightarrow> round_mag a b = round_mag a' b'"
  by (intro antisym round_mag_mono) simp_all

lemma kNsPerSecond_nat: "kNsPerSecond = d_of_nat 1000000000"
proof -
  have "mag_val (dmag kNsPerSecond) = 1000000000 * d_unit" "\<not> dsign kNsPerSecond" "dmag kNsPerSecond < inf_mag"
    by (simp_all add: kNsPerSecond_def dmag_def dsign_def mag_val_def d_unit_def inf_mag_def)
  moreover from this have "round_mag (1000000000 * d_unit) 1 = dmag kNsPerSecond"
    using round_mag_exact1 [of "dmag kNsPerSecond"] by simp
  ultimately show ?thesis
    using dmag_lt [of kNsPerSecond] by (intro double_eqI) (simp_all add: d_of_nat_def)
qed

lemma sec_frac:
  assumes "unat ns < 2 ^ 53"
  shows "sec ns = d_frac (unat ns) 1000000000"
proof -
  let ?n = "unat ns" and ?g = "1000000000 :: nat"
  have n: "\<not> isnan (d_of_nat ?n)" "\<not> isinf (d_of_nat ?n)" "\<not> dsign (d_of_nat ?n)" "mag_val (dmag (d_of_nat ?n)) = ?n * d_unit"
    using d_of_nat_exact [OF assms] isfinite_not by blast+
  have g: "\<not> isnan (d_of_nat ?g)" "\<not> isinf (d_of_nat ?g)" "\<not> dsign (d_of_nat ?g)"
      "mag_val (dmag (d_of_nat ?g)) = ?g * d_unit" "dmag (d_of_nat ?g) \<noteq> 0"
    using d_of_nat_exact [of ?g] isfinite_not dmag_d_of_nat_eq_0 [of ?g] by auto
  have "round_mag (?n * d_unit * d_unit) (?g * d_unit) = round_mag (?n * d_unit) ?g"
    by (rule round_mag_cross) (simp_all add: ac_simps)
  with n g show ?thesis
    by (simp add: sec_def d_div_def d_of_u64_def kNsPerSecond_nat d_frac_def)
qed

lemma d_frac_cancel: "0 < k \<Longrightarrow> 0 < m \<Longrightarrow> d_frac (k * n) (k * m) = d_frac n m"
  by (simp add: d_frac_def round_mag_cross [of "k * m" m "k * n * d_unit" "n * d_unit"])

lemma d_frac_positive:
  assumes "0 < n" "0 < m" "m \<le> d_unit"
  shows "d_lt d_zero (d_frac n m)"
proof -
  have "m \<le> n * d_unit" using assms by (metis dual_order.trans le_square mult_le_mono1 mult.commute mult_1 Suc_leI One_nat_def)
  then have "round_mag 1 1 \<le> round_mag (n * d_unit) m" using assms by (intro round_mag_mono) simp_all
  moreover have "round_mag 1 1 = 1" using round_mag_exact1 [of 1] mag_val_small [of 1] by (simp add: inf_mag_def)
  ultimately have "0 < dmag (d_frac n m)" by (simp add: d_frac_def)
  then show ?thesis
    using round_mag_le [of "n * d_unit" m] by (simp add: d_lt_def dord_def d_frac_def isnan_def)
qed

lemma d_frac_nn: "n < 2 ^ 53 \<Longrightarrow> 0 < m \<Longrightarrow> isfinite (d_frac n m) \<and> d_nn (d_frac n m)"
proof -
  assume n: "n < 2 ^ 53" and "0 < m"
  then have "n * 1 \<le> n * m" by (intro mult_le_mono2) simp
  then have "n * d_unit * 1 \<le> n * d_unit * m" by (metis mult.assoc mult.commute mult_le_mono1)
  with \<open>0 < m\<close> have "round_mag (n * d_unit) m \<le> round_mag (n * d_unit) 1"
    by (intro round_mag_mono) simp_all
  also have "\<dots> < inf_mag" using d_of_nat_exact(1) [OF n] by (simp add: d_of_nat_def isfinite_def)
  finally show ?thesis by (simp add: d_frac_def isfinite_def d_nn_def dord_def isnan_def)
qed

lemma nat_value: "n < 2 ^ 53 \<Longrightarrow> isfinite (d_of_nat n) \<and> d_nn (d_of_nat n) \<and> d_eq (d_floor (d_of_nat n)) (d_of_nat n)"
  using d_of_nat_exact [of n] by (simp add: d_nn_iff d_eq_refl)

lemma zero_value: "isfinite d_zero" "d_eq (d_floor d_zero) d_zero"
  using nat_value [of 0] by simp_all

lemma sec_value: "unat ns < 2 ^ 53 \<Longrightarrow> isfinite (sec ns) \<and> d_nn (sec ns)"
  by (simp add: sec_frac d_frac_nn)

section \<open>Accounts of few attempts\<close>

lemma no_wrap: "unat x + unat y < 2 ^ 64 \<Longrightarrow> x \<le> x + y \<and> x + y - x = y" for x y :: u64
  by (simp add: word_le_nat_alt unat_word_ariths)

lemma winning_single: "winning [(x, a)] = (if successful a then Some x else None)"
  by (simp add: winning_def winner_step_def successful_def Let_def)

lemma useful_single: "useful_attempt [(x, a)] = (if successful a then a else attempt_default)"
  by (simp add: useful_attempt_def winning_single attempt_at_def)

lemmas account_parts = reconcile_request_def timing_of_def counts_of_def work_of_def memory_of_def outcome_of_def
  derived_q_def Let_def

lemma tally_folds:
  "ty_time (tally_of u es) = foldl time_step (ty_time tally_init) es"
  "ty_counts (tally_of u es) = foldl (counts_step u) (ty_counts tally_init) es"
  by (simp_all add: tally_of_def tally_fold)

end
