(* ===== verification/Single.thy ===== *)
theory Single
  imports Exact "HOL-Library.Log_Nat"
begin

text \<open>
  The C++ type \<^verbatim>\<open>float\<close>: IEEE 754 binary32, laid out as theory \<^verbatim>\<open>Double\<close> lays out binary64. A value is its
  bit pattern, every finite value is an integer multiple of \<open>2 ^ -149\<close>, and an operation rounds
  its exact result to the nearest value, ties to even. What is proved is how far a result may be
  from the exact one (\<open>f_round_error\<close>), which is what an accumulation of rounded products needs,
  and that the conversion to \<^verbatim>\<open>double\<close> is exact.
\<close>

section \<open>Bit patterns and values\<close>

datatype single = Flt (flt_bits: u32)

definition f_inf_mag :: nat where
  "f_inf_mag = 255 * 2 ^ 23"

definition fsign :: "single \<Rightarrow> bool" where
  "fsign f = (2 ^ 31 \<le> unat (flt_bits f))"

definition fmag :: "single \<Rightarrow> nat" where
  "fmag f = unat (flt_bits f) mod 2 ^ 31"

definition mk_single :: "bool \<Rightarrow> nat \<Rightarrow> single" where
  "mk_single s m = Flt (word_of_nat (m + (if s then 2 ^ 31 else 0)))"

definition f_isfinite :: "single \<Rightarrow> bool" where
  "f_isfinite f = (fmag f < f_inf_mag)"

definition f_isinf :: "single \<Rightarrow> bool" where
  "f_isinf f = (fmag f = f_inf_mag)"

definition f_isnan :: "single \<Rightarrow> bool" where
  "f_isnan f = (f_inf_mag < fmag f)"

definition f_zero :: single where
  "f_zero = mk_single False 0"

definition f_nan :: single where
  "f_nan = mk_single False (f_inf_mag + 2 ^ 22)"

text \<open>The value of a magnitude in units of \<open>2 ^ -149\<close>, and one in that unit.\<close>

definition f_mag_val :: "nat \<Rightarrow> nat" where
  "f_mag_val n = (if n < 2 ^ 23 then n else (2 ^ 23 + n mod 2 ^ 23) * 2 ^ (n div 2 ^ 23 - 1))"

definition fval :: "single \<Rightarrow> int" where
  "fval f = (if fsign f then - int (f_mag_val (fmag f)) else int (f_mag_val (fmag f)))"

definition f_unit :: nat where
  "f_unit = 2 ^ 149"

section \<open>Rounding\<close>

text \<open>The magnitude nearest to \<open>a / b\<close> units: of the integer part all but 24 bits are dropped.\<close>

definition f_round :: "nat \<Rightarrow> nat \<Rightarrow> nat" where
  "f_round a b =
     (let k = floorlog 2 (a div b) - 24 in min f_inf_mag (k * 2 ^ 23 + round_half_even a (b * 2 ^ k)))"

section \<open>Operations\<close>

definition f_neg :: "single \<Rightarrow> single" where
  "f_neg a = mk_single (\<not> fsign a) (fmag a)"

definition f_add :: "single \<Rightarrow> single \<Rightarrow> single" where
  "f_add a b =
     (if f_isnan a \<or> f_isnan b \<or> f_isinf a \<and> f_isinf b \<and> fsign a \<noteq> fsign b then f_nan
      else if f_isinf a then a
      else if f_isinf b then b
      else if fval a + fval b = 0 then mk_single (fsign a \<and> fsign b) 0
      else mk_single (fval a + fval b < 0) (f_round (nat \<bar>fval a + fval b\<bar>) 1))"

definition f_sub :: "single \<Rightarrow> single \<Rightarrow> single" where
  "f_sub a b = f_add a (f_neg b)"

definition f_mul :: "single \<Rightarrow> single \<Rightarrow> single" where
  "f_mul a b =
     (if f_isnan a \<or> f_isnan b \<or> f_isinf a \<and> fmag b = 0 \<or> fmag a = 0 \<and> f_isinf b then f_nan
      else if f_isinf a \<or> f_isinf b then mk_single (fsign a \<noteq> fsign b) f_inf_mag
      else mk_single (fsign a \<noteq> fsign b) (f_round (f_mag_val (fmag a) * f_mag_val (fmag b)) f_unit))"

text \<open>\<open>a * b + c\<close> rounded once.\<close>

definition f_fma :: "single \<Rightarrow> single \<Rightarrow> single \<Rightarrow> single" where
  "f_fma a b c =
     (if f_isnan a \<or> f_isnan b \<or> f_isnan c \<or> f_isinf a \<and> fmag b = 0 \<or> fmag a = 0 \<and> f_isinf b then f_nan
      else if f_isinf a \<or> f_isinf b then
        (if f_isinf c \<and> fsign c \<noteq> (fsign a \<noteq> fsign b) then f_nan else mk_single (fsign a \<noteq> fsign b) f_inf_mag)
      else if f_isinf c then c
      else let v = fval a * fval b + fval c * int f_unit
           in if v = 0 then mk_single ((fsign a \<noteq> fsign b) \<and> fsign c) 0
              else mk_single (v < 0) (f_round (nat \<bar>v\<bar>) f_unit))"

definition f_fabs :: "single \<Rightarrow> single" where
  "f_fabs a = mk_single False (fmag a)"

definition ford :: "single \<Rightarrow> int" where
  "ford f = (if fsign f then - int (fmag f) else int (fmag f))"

definition f_lt :: "single \<Rightarrow> single \<Rightarrow> bool" where
  "f_lt a b = (\<not> f_isnan a \<and> \<not> f_isnan b \<and> ford a < ford b)"

text \<open>Conversions: from an integer, a literal written as a quotient, and to \<^verbatim>\<open>double\<close> (always exact
  for finite values).\<close>

definition f_of_nat :: "nat \<Rightarrow> single" where
  "f_of_nat n = mk_single False (f_round (n * f_unit) 1)"

definition f_frac :: "nat \<Rightarrow> nat \<Rightarrow> single" where
  "f_frac n m = mk_single False (f_round (n * f_unit) m)"

definition f_to_double :: "single \<Rightarrow> double" where
  "f_to_double f =
     (if f_isnan f then d_nan
      else if f_isinf f then d_inf (fsign f)
      else mk_double (fsign f) (round_mag (f_mag_val (fmag f) * 2 ^ 925) 1))"

text \<open>
  \<^verbatim>\<open>static_cast<std::uint64_t>(x)\<close> drops the fraction; outside the range of the type the C++ standard
  leaves the result undefined, and \<open>unspec\<close> stands for it.
\<close>

definition f_to_u64 :: "(single \<Rightarrow> u64) \<Rightarrow> single \<Rightarrow> u64" where
  "f_to_u64 unspec f =
     (let n = f_mag_val (fmag f) div f_unit
      in if f_isfinite f \<and> (if fsign f then n = 0 else n < 2 ^ 64) then word_of_nat n else unspec f)"

section \<open>Bit patterns\<close>

lemma unat_mk_single: "m < 2 ^ 31 \<Longrightarrow> unat (flt_bits (mk_single s m)) = m + (if s then 2 ^ 31 else 0)"
  unfolding mk_single_def single.sel by (subst unat_of_nat) (simp add: take_bit_nat_eq_self)

lemma fmag_mk [simp]: "m < 2 ^ 31 \<Longrightarrow> fmag (mk_single s m) = m"
  by (simp add: fmag_def unat_mk_single)

lemma fsign_mk [simp]: "m < 2 ^ 31 \<Longrightarrow> fsign (mk_single s m) = s"
  by (simp add: fsign_def unat_mk_single)

lemma fmag_lt: "fmag f < 2 ^ 31"
  by (simp add: fmag_def)

lemma f_round_le: "f_round a b \<le> f_inf_mag"
  by (simp add: f_round_def Let_def)

lemma f_round_lt [simp]: "f_round a b < 2147483648"
  using f_round_le [of a b] by (simp add: f_inf_mag_def)

lemma f_isfinite_not: "f_isfinite a \<Longrightarrow> \<not> f_isinf a \<and> \<not> f_isnan a"
  by (simp add: f_isfinite_def f_isinf_def f_isnan_def)

section \<open>The error of rounding\<close>

lemma round_half_even_error:
  assumes "0 < b"
  shows "\<bar>real (round_half_even a b) - real a / real b\<bar> \<le> 1 / 2"
proof -
  define q r where "q = a div b" and "r = a mod b"
  have a: "a = q * b + r" using div_mult_mod_eq [of a b] by (simp add: q_def r_def)
  have r: "r < b" using assms by (simp add: r_def)
  have e: "real a / real b = real q + real r / real b" using assms by (simp add: a field_simps)
  show ?thesis
  proof (cases "2 * r < b \<or> 2 * r = b \<and> even q")
    case True
    then have "2 * real r \<le> real b" by auto
    then have "real r / real b \<le> 1 / 2" "0 \<le> real r / real b" using assms by (simp_all add: field_simps)
    moreover have "round_half_even a b = q" using True by (simp add: round_half_even_def q_def r_def Let_def)
    ultimately show ?thesis using e by simp
  next
    case False
    then have "real b \<le> 2 * real r" by auto
    then have "1 / 2 \<le> real r / real b" "real r / real b \<le> 1" using assms r by (simp_all add: field_simps)
    moreover have "round_half_even a b = Suc q" using False by (simp add: round_half_even_def q_def r_def Let_def)
    ultimately show ?thesis using e by simp
  qed
qed

lemma f_mag_val_split:
  assumes "m \<le> 2 ^ 24" "k = 0 \<or> 2 ^ 23 \<le> m"
  shows "f_mag_val (k * 2 ^ 23 + m) = m * 2 ^ k"
proof -
  consider "m < 2 ^ 23" | "2 ^ 23 \<le> m" "m < 2 ^ 24" | "m = 2 ^ 24" using assms(1) by linarith
  then show ?thesis
  proof cases
    case 1
    with assms(2) show ?thesis by (simp add: f_mag_val_def)
  next
    case 2
    define l where "l = m - 2 ^ 23"
    have l: "m = 2 ^ 23 + l" "l < 2 ^ 23" using 2 by (simp_all add: l_def)
    then have "k * 2 ^ 23 + m = (k + 1) * 2 ^ 23 + l" by simp
    then have "(k * 2 ^ 23 + m) div 2 ^ 23 = k + 1" "(k * 2 ^ 23 + m) mod 2 ^ 23 = l"
      using l(2) div_mult_self3 [of "2 ^ 23" "k + 1" l] by (simp_all del: One_nat_def)
    with l show ?thesis by (simp add: f_mag_val_def)
  next
    case 3
    then have "k * 2 ^ 23 + m = (k + 2) * 2 ^ 23" by simp
    then have "(k * 2 ^ 23 + m) div 2 ^ 23 = k + 2" "(k * 2 ^ 23 + m) mod 2 ^ 23 = 0"
      by (simp_all only: div_mult_self_is_m mod_mult_self2_is_0) simp_all
    with 3 show ?thesis by (simp add: f_mag_val_def)
  qed
qed

lemma f_round_error:
  assumes b: "0 < b" and a: "a < b * 2 ^ (24 + j)" and j: "j < 252"
  shows "f_round a b < f_inf_mag" "\<bar>real (f_mag_val (f_round a b)) - real a / real b\<bar> \<le> 2 ^ j / 2"
proof -
  define q where "q = a div b"
  define k where "k = floorlog 2 q - 24"
  define m where "m = round_half_even a (b * 2 ^ k)"
  have "q < 2 ^ (24 + j)" using a b by (simp add: q_def div_less_iff_less_mult mult.commute)
  then have kj: "k \<le> j" using floorlog_leI [of q 2 "24 + j"] by (simp add: k_def)
  have up: "q < 2 ^ (24 + k)"
  proof (cases "q = 0")
    case False
    then have "q < 2 ^ floorlog 2 q" using floorlog_bounds [of q 2] by simp
    also have "(2 :: nat) ^ floorlog 2 q \<le> 2 ^ (24 + k)" by (intro power_increasing) (simp_all add: k_def)
    finally show ?thesis .
  qed simp
  have d: "a div (b * 2 ^ k) = q div 2 ^ k" by (simp add: q_def div_mult2_eq)
  have "q div 2 ^ k < 2 ^ 24" using up by (simp add: div_less_iff_less_mult power_add)
  then have m1: "m \<le> 2 ^ 24" using round_half_even_bounds(2) [of a "b * 2 ^ k"] unfolding m_def d by simp
  have m2: "k = 0 \<or> 2 ^ 23 \<le> m"
  proof (cases "k = 0")
    case False
    then have f: "floorlog 2 q - 1 = 23 + k" "q \<noteq> 0" by (auto simp: k_def floorlog_def split: if_splits)
    then have "2 ^ (23 + k) \<le> q" using floorlog_bounds [of q 2] by simp
    then have "2 ^ 23 \<le> q div 2 ^ k" by (simp add: less_eq_div_iff_mult_less_eq power_add)
    then show ?thesis using round_half_even_bounds(1) [of a "b * 2 ^ k"] unfolding m_def d by linarith
  qed simp
  have "k * 2 ^ 23 + m < f_inf_mag" using kj j m1 by (simp add: f_inf_mag_def)
  then have r: "f_round a b = k * 2 ^ 23 + m"
    by (simp add: f_round_def Let_def q_def [symmetric] k_def [symmetric] m_def [symmetric])
  then show "f_round a b < f_inf_mag" using \<open>k * 2 ^ 23 + m < f_inf_mag\<close> by simp
  have e: "\<bar>real m - real a / real (b * 2 ^ k)\<bar> \<le> 1 / 2" unfolding m_def by (rule round_half_even_error) (simp add: b)
  have "real (f_mag_val (f_round a b)) - real a / real b = (real m - real a / real (b * 2 ^ k)) * 2 ^ k"
    using b unfolding r f_mag_val_split [OF m1 m2] by (simp add: field_simps)
  then have "\<bar>real (f_mag_val (f_round a b)) - real a / real b\<bar> \<le> 1 / 2 * 2 ^ k"
    using mult_right_mono [OF e, of "2 ^ k"] by (simp add: abs_mult)
  also have "\<dots> \<le> 2 ^ j / 2" using power_increasing [OF kj, of "2 :: real"] by simp
  finally show "\<bar>real (f_mag_val (f_round a b)) - real a / real b\<bar> \<le> 2 ^ j / 2" .
qed

text \<open>Larger magnitudes are larger values, so comparing patterns compares values.\<close>

lemma f_mag_val_Suc: "f_mag_val n \<le> f_mag_val (Suc n)"
proof -
  define k l where "k = n div 2 ^ 23" and "l = n mod 2 ^ 23"
  have n: "n = k * 2 ^ 23 + l" "l < 2 ^ 23" by (simp_all add: k_def l_def div_mult_mod_eq)
  have *: "f_mag_val n = (2 ^ 23 + l) * 2 ^ (k - 1)" if "0 < k"
    using that n f_mag_val_split [of "2 ^ 23 + l" "k - 1"] by (cases k) (simp_all add: add_ac)
  have **: "f_mag_val (Suc n) = (2 ^ 23 + Suc l) * 2 ^ (k - 1)" if "0 < k"
    using that n f_mag_val_split [of "2 ^ 23 + Suc l" "k - 1"] by (cases k) (simp_all add: add_ac)
  show ?thesis
  proof (cases "k = 0")
    case True
    then have "n < 2 ^ 23" using n by simp
    then show ?thesis using f_mag_val_split [of n 0] f_mag_val_split [of "Suc n" 0] by simp
  qed (use * ** in simp)
qed

lemma f_mag_val_mono: "m \<le> n \<Longrightarrow> f_mag_val m \<le> f_mag_val n"
  by (rule lift_Suc_mono_le [of f_mag_val, OF f_mag_val_Suc])

section \<open>Values as real numbers\<close>

definition frv :: "single \<Rightarrow> real" where
  "frv f = real_of_int (fval f) / 2 ^ 149"

text \<open>A finite value with a clear sign bit.\<close>

definition f_nn :: "single \<Rightarrow> bool" where
  "f_nn f = (f_isfinite f \<and> \<not> fsign f)"

lemma f_nn_frv: "f_nn f \<Longrightarrow> frv f = real (f_mag_val (fmag f)) / 2 ^ 149"
  by (simp add: f_nn_def frv_def fval_def)

lemma f_nn_nonneg: "f_nn f \<Longrightarrow> 0 \<le> frv f"
  by (simp add: f_nn_frv)

lemma f_nn_zero [simp]: "f_nn f_zero" "frv f_zero = 0"
  by (simp_all add: f_nn_def f_isfinite_def f_zero_def frv_def fval_def f_mag_val_def f_inf_mag_def)

lemma f_rounded:
  assumes "0 < b" "real a / real b < 2 ^ (24 + j)" "j < 252"
  shows "f_nn (mk_single False (f_round a b)) \<and>
    \<bar>frv (mk_single False (f_round a b)) - real a / real b / 2 ^ 149\<bar> \<le> 2 ^ j / 2 ^ 150"
proof -
  have "real a < real (b * 2 ^ (24 + j))" using assms(1,2) by (simp add: field_simps)
  then have "a < b * 2 ^ (24 + j)" by (simp only: of_nat_less_iff)
  note r = f_round_error [OF assms(1) this assms(3)]
  have "f_nn (mk_single False (f_round a b))" using r(1) by (simp add: f_nn_def f_isfinite_def)
  moreover have "\<bar>real (f_mag_val (f_round a b)) / 2 ^ 149 - real a / real b / 2 ^ 149\<bar> \<le> 2 ^ j / 2 ^ 150"
  proof -
    have "\<bar>x / u - y / u\<bar> \<le> e / (2 * u)" if "\<bar>x - y\<bar> \<le> e / 2" "0 < u" for x y e u :: real
      using divide_right_mono [OF that(1), of u] that(2) by (simp add: diff_divide_distrib [symmetric])
    from this [OF r(2), of "2 ^ 149"] show ?thesis by (simp only: power_Suc [symmetric]) simp
  qed
  ultimately show ?thesis by (simp add: f_nn_frv)
qed

lemma f_mul_error:
  assumes "f_nn a" "f_nn b" "frv a * frv b < 2 ^ (24 + j) / 2 ^ 149" "j < 252"
  shows "f_nn (f_mul a b) \<and> \<bar>frv (f_mul a b) - frv a * frv b\<bar> \<le> 2 ^ j / 2 ^ 150"
proof -
  let ?p = "f_mag_val (fmag a) * f_mag_val (fmag b)"
  have v: "frv a * frv b = real ?p / real f_unit / 2 ^ 149" using assms(1,2) by (simp add: f_nn_frv f_unit_def)
  have "f_mul a b = mk_single False (f_round ?p f_unit)"
    using assms(1,2) by (auto simp: f_mul_def f_nn_def dest!: f_isfinite_not)
  with f_rounded [of f_unit ?p j] assms(3,4) show ?thesis unfolding v by (simp add: f_unit_def divide_less_cancel)
qed

lemma fval_nn: "f_nn a \<Longrightarrow> fval a = int (f_mag_val (fmag a))"
  by (simp add: f_nn_def fval_def)

lemma f_add_error:
  assumes "f_nn a" "f_nn b" "frv a + frv b < 2 ^ (24 + j) / 2 ^ 149" "j < 252"
  shows "f_nn (f_add a b) \<and> \<bar>frv (f_add a b) - (frv a + frv b)\<bar> \<le> 2 ^ j / 2 ^ 150"
proof -
  let ?p = "f_mag_val (fmag a) + f_mag_val (fmag b)"
  have v: "frv a + frv b = real ?p / real 1 / 2 ^ 149" using assms(1,2) by (simp add: f_nn_frv add_divide_distrib)
  have "f_add a b = mk_single False (f_round ?p 1)" if "0 < ?p"
    using assms(1,2) that by (auto simp: f_add_def fval_nn f_nn_def nat_add_distrib simp flip: of_nat_add dest!: f_isfinite_not)
  moreover have "f_add a b = f_zero" if "?p = 0"
    using assms(1,2) that by (auto simp: f_add_def fval_nn f_nn_def f_zero_def dest!: f_isfinite_not)
  ultimately show ?thesis using f_rounded [of 1 ?p j] assms(3,4) unfolding v
    by (cases "?p = 0") (simp_all add: divide_less_cancel)
qed

lemma f_fma_error:
  assumes "f_nn a" "f_nn b" "f_nn c" "frv a * frv b + frv c < 2 ^ (24 + j) / 2 ^ 149" "j < 252"
  shows "f_nn (f_fma a b c) \<and> \<bar>frv (f_fma a b c) - (frv a * frv b + frv c)\<bar> \<le> 2 ^ j / 2 ^ 150"
proof -
  define p where "p = f_mag_val (fmag a) * f_mag_val (fmag b) + f_mag_val (fmag c) * f_unit"
  have v: "frv a * frv b + frv c = real p / real f_unit / 2 ^ 149"
    using assms(1-3) by (simp add: p_def f_nn_frv f_unit_def add_divide_distrib)
  have i: "fval a * fval b + fval c * int f_unit = int p" using assms(1-3) by (simp add: p_def fval_nn)
  have "\<not> f_isnan a" "\<not> f_isnan b" "\<not> f_isnan c" "\<not> f_isinf a" "\<not> f_isinf b" "\<not> f_isinf c" "\<not> fsign c"
    using assms(1-3) f_isfinite_not by (auto simp: f_nn_def)
  then have "f_fma a b c = (if p = 0 then f_zero else mk_single False (f_round p f_unit))"
    by (simp add: f_fma_def i Let_def f_zero_def)
  then show ?thesis using f_rounded [of f_unit p j] assms(4,5) unfolding v
    by (cases "p = 0") (simp_all add: f_unit_def divide_less_cancel)
qed

lemma f_sub_below:
  assumes "f_nn a" "f_nn b" "f_nn c" "\<bar>frv a - frv b\<bar> < 2 ^ (24 + j) / 2 ^ 149" "j < 252"
    and "\<bar>frv a - frv b\<bar> + 2 ^ j / 2 ^ 150 < frv c"
  shows "f_lt (f_fabs (f_sub a b)) c"
proof -
  define d where "d = nat \<bar>fval a - fval b\<bar>"
  define m where "m = (if d = 0 then 0 else f_round d 1)"
  have v: "\<bar>frv a - frv b\<bar> = real d / real 1 / 2 ^ 149"
    by (simp add: d_def frv_def diff_divide_distrib [symmetric])
  have fin: "\<not> f_isnan a" "\<not> f_isnan b" "\<not> f_isinf a" "\<not> f_isinf b"
    using assms(1,2) f_isfinite_not by (auto simp: f_nn_def)
  have neg: "f_isnan (f_neg b) = f_isnan b" "f_isinf (f_neg b) = f_isinf b" "fval (f_neg b) = - fval b"
    using fmag_lt [of b] by (simp_all add: f_neg_def f_isnan_def f_isinf_def fval_def)
  have "f_sub a b = (if d = 0 then mk_single (fsign a \<and> fsign (f_neg b)) 0 else mk_single (fval a - fval b < 0) (f_round d 1))"
    using fin neg by (auto simp: f_sub_def f_add_def d_def)
  then have sub: "f_fabs (f_sub a b) = mk_single False m" by (auto simp: f_fabs_def m_def)
  have m: "f_nn (mk_single False m) \<and> frv (mk_single False m) < frv c"
  proof (cases "d = 0")
    case True
    moreover have "0 \<le> \<bar>frv a - frv b\<bar> + 2 ^ j / 2 ^ 150" by simp
    then have "0 < frv c" using assms(6) by (rule le_less_trans)
    ultimately show ?thesis by (simp add: m_def f_zero_def [symmetric])
  next
    case False
    let ?r = "mk_single False (f_round d 1)"
    have r: "f_nn ?r \<and> \<bar>frv ?r - real d / real 1 / 2 ^ 149\<bar> \<le> 2 ^ j / 2 ^ 150"
      using assms(4,5) unfolding v by (intro f_rounded) (simp_all add: divide_less_cancel)
    then have "frv ?r < frv c" using assms(6) unfolding v abs_le_iff by linarith
    with r False show ?thesis by (simp add: m_def)
  qed
  moreover have l: "m < 2147483648" by (simp add: m_def)
  ultimately have "real (f_mag_val m) / 2 ^ 149 < real (f_mag_val (fmag c)) / 2 ^ 149"
    using assms(3) f_nn_frv [of "mk_single False m"] f_nn_frv [of c] by simp
  then have "f_mag_val m < f_mag_val (fmag c)" by (simp add: divide_less_cancel)
  then have "m < fmag c" using f_mag_val_mono [of "fmag c" m] by linarith
  with m l assms(3) show ?thesis unfolding sub
    by (auto simp: f_lt_def ford_def f_nn_def dest!: f_isfinite_not)
qed

text \<open>Above the subnormal range a product is within a relative error of \<open>2 ^ -24\<close>.\<close>

lemma f_mul_relative:
  assumes "f_nn a" "f_nn b" "1 / 2 ^ 100 \<le> frv a * frv b" "frv a * frv b < 2 ^ 100"
  shows "f_nn (f_mul a b) \<and> \<bar>frv (f_mul a b) - frv a * frv b\<bar> \<le> frv a * frv b / 2 ^ 24"
proof -
  define v where "v = frv a * frv b * 2 ^ 149"
  define k where "k = nat \<lfloor>v\<rfloor>"
  have v: "2 ^ 49 \<le> v" "v < 2 ^ 249" using assms(3,4) by (simp_all add: v_def)
  then have "0 \<le> v" using order.trans [of 0 "2 ^ 49" v] by simp
  then have "real k = real_of_int \<lfloor>v\<rfloor>" by (simp add: k_def)
  then have k: "real k \<le> v" "v < real k + 1" using of_int_floor_le [of v] real_of_int_floor_add_one_gt [of v] by simp_all
  have "1 \<le> k" "2 ^ 49 \<le> k" using v(1) by (simp_all add: k_def le_nat_floor le_floor_iff)
  with ex_power_ivl1 [of 2 k] obtain n where n: "2 ^ n \<le> k" "k < 2 ^ (n + 1)" by auto
  have "(2 :: nat) ^ 49 < 2 ^ (n + 1)" using \<open>2 ^ 49 \<le> k\<close> n(2) by (rule le_less_trans)
  then have n1: "48 \<le> n" using power_less_imp_less_exp [of "2 :: nat" 49 "n + 1"] by simp
  have "real (2 ^ n) \<le> v" using n(1) k(1) by (metis of_nat_le_iff order.trans)
  then have lo: "2 ^ n \<le> v" by simp
  then have "(2 :: real) ^ n < 2 ^ 249" using v(2) by (rule le_less_trans)
  then have n2: "n < 249" using power_less_imp_less_exp [of "2 :: real" n 249] by simp
  have "real (Suc k) \<le> real (2 ^ (n + 1))" using n(2) by (simp only: of_nat_le_iff Suc_le_eq)
  then have hi: "v < 2 ^ (n + 1)" using k(2) by simp
  obtain j where j: "n = 23 + j" using n1 nat_le_iff_add [of 23 n] by auto
  have "frv a * frv b < 2 ^ (24 + j) / 2 ^ 149" using hi by (simp add: v_def j field_simps)
  from f_mul_error [OF assms(1,2) this] n2 j
  have e: "f_nn (f_mul a b)" "\<bar>frv (f_mul a b) - frv a * frv b\<bar> \<le> 2 ^ j / 2 ^ 150" by simp_all
  have "(2 :: real) ^ j / 2 ^ 150 \<le> frv a * frv b / 2 ^ 24" using lo by (simp add: v_def j power_add field_simps)
  with e show ?thesis by linarith
qed

lemma f_to_u64_value:
  assumes "f_nn f" "frv f < 2 ^ 64"
  shows "unat (f_to_u64 uf f) = nat \<lfloor>frv f\<rfloor>"
proof -
  define n where "n = f_mag_val (fmag f) div f_unit"
  have "frv f = real (f_mag_val (fmag f)) / real f_unit" using assms(1) by (simp add: f_nn_frv f_unit_def)
  then have n: "\<lfloor>frv f\<rfloor> = int n" unfolding n_def by (simp only: floor_divide_of_nat_eq)
  then have "n < 2 ^ 64" using assms(2) by (simp add: floor_less_iff flip: of_nat_less_iff) linarith
  then show ?thesis using assms(1) n
    by (simp add: f_to_u64_def n_def [symmetric] Let_def f_nn_def unat_word_of_nat_small)
qed

section \<open>Conversion to double\<close>

lemma f_mag_val_dyadic: "n < f_inf_mag \<Longrightarrow> \<exists>m e. f_mag_val n = m * 2 ^ e \<and> m < 2 ^ 24 \<and> e < 254"
proof (cases "n < 2 ^ 23")
  case True
  then have "f_mag_val n = n * 2 ^ 0 \<and> n < 2 ^ 24" by (simp add: f_mag_val_def)
  then show ?thesis by (intro exI [of _ n] exI [of _ 0]) simp
next
  case False
  assume "n < f_inf_mag"
  then have "n div 2 ^ 23 < 255" by (simp add: f_inf_mag_def div_less_iff_less_mult)
  moreover have "2 ^ 23 + n mod 2 ^ 23 < (2 ^ 24 :: nat)" using mod_less_divisor [of "2 ^ 23" n] by simp
  ultimately show ?thesis using False
    by (intro exI [of _ "2 ^ 23 + n mod 2 ^ 23"] exI [of _ "n div 2 ^ 23 - 1"]) (simp add: f_mag_val_def)
qed

lemma f_to_double_exact:
  assumes "f_isfinite f"
  shows "isfinite (f_to_double f) \<and> dval (f_to_double f) = fval f * 2 ^ 925"
proof -
  obtain m e where m: "f_mag_val (fmag f) = m * 2 ^ e" "m < 2 ^ 24" "e < 254"
    using f_mag_val_dyadic [of "fmag f"] assms unfolding f_isfinite_def by blast
  then obtain g where g: "g < inf_mag" "mag_val g = m * 2 ^ (e + 925)"
    using dyadic_mag [of m "e + 925"] by auto
  then have "round_mag (f_mag_val (fmag f) * 2 ^ 925) 1 = g"
    using round_mag_exact [of g 1] m(1) by (simp add: power_add mult.assoc)
  then have "f_to_double f = mk_double (fsign f) g"
    using assms f_isfinite_not by (simp add: f_to_double_def)
  moreover have "g < 2 ^ 63" using g(1) inf_mag_lt by (rule less_trans)
  ultimately show ?thesis using g m(1)
    by (simp add: isfinite_def dval_def fval_def power_add)
qed

end
