(* ===== verification/Kernels.thy ===== *)
theory Kernels
  imports Single
begin

text \<open>
  The kernels of \<^verbatim>\<open>inference_cuda_proof.cu\<close>, the reference computed on the host and the comparison of
  the two, in 32-bit floating point.

  A compiler may turn a product followed by an addition into one operation that rounds once (the CUDA
  compiler does so by default, a host compiler may); which operations are contracted is the parameter
  \<open>fm\<close> of each computation. The threads of a launch write to different places and read only what no
  thread writes, so a launch is its threads in some order. With the sizes \<^verbatim>\<open>main\<close> uses every index is
  inside its array (\<open>main_products\<close>, \<open>weights_nn\<close>).
\<close>

section \<open>Kernels\<close>

definition kVec :: nat where "kVec = 4096"
definition kMat :: nat where "kMat = 256"

text \<open>\<^verbatim>\<open>acc += a * b\<close>\<close>

definition mac :: "bool \<Rightarrow> single \<Rightarrow> single \<Rightarrow> single \<Rightarrow> single" where
  "mac fused acc a b = (if fused then f_fma a b acc else f_add acc (f_mul a b))"

definition row_sum :: "(nat \<Rightarrow> bool) \<Rightarrow> single list \<Rightarrow> single list \<Rightarrow> nat \<Rightarrow> nat \<Rightarrow> single" where
  "row_sum fm w x r cols = foldl (\<lambda>acc j. mac (fm j) acc (w ! (r * cols + j)) (x ! j)) f_zero [0..<cols]"

definition prefill_kernel ::
    "(nat \<Rightarrow> nat \<Rightarrow> bool) \<Rightarrow> single list \<Rightarrow> single list \<Rightarrow> nat \<Rightarrow> nat \<Rightarrow> nat \<Rightarrow> nat \<Rightarrow> nat \<Rightarrow> single list \<Rightarrow> single list" where
  "prefill_kernel fm w x rows cols blockDim blockIdx threadIdx out =
     (let r = blockIdx * blockDim + threadIdx
      in if r \<ge> rows then out else out[r := row_sum (fm r) w x r cols])"

text \<open>A launch has at least one thread, so the stride is positive.\<close>

function decode_loop :: "(nat \<Rightarrow> bool) \<Rightarrow> single list \<Rightarrow> single list \<Rightarrow> nat \<Rightarrow> nat \<Rightarrow> nat \<Rightarrow> single \<Rightarrow> single" where
  "decode_loop fm w kv cols stride j acc =
     (if j < cols \<and> 0 < stride then decode_loop fm w kv cols stride (j + stride) (mac (fm j) acc (w ! j) (kv ! j))
      else acc)"
  by pat_completeness auto
termination by (relation "measure (\<lambda>(_, _, _, cols, _, j, _). cols - j)") auto

declare decode_loop.simps [simp del]

definition decode_kernel ::
    "(nat \<Rightarrow> nat \<Rightarrow> bool) \<Rightarrow> single list \<Rightarrow> single list \<Rightarrow> nat \<Rightarrow> nat \<Rightarrow> nat \<Rightarrow> nat \<Rightarrow> nat \<Rightarrow> single list \<Rightarrow> single list" where
  "decode_kernel fm w kv cols gridDim blockDim blockIdx threadIdx out =
     (let r = blockIdx * blockDim + threadIdx;
          acc = decode_loop (fm r) w kv cols (blockDim * gridDim) r f_zero
      in if r = 0 then out[0 := acc] else out)"

text \<open>\<^verbatim>\<open>kernel<<<grid, block>>>(...)\<close>: the pairs of block and thread indices in the order they ran.\<close>

definition launch :: "(nat \<times> nat) list \<Rightarrow> (nat \<Rightarrow> nat \<Rightarrow> single list \<Rightarrow> single list) \<Rightarrow> single list \<Rightarrow> single list" where
  "launch sched body out = fold (\<lambda>(b, t). body b t) sched out"

definition ran_all :: "nat \<Rightarrow> nat \<Rightarrow> (nat \<times> nat) list \<Rightarrow> bool" where
  "ran_all grid block sched = (set sched = {0..<grid} \<times> {0..<block})"

definition host_reference :: "(nat \<Rightarrow> nat \<Rightarrow> bool) \<Rightarrow> single list \<Rightarrow> single list \<Rightarrow> nat \<Rightarrow> nat \<Rightarrow> single" where
  "host_reference fm w x rows cols = foldl (\<lambda>acc r. row_sum (fm r) w x r cols) f_zero [0..<rows]"

section \<open>The computation of the cold request\<close>

definition hw :: "single list" where
  "hw = map (\<lambda>i. f_mul (f_frac 1 10000) (f_of_nat (i mod 17))) [0..<kMat * kVec]"

definition hx :: "single list" where
  "hx = map (\<lambda>i. f_mul (f_frac 5 10000) (f_of_nat i)) [0..<kVec]"

text \<open>The buffer \<^verbatim>\<open>kv\<close> after \<^verbatim>\<open>cudaMemset\<close>.\<close>

definition kv_memory :: "single list" where
  "kv_memory = replicate kVec f_zero"

text \<open>What the device and the compilers choose, and what was in the memory of \<^verbatim>\<open>out\<close>.\<close>

record execution =
  ex_prefill_order :: "(nat \<times> nat) list"
  ex_prefill_fused :: "nat \<Rightarrow> nat \<Rightarrow> bool"
  ex_decode_order :: "(nat \<times> nat) list"
  ex_decode_fused :: "nat \<Rightarrow> nat \<Rightarrow> bool"
  ex_host_fused :: "nat \<Rightarrow> nat \<Rightarrow> bool"
  ex_memory :: "single list"

definition prefill_blocks :: nat where
  "prefill_blocks = (kMat + 127) div 128"

definition outv :: "execution \<Rightarrow> single list" where
  "outv ex =
     launch (ex_decode_order ex) (decode_kernel (ex_decode_fused ex) hw kv_memory kVec 1 128)
      (launch (ex_prefill_order ex) (prefill_kernel (ex_prefill_fused ex) hw hx kMat kVec 128) (ex_memory ex))"

definition cpu_ref :: "execution \<Rightarrow> single" where
  "cpu_ref ex = host_reference (ex_host_fused ex) hw hx kMat kVec"

definition verified :: "execution \<Rightarrow> bool" where
  "verified ex = f_lt (f_fabs (f_sub (outv ex ! (kMat - 1)) (cpu_ref ex))) (f_frac 1 100)"

section \<open>Launches\<close>

lemma launch_writes:
  "length (launch sched (\<lambda>b t out. if P (g b t) then out[g b t := v (g b t)] else out) out) = length out \<and>
   (i < length out \<longrightarrow>
     launch sched (\<lambda>b t out. if P (g b t) then out[g b t := v (g b t)] else out) out ! i =
       (if P i \<and> i \<in> (\<lambda>(b, t). g b t) ` set sched then v i else out ! i))"
proof (induction sched arbitrary: out)
  case Nil
  then show ?case by (simp add: launch_def)
next
  case (Cons bt sched)
  obtain b t where bt: "bt = (b, t)" by (cases bt)
  let ?out = "if P (g b t) then out[g b t := v (g b t)] else out"
  have "length ?out = length out" "i < length out \<Longrightarrow> ?out ! i = (if P i \<and> i = g b t then v i else out ! i)"
    by (simp, cases "i = g b t") auto
  with Cons [of ?out] show ?case by (auto simp: launch_def bt)
qed

lemma prefill_launch:
  assumes "ran_all grid block sched" "rows \<le> grid * block" "length out = rows"
  shows "launch sched (prefill_kernel fm w x rows cols block) out = map (\<lambda>r. row_sum (fm r) w x r cols) [0..<rows]"
proof (rule nth_equalityI)
  let ?g = "\<lambda>b t. b * block + t"
  let ?k = "\<lambda>b t out. if ?g b t < rows then out[?g b t := row_sum (fm (?g b t)) w x (?g b t) cols] else out"
  have k: "prefill_kernel fm w x rows cols block = ?k" by (intro ext) (auto simp: prefill_kernel_def Let_def)
  note w = launch_writes [of sched "\<lambda>r. r < rows" ?g "\<lambda>r. row_sum (fm r) w x r cols" out]
  show "length (launch sched (prefill_kernel fm w x rows cols block) out) = length (map (\<lambda>r. row_sum (fm r) w x r cols) [0..<rows])"
    unfolding k using w assms(3) by simp
  fix i
  assume "i < length (launch sched (prefill_kernel fm w x rows cols block) out)"
  then have i: "i < rows" unfolding k using w assms(3) by simp
  then have "0 < block" using assms(2) by (cases block) auto
  then have "i mod block < block" "i div block < grid" "i div block * block + i mod block = i"
    using i assms(2) by (auto simp: div_less_iff_less_mult)
  then have "i \<in> (\<lambda>(b, t). ?g b t) ` set sched"
    using assms(1) by (auto simp: ran_all_def intro!: image_eqI [of _ _ "(i div block, i mod block)"])
  then show "launch sched (prefill_kernel fm w x rows cols block) out ! i = map (\<lambda>r. row_sum (fm r) w x r cols) [0..<rows] ! i"
    unfolding k using w i assms(3) by simp
qed

lemma decode_launch:
  assumes "ran_all grid block sched" "0 < grid" "0 < block" "out \<noteq> []"
  shows "launch sched (decode_kernel fm w kv cols grid block) out =
    out[0 := decode_loop (fm 0) w kv cols (block * grid) 0 f_zero]"
proof (rule nth_equalityI)
  let ?g = "\<lambda>b t. b * block + t"
  let ?v = "\<lambda>r. decode_loop (fm r) w kv cols (block * grid) r f_zero"
  let ?k = "\<lambda>b t out. if ?g b t = 0 then out[?g b t := ?v (?g b t)] else out"
  have k: "decode_kernel fm w kv cols grid block = ?k" by (intro ext) (auto simp: decode_kernel_def Let_def)
  note w = launch_writes [of sched "\<lambda>r. r = 0" ?g ?v out]
  have "(0, 0) \<in> set sched" using assms(1-3) by (auto simp: ran_all_def)
  then have z: "0 \<in> (\<lambda>(b, t). ?g b t) ` set sched" by (auto intro!: image_eqI [of _ _ "(0, 0)"])
  show "length (launch sched (decode_kernel fm w kv cols grid block) out) = length (out[0 := ?v 0])"
    unfolding k using w by simp
  fix i
  assume "i < length (launch sched (decode_kernel fm w kv cols grid block) out)"
  then have i: "i < length out" unfolding k using w by simp
  have "launch sched ?k out ! i = (if i = 0 \<and> i \<in> (\<lambda>(b, t). ?g b t) ` set sched then ?v i else out ! i)"
    using w i by blast
  also have "\<dots> = out[0 := ?v 0] ! i" using z i by (cases "i = 0") auto
  finally show "launch sched (decode_kernel fm w kv cols grid block) out ! i = out[0 := ?v 0] ! i" unfolding k .
qed

lemma host_reference_last: "host_reference fm w x (Suc n) cols = row_sum (fm n) w x n cols"
  by (simp add: host_reference_def)

section \<open>Accuracy\<close>

lemma mac_error:
  assumes "f_nn acc" "f_nn a" "f_nn b" "frv a * frv b < 1 / 257" "frv acc \<le> 16 - 1 / 256"
  shows "f_nn (mac fused acc a b) \<and> \<bar>frv (mac fused acc a b) - (frv acc + frv a * frv b)\<bar> \<le> 1 / 1048576"
proof (cases fused)
  case True
  have "frv a * frv b + frv acc < 2 ^ (24 + 129) / 2 ^ 149" using assms(4,5) by simp
  from f_fma_error [OF assms(2,3,1) this] True show ?thesis by (simp add: mac_def add.commute)
next
  case False
  have "frv a * frv b < 2 ^ (24 + 117) / 2 ^ 149" using assms(4) by simp
  from f_mul_error [OF assms(2,3) this]
  have m: "f_nn (f_mul a b)" "\<bar>frv (f_mul a b) - frv a * frv b\<bar> \<le> 1 / 8589934592" by simp_all
  have "frv acc + frv (f_mul a b) < 16" using assms(4,5) m(2) by linarith
  then have "frv acc + frv (f_mul a b) < 2 ^ (24 + 129) / 2 ^ 149" by simp
  from f_add_error [OF assms(1) m(1) this]
  have "f_nn (f_add acc (f_mul a b))" "\<bar>frv (f_add acc (f_mul a b)) - (frv acc + frv (f_mul a b))\<bar> \<le> 1 / 2097152" by simp_all
  moreover from this(2) m(2) have "\<bar>frv (f_add acc (f_mul a b)) - (frv acc + frv a * frv b)\<bar> \<le> 1 / 1048576" by linarith
  ultimately show ?thesis using False by (simp add: mac_def)
qed

text \<open>The exact sum of the products, and how far a computed one is from it.\<close>

definition exact_sum :: "single list \<Rightarrow> single list \<Rightarrow> nat \<Rightarrow> nat \<Rightarrow> nat \<Rightarrow> real" where
  "exact_sum w x r cols n = (\<Sum>j<n. frv (w ! (r * cols + j)) * frv (x ! j))"

definition small_products :: "single list \<Rightarrow> single list \<Rightarrow> nat \<Rightarrow> nat \<Rightarrow> bool" where
  "small_products w x r cols =
     (\<forall>j<cols. f_nn (w ! (r * cols + j)) \<and> f_nn (x ! j) \<and> frv (w ! (r * cols + j)) * frv (x ! j) < 1 / 257)"

lemma partial_sum_error:
  assumes "small_products w x r cols" "n \<le> cols" "n \<le> 4096"
  shows "let s = foldl (\<lambda>acc j. mac (fm j) acc (w ! (r * cols + j)) (x ! j)) f_zero [0..<n]
    in f_nn s \<and> frv s \<le> real n / 256 \<and> \<bar>frv s - exact_sum w x r cols n\<bar> \<le> real n / 1048576"
  using assms(2,3)
proof (induction n)
  case 0
  then show ?case by (simp add: exact_sum_def)
next
  case (Suc n)
  define s where "s = foldl (\<lambda>acc j. mac (fm j) acc (w ! (r * cols + j)) (x ! j)) f_zero [0..<n]"
  define a b where "a = w ! (r * cols + n)" and "b = x ! n"
  have IH: "f_nn s" "frv s \<le> real n / 256" "\<bar>frv s - exact_sum w x r cols n\<bar> \<le> real n / 1048576"
    using Suc by (simp_all add: s_def Let_def)
  have ab: "f_nn a" "f_nn b" "frv a * frv b < 1 / 257" using assms(1) Suc.prems by (auto simp: small_products_def a_def b_def)
  have "real n \<le> 4095" using Suc.prems by simp
  then have "frv s \<le> 16 - 1 / 256" using IH(2) by simp
  from mac_error [OF IH(1) ab this, of "fm n"]
  have m: "f_nn (mac (fm n) s a b)" "\<bar>frv (mac (fm n) s a b) - (frv s + frv a * frv b)\<bar> \<le> 1 / 1048576" by simp_all
  have "exact_sum w x r cols (Suc n) = exact_sum w x r cols n + frv a * frv b" by (simp add: exact_sum_def a_def b_def)
  moreover have "real (Suc n) / 256 = real n / 256 + 1 / 256" "real (Suc n) / 1048576 = real n / 1048576 + 1 / 1048576"
    by (simp_all add: add_divide_distrib)
  ultimately have "frv (mac (fm n) s a b) \<le> real (Suc n) / 256"
    "\<bar>frv (mac (fm n) s a b) - exact_sum w x r cols (Suc n)\<bar> \<le> real (Suc n) / 1048576"
    using m(2) ab(3) IH(2,3) by linarith+
  with m(1) show ?case by (simp add: s_def [symmetric] a_def [symmetric] b_def [symmetric] Let_def)
qed

lemma row_sum_error:
  assumes "small_products w x r cols" "cols \<le> 4096"
  shows "f_nn (row_sum fm w x r cols) \<and> \<bar>frv (row_sum fm w x r cols) - exact_sum w x r cols cols\<bar> \<le> real cols / 1048576"
  using partial_sum_error [OF assms(1) order.refl assms(2), of fm] by (simp add: row_sum_def Let_def)

section \<open>The data of the check\<close>

lemma scaled_literal:
  assumes "n < 4096" "m \<le> 5" "real m / 10000 * real n \<le> c" "c \<le> 3"
  shows "f_nn (f_mul (f_frac m 10000) (f_of_nat n)) \<and> frv (f_mul (f_frac m 10000) (f_of_nat n)) \<le> c + 1 / 100000"
proof -
  have c: "f_nn (f_frac m 10000) \<and> \<bar>frv (f_frac m 10000) - real (m * f_unit) / real 10000 / 2 ^ 149\<bar> \<le> 2 ^ 120 / 2 ^ 150"
    unfolding f_frac_def using assms(2) by (intro f_rounded) (simp_all add: f_unit_def)
  have i: "f_nn (f_of_nat n) \<and> \<bar>frv (f_of_nat n) - real (n * f_unit) / real 1 / 2 ^ 149\<bar> \<le> 2 ^ 140 / 2 ^ 150"
    unfolding f_of_nat_def using assms(1) by (intro f_rounded) (simp_all add: f_unit_def)
  have ce: "\<bar>frv (f_frac m 10000) - real m / 10000\<bar> \<le> 1 / 1073741824" using c by (simp add: f_unit_def)
  have ie: "\<bar>frv (f_of_nat n) - real n\<bar> \<le> 1 / 1024" using i by (simp add: f_unit_def)
  have "frv (f_frac m 10000) * frv (f_of_nat n) \<le> (real m / 10000 + 1 / 1073741824) * (real n + 1 / 1024)"
    using f_nn_nonneg [OF conjunct1 [OF c]] f_nn_nonneg [OF conjunct1 [OF i]] ce ie by (intro mult_mono) linarith+
  also have "\<dots> = real m / 10000 * real n + real n / 1073741824 + real m / 10240000 + 1 / 1099511627776"
    by (simp add: algebra_simps add_divide_distrib)
  also have "\<dots> \<le> c + 9 / 1000000"
  proof -
    have "real n \<le> 4096" "real m \<le> 5" using assms(1,2) by simp_all
    with assms(3) show ?thesis by linarith
  qed
  finally have p: "frv (f_frac m 10000) * frv (f_of_nat n) \<le> c + 9 / 1000000" .
  then have "frv (f_frac m 10000) * frv (f_of_nat n) < 2 ^ (24 + 127) / 2 ^ 149" using assms(4) by simp
  from f_mul_error [OF conjunct1 [OF c] conjunct1 [OF i] this]
  have "f_nn (f_mul (f_frac m 10000) (f_of_nat n))"
    "\<bar>frv (f_mul (f_frac m 10000) (f_of_nat n)) - frv (f_frac m 10000) * frv (f_of_nat n)\<bar> \<le> 1 / 8388608" by simp_all
  with p show ?thesis by linarith
qed

lemma main_products: "r < kMat \<Longrightarrow> small_products hw hx r kVec"
  unfolding small_products_def
proof (intro allI impI)
  fix j
  assume r: "r < kMat" and j: "j < kVec"
  let ?i = "r * kVec + j"
  have "r * kVec + j < kMat * kVec" using r j mult_le_mono1 [of "Suc r" kMat kVec] by simp
  then have w: "hw ! ?i = f_mul (f_frac 1 10000) (f_of_nat (?i mod 17))" by (simp add: hw_def)
  have x: "hx ! j = f_mul (f_frac 5 10000) (f_of_nat j)" using j by (simp add: hx_def)
  have i: "?i mod 17 \<le> 16" using mod_less_divisor [of 17 ?i] by linarith
  have "f_nn (hw ! ?i) \<and> frv (hw ! ?i) \<le> 16 / 10000 + 1 / 100000"
    unfolding w by (rule scaled_literal) (use i in simp_all)
  moreover have "f_nn (hx ! j) \<and> frv (hx ! j) \<le> 2048 / 1000 + 1 / 100000"
    unfolding x by (rule scaled_literal) (use j in \<open>simp_all add: kVec_def\<close>)
  ultimately show "f_nn (hw ! ?i) \<and> f_nn (hx ! j) \<and> frv (hw ! ?i) * frv (hx ! j) < 1 / 257"
    using mult_mono [of "frv (hw ! ?i)" "16 / 10000 + 1 / 100000" "frv (hx ! j)" "2048 / 1000 + 1 / 100000"] f_nn_nonneg by auto
qed

text \<open>The decoding kernel multiplies with a cleared buffer, so it adds up zeros.\<close>

lemma mac_zero: "f_nn a \<Longrightarrow> mac fused f_zero a f_zero = f_zero"
proof -
  assume "f_nn a"
  then have "\<not> f_isnan a" "\<not> f_isinf a" "\<not> fsign a" using f_isfinite_not by (auto simp: f_nn_def)
  moreover have "\<not> f_isnan f_zero" "\<not> f_isinf f_zero" "\<not> fsign f_zero" "fmag f_zero = 0" "fval f_zero = 0"
    using f_isfinite_not f_nn_zero(1) by (auto simp: f_nn_def f_zero_def fval_def f_mag_val_def)
  moreover have "f_round 0 f_unit = 0" by (simp add: f_round_def floorlog_def round_half_even_def f_inf_mag_def f_unit_def)
  ultimately show ?thesis by (simp add: mac_def f_fma_def f_mul_def f_add_def f_zero_def f_mag_val_def)
qed

lemma decode_loop_zero:
  assumes "\<forall>j<cols. f_nn (w ! j)"
  shows "decode_loop fm w (replicate cols f_zero) cols stride j f_zero = f_zero"
proof (induction "cols - j" arbitrary: j rule: less_induct)
  case less
  show ?case
  proof (cases "j < cols \<and> 0 < stride")
    case True
    then have "decode_loop fm w (replicate cols f_zero) cols stride (j + stride) f_zero = f_zero" by (intro less) linarith
    with True assms show ?thesis by (subst decode_loop.simps) (simp add: mac_zero)
  qed (subst decode_loop.simps, auto)
qed

lemma weights_nn: "j < kMat * kVec \<Longrightarrow> f_nn (hw ! j)"
proof -
  assume j: "j < kMat * kVec"
  have "0 < kVec" by (simp add: kVec_def)
  then have "j div kVec < kMat" "j mod kVec < kVec" using j by (simp_all add: less_mult_imp_div_less)
  with main_products [of "j div kVec"] show ?thesis by (auto simp: small_products_def dest: spec [of _ "j mod kVec"])
qed

section \<open>The comparison\<close>

text \<open>All threads ran, on a buffer of the size that was allocated.\<close>

definition executed :: "execution \<Rightarrow> bool" where
  "executed ex =
     (ran_all prefill_blocks 128 (ex_prefill_order ex) \<and> ran_all 1 128 (ex_decode_order ex) \<and> length (ex_memory ex) = kMat)"

lemma outv_rows:
  assumes "executed ex"
  shows "outv ex = (map (\<lambda>r. row_sum (ex_prefill_fused ex r) hw hx r kVec) [0..<kMat])[0 := f_zero]"
proof -
  have "decode_loop (ex_decode_fused ex 0) hw kv_memory kVec 128 0 f_zero = f_zero"
    unfolding kv_memory_def by (rule decode_loop_zero) (simp add: weights_nn kMat_def)
  then show ?thesis
    using assms prefill_launch [of prefill_blocks 128 "ex_prefill_order ex" kMat "ex_memory ex"]
      decode_launch [of 1 128 "ex_decode_order ex"]
    by (simp add: executed_def outv_def prefill_blocks_def kMat_def)
qed

lemma outv_last: "executed ex \<Longrightarrow> outv ex ! (kMat - 1) = row_sum (ex_prefill_fused ex (kMat - 1)) hw hx (kMat - 1) kVec"
  by (simp add: outv_rows kMat_def)

lemma cpu_ref_row: "cpu_ref ex = row_sum (ex_host_fused ex (kMat - 1)) hw hx (kMat - 1) kVec"
  using host_reference_last [of "ex_host_fused ex" hw hx "kMat - 1" kVec] by (simp add: cpu_ref_def kMat_def)

lemma sums_agree: "f_lt (f_fabs (f_sub (row_sum fm hw hx (kMat - 1) kVec) (row_sum fm' hw hx (kMat - 1) kVec))) (f_frac 1 100)"
proof -
  let ?r = "kMat - 1"
  let ?a = "row_sum fm hw hx ?r kVec" and ?b = "row_sum fm' hw hx ?r kVec"
  define e where "e = exact_sum hw hx ?r kVec kVec"
  have err: "f_nn (row_sum f hw hx ?r kVec)" "\<bar>frv (row_sum f hw hx ?r kVec) - e\<bar> \<le> 1 / 256" for f
    using row_sum_error [OF main_products [of ?r], of f] unfolding e_def by (simp_all add: kMat_def kVec_def)
  have d: "\<bar>frv ?a - frv ?b\<bar> \<le> 1 / 128" using err(2) [of fm] err(2) [of fm'] by linarith
  have c: "f_nn (f_frac 1 100)" "\<bar>frv (f_frac 1 100) - 1 / 100\<bar> \<le> 1 / 1073741824"
    using f_rounded [of 100 "1 * f_unit" 120] by (simp_all add: f_frac_def f_unit_def)
  show ?thesis
  proof (rule f_sub_below [OF err(1) err(1) c(1), of _ _ 120])
    show "\<bar>frv ?a - frv ?b\<bar> < 2 ^ (24 + 120) / 2 ^ 149" using d by simp
    have "\<bar>frv ?a - frv ?b\<bar> + 1 / 1073741824 < frv (f_frac 1 100)" using d c(2) by linarith
    then show "\<bar>frv ?a - frv ?b\<bar> + 2 ^ 120 / 2 ^ 150 < frv (f_frac 1 100)" by simp
  qed simp
qed

lemma verified_always: "executed ex \<Longrightarrow> verified ex"
  unfolding verified_def outv_last cpu_ref_row by (rule sums_agree)

section \<open>Properties\<close>

text \<open>C39: The check of the GPU's result against the host's cannot fail on a device and compilers that compute
  in IEEE single precision, whatever they contract and in whichever order the threads run: after
  both launches the output holds every row's product, but for the first, which the decoding kernel
  has overwritten with zero; the last one and the reference are each within 4096 roundings of the
  exact sum, and so they differ by less than the tolerance 0.01. With the same contractions they
  are the same number.\<close>

theorem reference_agrees:
  assumes "executed ex"
  shows "verified ex \<and>
    outv ex = (map (\<lambda>r. row_sum (ex_prefill_fused ex r) hw hx r kVec) [0..<kMat])[0 := f_zero] \<and>
    (ex_prefill_fused ex = ex_host_fused ex \<longrightarrow> outv ex ! (kMat - 1) = cpu_ref ex) \<and>
    (\<forall>fm. \<bar>frv (row_sum fm hw hx (kMat - 1) kVec) - exact_sum hw hx (kMat - 1) kVec kVec\<bar> \<le> 1 / 256)"
  using verified_always [OF assms] outv_rows [OF assms] outv_last [OF assms] cpu_ref_row [of ex]
    row_sum_error [OF main_products [of "kMat - 1"]]
  by (simp add: kMat_def kVec_def)

theorem reference_agrees_witness:
  "verified \<lparr>ex_prefill_order = [(b, t). b \<leftarrow> [0..<2], t \<leftarrow> [0..<128]], ex_prefill_fused = (\<lambda>r j. True),
     ex_decode_order = [(0, t). t \<leftarrow> rev [0..<128]], ex_decode_fused = (\<lambda>r j. True),
     ex_host_fused = (\<lambda>r j. False), ex_memory = replicate 256 f_nan\<rparr>"
  by (rule reference_agrees [THEN conjunct1]) (auto simp: executed_def ran_all_def prefill_blocks_def kMat_def)

end
