(* ===== verification/Cuda.thy ===== *)
theory Cuda
  imports Restart Durations Kernels
begin

text \<open>
  The program of \<^verbatim>\<open>inference_cuda_proof.cu\<close> around its kernels: the entries it records of a cold, a
  warm and a retried request, the accounts it rebuilds from them, its verdict, and \<^verbatim>\<open>main\<close> with every
  call of the CUDA runtime. What the device does is the parameter \<open>gpu\<close>: which calls fail, the elapsed
  times, the free memory before and after, and how the kernels ran.
\<close>

section \<open>The entries\<close>

definition cuda_ledger :: ledger_id where
  "cuda_ledger = Id128 0x43554441 0x1"

definition make_entry ::
    "nat \<Rightarrow> request_id \<Rightarrow> attempt_id \<Rightarrow> request_generation \<Rightarrow> attempt_generation \<Rightarrow> event_kind \<Rightarrow>
     resource_kind \<Rightarrow> double \<Rightarrow> unit_kind \<Rightarrow> provenance \<Rightarrow> bool \<Rightarrow> u64 \<Rightarrow> u64 \<Rightarrow> dispatch_id \<Rightarrow> ledger_entry" where
  "make_entry seq req attempt rg atg kind rk val unit prov has_end s e disp =
     \<lparr>e_id = Id128 (0xC000 + word_of_nat seq) 0x1,
      e_ledger = cuda_ledger,
      e_tenant = Id128 0x99 0x1,
      e_workload = Id128 0x88 0x1,
      e_request = req,
      e_model = Id128 0x77 0x1,
      e_model_revision = Id128 0x77 0x2,
      e_has_adapter = False,
      e_adapter = id_default,
      e_attempt = attempt,
      e_dispatch = disp,
      e_worker = Id128 0xAA 0x1,
      e_node = Id128 0x6002 0x1,
      e_device = Id128 0x6001 0x1,
      e_event_kind = kind,
      e_resource_kind = rk,
      e_quantity = \<lparr>q_value = val, q_unit = unit, q_provenance = prov\<rparr>,
      e_start_ts_ns = s,
      e_end_ts_ns = e,
      e_has_end = has_end,
      e_source = \<lparr>s_worker = Id128 0xAA 0x1, s_boot = Id128 0xB007 0x1, s_accounting_generation = Generation 1\<rparr>,
      e_authority =
        \<lparr>a_epoch = Generation 1, a_worker_boot = Id128 0xB007 0x1, a_request_generation = rg,
         a_accounting_generation = Generation 1, a_attempt = attempt, a_attempt_generation = atg, a_dispatch = disp\<rparr>,
      e_has_accounting_policy = False,
      e_accounting_policy = id_default,
      e_has_pricing_policy = False,
      e_pricing_policy = id_default,
      e_metadata = []\<rparr>"

abbreviation cuRA :: request_id where "cuRA \<equiv> Id128 0x1001 0x1"
abbreviation cuAA :: attempt_id where "cuAA \<equiv> Id128 0x2001 0x1"
abbreviation cuDA :: dispatch_id where "cuDA \<equiv> Id128 0x3001 0x1"
abbreviation cuRB :: request_id where "cuRB \<equiv> Id128 0x1002 0x1"
abbreviation cuAB :: attempt_id where "cuAB \<equiv> Id128 0x2002 0x1"
abbreviation cuDB :: dispatch_id where "cuDB \<equiv> Id128 0x3002 0x1"
abbreviation cuRC :: request_id where "cuRC \<equiv> Id128 0x1003 0x1"
abbreviation cuAC1 :: attempt_id where "cuAC1 \<equiv> Id128 0x3001 0x1"
abbreviation cuAC2 :: attempt_id where "cuAC2 \<equiv> Id128 0x3002 0x1"
abbreviation cuDC :: dispatch_id where "cuDC \<equiv> Id128 0x3003 0x1"

definition wBytes :: nat where "wBytes = kMat * kVec * 4"
definition kvBytes :: nat where "kvBytes = kVec * 4"
definition xBytes :: nat where "xBytes = kVec * 4"
definition outBytes :: nat where "outBytes = kMat * 4"

text \<open>
  The cold request: \<open>p\<close> and \<open>d\<close> are the measured nanoseconds of the two kernels; the clock \<open>now\<close> starts
  at a million and advances by what \<^verbatim>\<open>tick\<close> is given.
\<close>

definition cold_entries :: "u64 \<Rightarrow> u64 \<Rightarrow> ledger_entry list" where
  "cold_entries p d =
     (let t0 = 1000000; t1 = t0 + 100; t2 = t1 + p; t3 = t2 + d;
          e = (\<lambda>seq. make_entry seq cuRA cuAA (Generation 1) (Generation 1))
      in [e 1 RequestStart RGeneric d_zero Count Measured False t0 0 cuDA,
          e 2 Reserve RMemory (d_of_nat 1) Count Measured False t0 0 cuDA,
          e 3 TransferH2D RTransfer (d_of_nat xBytes) Bytes Measured False t1 0 cuDA,
          e 4 Prefill RCompute (sec p) Seconds Measured True (t2 - p) t2 cuDA,
          e 5 Decode RCompute (sec d) Seconds Measured True (t3 - d) t3 cuDA,
          e 6 Decode RCompute (d_of_nat 32) Count Measured True (t3 - d) t3 cuDA,
          e 7 ModelResidency RResidency (d_of_nat wBytes) Bytes Measured True (t3 - p - d) t3 cuDA,
          e 8 TransferD2H RTransfer (d_of_nat outBytes) Bytes Measured False t3 0 cuDA,
          e 9 Release RMemory (d_of_nat 1) Count Measured False t3 0 cuDA,
          e 10 RequestEnd RGeneric d_zero Count Measured False t3 0 cuDA])"

definition warm_entries :: "u64 \<Rightarrow> ledger_entry list" where
  "warm_entries t3 =
     (let t4 = t3 + 100000;
          e = (\<lambda>seq. make_entry seq cuRB cuAB (Generation 1) (Generation 1))
      in [e 11 RequestStart RGeneric d_zero Count Measured False t3 0 cuDB,
          e 12 KvReuse RKv (d_of_nat kvBytes) Bytes Measured False t3 0 cuDB,
          e 13 ReuseAvoided RCompute (d_frac 8 100) Seconds Estimated False t3 0 cuDB,
          e 14 KernelHit RCache (d_of_nat 1) Count Measured False t3 0 cuDB,
          e 15 Decode RCompute (d_of_nat 32) Count Measured True t3 t4 cuDB,
          e 16 RequestEnd RGeneric d_zero Count Measured False t4 0 cuDB])"

definition retry_entries :: "u64 \<Rightarrow> ledger_entry list" where
  "retry_entries t4 =
     (let t5 = t4 + 50000000; t6 = t5 + 50000000; t7 = t6 + 40000;
          e = (\<lambda>seq a g. make_entry seq cuRC a (Generation 1) g)
      in [e 17 cuAC1 (Generation 1) RequestStart RGeneric d_zero Count Measured False t4 0 cuDC,
          e 18 cuAC1 (Generation 1) Prefill RCompute (d_frac 5 100) Seconds Measured True t4 t5 cuDC,
          e 19 cuAC1 (Generation 1) Failure RGeneric d_zero Count Measured False t5 0 cuDC,
          e 20 cuAC1 (Generation 1) Retry RGeneric (d_of_nat 1) Count Measured False t5 0 cuDC,
          e 21 cuAC2 (Generation 2) RequestStart RGeneric d_zero Count Measured False t5 0 cuDC,
          e 22 cuAC2 (Generation 2) Prefill RCompute (d_frac 5 100) Seconds Measured True t5 t6 cuDC,
          e 23 cuAC2 (Generation 2) Decode RCompute (d_of_nat 16) Count Measured True t6 t7 cuDC,
          e 24 cuAC2 (Generation 2) RequestEnd RGeneric d_zero Count Measured False t7 0 cuDC])"

definition cuda_entries :: "u64 \<Rightarrow> u64 \<Rightarrow> ledger_entry list" where
  "cuda_entries p d =
     cold_entries p d @ warm_entries (1000100 + p + d) @ retry_entries (1000100 + p + d + 100000)"

section \<open>The verdict\<close>

definition cuda_a_ok :: "request_account \<Rightarrow> bool" where
  "cuda_a_ok acc =
     (ac_completed (ac_outcome acc) \<and> d_lt d_zero (q_value (ac_gpu_active_s (ac_timing acc))) \<and>
      ac_generated_tokens (ac_counts acc) = 32)"

definition cuda_b_ok :: "request_account \<Rightarrow> bool" where
  "cuda_b_ok acc =
     (ac_completed (ac_outcome acc) \<and> d_lt d_zero (q_value (ac_kv_reuse (ac_memory acc))) \<and>
      d_lt d_zero (q_value (ac_reuse_avoided_work (ac_work acc))) \<and>
      d_eq (q_value (ac_prefill_s (ac_timing acc))) d_zero)"

definition cuda_c_ok :: "request_account \<Rightarrow> bool" where
  "cuda_c_ok acc =
     (ac_completed (ac_outcome acc) \<and> ac_retries (ac_counts acc) = 1 \<and>
      d_eq (q_value (ac_failed_attempt_work (ac_work acc))) (d_frac 5 100) \<and>
      ac_attempt_count (ac_outcome acc) = 2 \<and> ac_generated_tokens (ac_counts acc) = 16)"

text \<open>Buffers allocated and freed; \<^verbatim>\<open>net_allocs\<close> counts up and down.\<close>

definition cuda_net_allocs :: int where
  "cuda_net_allocs =
     int (length [''w'', ''kv'', ''x'', ''out'']) - int (length [''x'', ''out'', ''kv'', ''w''])"

definition cuda_baseline :: "u64 \<Rightarrow> u64 \<Rightarrow> bool" where
  "cuda_baseline free0 free1 =
     (cuda_net_allocs = 0 \<and> d_lt (d_fabs (d_sub (d_of_u64 free0) (d_of_u64 free1))) (d_of_nat (16 * 1024 * 1024)))"

definition pass_fail :: "bool \<Rightarrow> string" where
  "pass_fail b = (if b then ''PASS'' else ''FAIL'')"

record measured =
  me_prefill_ns :: u64
  me_decode_ns :: u64
  me_free0 :: u64
  me_free1 :: u64
  me_verified :: bool

definition cuda_snapshot :: "measured \<Rightarrow> ledger_entry list" where
  "cuda_snapshot m =
     snapshot (append_all None (ledger_new cuda_ledger) (cuda_entries (me_prefill_ns m) (me_decode_ns m)))"

text \<open>The end of \<^verbatim>\<open>main\<close>, from the clean-up on.\<close>

definition cuda_report :: "(double \<Rightarrow> u64) \<Rightarrow> measured \<Rightarrow> prog_exit \<times> string list" where
  "cuda_report u m =
     (let baseline = cuda_baseline (me_free0 m) (me_free1 m);
          snap = cuda_snapshot m;
          accA = reconcile_request u (query_ledger snap (by_request_id cuRA)) cuRA;
          accB = reconcile_request u (query_ledger snap (by_request_id cuRB)) cuRB;
          accC = reconcile_request u (query_ledger snap (by_request_id cuRC)) cuRC;
          all_ok = (baseline \<and> cuda_a_ok accA \<and> cuda_b_ok accB \<and> cuda_c_ok accC \<and> me_verified m)
      in (Exit (if all_ok then 0 else 1) [],
          [''baseline: net_allocs='' @ show_nat (nat cuda_net_allocs) @
             '' free(mib) before='' @ show_nat (unat (drop_bit 20 (me_free0 m))) @
             '' after='' @ show_nat (unat (drop_bit 20 (me_free1 m))) @ '' -> '' @ pass_fail baseline,
           ''A cold: completed='' @ show_bool (ac_completed (ac_outcome accA)) @
             '' gpu_s='' @ show_double (q_value (ac_gpu_active_s (ac_timing accA))) @
             '' tokens='' @ show_nat (unat (ac_generated_tokens (ac_counts accA))) @ '' -> '' @ pass_fail (cuda_a_ok accA),
           ''B warm: completed='' @ show_bool (ac_completed (ac_outcome accB)) @
             '' kv_reuse='' @ show_double (q_value (ac_kv_reuse (ac_memory accB))) @
             '' prefill_s='' @ show_double (q_value (ac_prefill_s (ac_timing accB))) @
             '' reuse_credit='' @ show_double (reuse_credit accB) @ '' -> '' @ pass_fail (cuda_b_ok accB),
           ''C retry: completed='' @ show_bool (ac_completed (ac_outcome accC)) @
             '' retries='' @ show_nat (unat (ac_retries (ac_counts accC))) @
             '' attempts='' @ show_nat (ac_attempt_count (ac_outcome accC)) @
             '' wasted_s='' @ show_double (q_value (ac_failed_attempt_work (ac_work accC))) @
             '' tokens='' @ show_nat (unat (ac_generated_tokens (ac_counts accC))) @ '' -> '' @ pass_fail (cuda_c_ok accC),
           ''CUDA_PROOF '' @ pass_fail all_ok]))"

section \<open>The program\<close>

text \<open>The message of each failing call by its label in the source.\<close>

record gpu =
  gp_error :: "string \<Rightarrow> string option"
  gp_name :: string
  gp_major :: nat
  gp_minor :: nat
  gp_free0 :: u64
  gp_free1 :: u64
  gp_msA :: single
  gp_msB :: single
  gp_execution :: execution

text \<open>A failing call prints its message and ends the program.\<close>

definition check :: "gpu \<Rightarrow> string \<Rightarrow> string option" where
  "check g label = map_option (\<lambda>e. ''CUDA error '' @ label @ '': '' @ e) (gp_error g label)"

fun checks :: "gpu \<Rightarrow> string list \<Rightarrow> string option" where
  "checks g [] = None"
| "checks g (label # ls) = (case check g label of Some e \<Rightarrow> Some e | None \<Rightarrow> checks g ls)"

definition setup_calls :: "string list" where
  "setup_calls =
     [''MemGetInfo-before'', ''cudaMalloc w'', ''cudaMalloc kv'', ''H2D w'', ''memset kv'', ''cudaMalloc x'', ''cudaMalloc out'']"

definition request_calls :: "string list" where
  "request_calls =
     [''H2D x'', ''event0'', ''event1'', ''record0'', ''prefill launch'', ''record1'', ''sync e1'', ''elapsed prefill'',
      ''record0b'', ''decode launch'', ''record1b'', ''sync e1b'', ''elapsed decode'', ''D2H out'']"

definition cleanup_calls :: "string list" where
  "cleanup_calls =
     [''destroy0'', ''destroy1'', ''cudaFree x'', ''cudaFree out'', ''cudaFree kv'', ''cudaFree w'', ''MemGetInfo-after'']"

text \<open>\<^verbatim>\<open>static_cast<std::uint64_t>(ms * 1e6f)\<close>\<close>

definition elapsed_ns :: "(single \<Rightarrow> u64) \<Rightarrow> single \<Rightarrow> u64" where
  "elapsed_ns uf ms = f_to_u64 uf (f_mul ms (f_of_nat 1000000))"

definition gpu_measured :: "(single \<Rightarrow> u64) \<Rightarrow> gpu \<Rightarrow> measured" where
  "gpu_measured uf g =
     \<lparr>me_prefill_ns = elapsed_ns uf (gp_msA g), me_decode_ns = elapsed_ns uf (gp_msB g),
      me_free0 = gp_free0 g, me_free1 = gp_free1 g, me_verified = verified (gp_execution g)\<rparr>"

definition gpu_line :: "gpu \<Rightarrow> string" where
  "gpu_line g =
     ''GPU: '' @ gp_name g @ '' compute_cap='' @ show_nat (gp_major g) @ ''.'' @ show_nat (gp_minor g) @
     '' sm_120='' @ (if gp_major g = 12 then ''1'' else ''0'')"

definition cpu_ref_line :: "execution \<Rightarrow> string" where
  "cpu_ref_line ex =
     ''A cpu-ref '' @ pass_fail (verified ex) @ '' ('' @ show_double (f_to_double (outv ex ! (kMat - 1))) @
     '' vs '' @ show_double (f_to_double (cpu_ref ex)) @ '')''"

text \<open>The output lines are what is on the console when the program ends.\<close>

definition cuda_main :: "(double \<Rightarrow> u64) \<Rightarrow> (single \<Rightarrow> u64) \<Rightarrow> gpu \<Rightarrow> prog_exit \<times> string list" where
  "cuda_main u uf g =
     (case check g ''getDeviceProperties'' of Some e \<Rightarrow> (Exit 1 e, []) | None \<Rightarrow>
      let out = [gpu_line g] in
      case checks g (setup_calls @ request_calls) of Some e \<Rightarrow> (Exit 1 e, out) | None \<Rightarrow>
      let out = out @ [cpu_ref_line (gp_execution g)] in
      case checks g cleanup_calls of Some e \<Rightarrow> (Exit 1 e, out) | None \<Rightarrow>
      case cuda_report u (gpu_measured uf g) of (r, ls) \<Rightarrow>
      let out = out @ ls in
      case check g ''deviceReset'' of Some e \<Rightarrow> (Exit 1 e, out) | None \<Rightarrow> (r, out))"

section \<open>The recorded entries\<close>

lemma make_entry_simps [simp]:
  "e_id (make_entry seq r a rg g k rk v un pr he s e di) = Id128 (0xC000 + word_of_nat seq) 0x1"
  "e_request (make_entry seq r a rg g k rk v un pr he s e di) = r"
  "e_attempt (make_entry seq r a rg g k rk v un pr he s e di) = a"
  "e_event_kind (make_entry seq r a rg g k rk v un pr he s e di) = k"
  "e_resource_kind (make_entry seq r a rg g k rk v un pr he s e di) = rk"
  "e_quantity (make_entry seq r a rg g k rk v un pr he s e di) = \<lparr>q_value = v, q_unit = un, q_provenance = pr\<rparr>"
  "e_start_ts_ns (make_entry seq r a rg g k rk v un pr he s e di) = s"
  "e_end_ts_ns (make_entry seq r a rg g k rk v un pr he s e di) = e"
  "e_has_end (make_entry seq r a rg g k rk v un pr he s e di) = he"
  by (simp_all add: make_entry_def)


lemma dur_make_entry:
  "dur_sec (make_entry seq r a rg g k rk v un pr he s e di) =
     (if he then sec (if s \<le> e then e - s else 0) else d_zero)"
  by (simp add: dur_sec_def duration_ns_def)

lemma valid_make_entry:
  assumes "isfinite v" "d_nn v" "un = Count \<longrightarrow> d_eq (d_floor v) v"
  shows "content_is_valid (make_entry seq r a rg g k rk v un pr he s e di)"
  using assms by (simp add: content_is_valid_iff q_is_integral_def d_lt_zero_iff d_nn_def not_less)

lemmas cuda_sizes = wBytes_def kvBytes_def xBytes_def outBytes_def kVec_def kMat_def

lemma entries_valid:
  assumes "unat p < 2 ^ 53" "unat d < 2 ^ 53"
  shows "list_all content_is_valid (cuda_entries p d)" "distinct (map e_id (cuda_entries p d))"
proof -
  have f: "isfinite (d_frac 8 100) \<and> d_nn (d_frac 8 100)" "isfinite (d_frac 5 100) \<and> d_nn (d_frac 5 100)"
    by (rule d_frac_nn; simp)+
  note vals = nat_value [of 1] nat_value [of 16] nat_value [of 32] nat_value [of 1024] nat_value [of 16384] nat_value [of 4194304]
    sec_value [OF assms(1)] sec_value [OF assms(2)] f zero_value
  show "list_all content_is_valid (cuda_entries p d)"
    using vals by (simp add: cuda_entries_def cold_entries_def warm_entries_def retry_entries_def Let_def
        valid_make_entry cuda_sizes del: d_of_nat_0)
  show "distinct (map e_id (cuda_entries p d))"
    by (simp add: cuda_entries_def cold_entries_def warm_entries_def retry_entries_def Let_def)
qed

lemma cuda_snapshot_all:
  assumes "unat (me_prefill_ns m) < 2 ^ 53" "unat (me_decode_ns m) < 2 ^ 53"
  shows "cuda_snapshot m = cuda_entries (me_prefill_ns m) (me_decode_ns m)"
  unfolding cuda_snapshot_def by (rule appended_all(1) [OF entries_valid [OF assms]])

lemma cuda_queries:
  "query_ledger (cuda_entries p d) (by_request_id cuRA) = cold_entries p d"
  "query_ledger (cuda_entries p d) (by_request_id cuRB) = warm_entries (1000100 + p + d)"
  "query_ledger (cuda_entries p d) (by_request_id cuRC) = retry_entries (1000100 + p + d + 100000)"
  by (simp_all add: query_by_request cuda_entries_def cold_entries_def warm_entries_def retry_entries_def Let_def)
section \<open>The accounts\<close>

lemma cold_attempts:
  assumes "unat p + unat d < 2 ^ 52"
  shows "foldl (attempts_step u) [] (cold_entries p d) =
    [(cuAA, attempt_default\<lparr>at_completed := True, at_terminal_ns := 1000100 + p + d,
       at_prefill_s := d_add d_zero (sec p),
       at_decode_s := d_add (d_add d_zero (sec d)) (sec d),
       at_exec_s := d_add (d_add (d_add d_zero (sec p)) (sec d)) (sec d),
       at_gpu_s := d_add (d_add (d_add d_zero (sec p)) (sec d)) (sec d),
       at_gen_tokens := 32\<rparr>)]"
proof -
  have w: "(1000100 :: u64) \<le> 1000100 + p" "1000100 + p \<le> 1000100 + p + d"
    using no_wrap [of 1000100 p] no_wrap [of "1000100 + p" d] assms
    by (auto simp: unat_word_ariths)
  then show ?thesis
    by (simp add: cold_entries_def Let_def attempts_step_def attempt_step_def attempt_default_def
        dur_make_entry max_def)
qed

lemma cold_ok:
  assumes "unat p + unat d < 2 ^ 52" "0 < p"
  shows "cuda_a_ok (reconcile_request u (cold_entries p d) cuRA)"
proof -
  have p: "d_nn (sec p)" "d_nn (sec d)" "d_lt d_zero (sec p)"
    using assms sec_value [of p] sec_value [of d] d_frac_positive [of "unat p" 1000000000]
    by (simp_all add: sec_frac word_less_nat_alt d_unit_def)
  have z: "d_add d_zero (sec p) = sec p" using p by (intro d_add_zero_left) (auto simp: d_lt_def d_nn_iff dord_def)
  have "d_le (sec p) (d_add (d_add (d_add d_zero (sec p)) (sec d)) (sec d))"
    unfolding z by (rule d_le_trans [OF d_add_nn_ge [OF p(1,2)] d_add_nn_ge [OF d_add_nn [OF p(1,2)] p(2)]])
  then have "d_lt d_zero (d_add (d_add (d_add d_zero (sec p)) (sec d)) (sec d))"
    using p(3) by (auto simp: d_lt_def d_le_def)
  then show ?thesis
    by (simp add: cuda_a_ok_def account_parts attempts_of cold_attempts [OF assms(1)] winning_single useful_single
        successful_def attempt_default_def)
qed

lemma warm_attempts:
  assumes "unat t + 100000 < 2 ^ 64"
  shows "foldl (attempts_step u) [] (warm_entries t) =
    [(cuAB, attempt_default\<lparr>at_completed := True, at_terminal_ns := t + 100000,
       at_decode_s := d_add d_zero (sec 100000), at_exec_s := d_add d_zero (sec 100000),
       at_gpu_s := d_add d_zero (sec 100000), at_gen_tokens := 32\<rparr>)]"
proof -
  have "t \<le> t + 100000" "t + 100000 - t = 100000" using no_wrap [of t 100000] assms by simp_all
  then show ?thesis
    by (simp add: warm_entries_def Let_def attempts_step_def attempt_step_def attempt_default_def dur_make_entry max_def)
qed

lemma warm_ok:
  assumes "unat t + 100000 < 2 ^ 64"
  shows "cuda_b_ok (reconcile_request u (warm_entries t) cuRB)"
proof -
  have kv: "ty_kv (tally_of u (warm_entries t)) =
      \<lparr>tm_alloc = d_zero, tm_live = d_zero, tm_peak = d_zero, tm_reuse = d_add d_zero (d_of_nat kvBytes)\<rparr>"
    by (simp add: kv_of warm_entries_def Let_def kv_step_def memory_reuse_def)
  have avoid: "tt_reuse_avoid (ty_time (tally_of u (warm_entries t))) = d_add d_zero (d_frac 8 100)"
    by (simp add: tally_folds tally_init_def warm_entries_def Let_def time_step_def)
  have pos: "d_lt d_zero (d_of_nat kvBytes)" "d_lt d_zero (d_frac 8 100)"
    using d_of_nat_le_iff(2) [of 0 kvBytes] d_frac_positive [of 8 100] by (simp_all add: cuda_sizes d_unit_def)
  have "d_add d_zero x = x" if "d_lt d_zero x" for x
    using that by (intro d_add_zero_left) (auto simp: d_lt_def dord_def)
  moreover have not_nan: "\<not> isnan d_zero" using zero_value(1) isfinite_not by blast
  ultimately show ?thesis
    using pos by (simp add: cuda_b_ok_def account_parts attempts_of warm_attempts [OF assms] kv avoid winning_single useful_single
        successful_def attempt_default_def d_eq_refl not_nan)
qed

lemma retry_attempts:
  assumes "unat t + 200000000 < 2 ^ 64"
  shows "foldl (attempts_step u) [] (retry_entries t) =
    [(cuAC1, attempt_default\<lparr>at_failed := True, at_prefill_s := d_add d_zero (sec 50000000),
        at_exec_s := d_add d_zero (sec 50000000), at_gpu_s := d_add d_zero (sec 50000000)\<rparr>),
     (cuAC2, attempt_default\<lparr>at_completed := True, at_terminal_ns := t + 100040000,
        at_prefill_s := d_add d_zero (sec 50000000), at_decode_s := d_add d_zero (sec 40000),
        at_exec_s := d_add (d_add d_zero (sec 50000000)) (sec 40000),
        at_gpu_s := d_add (d_add d_zero (sec 50000000)) (sec 40000), at_gen_tokens := 16\<rparr>)]"
proof -
  have "t \<le> t + 50000000" "t + 50000000 \<le> t + 100000000" "t + 100000000 \<le> t + 100040000"
    using assms by (simp_all add: word_le_nat_alt unat_word_ariths)
  then show ?thesis
    by (simp add: retry_entries_def Let_def attempts_step_def attempt_step_def attempt_default_def dur_make_entry max_def
        id128_less_iff add.commute [of t])
qed

lemma retry_ok:
  assumes "unat t + 200000000 < 2 ^ 64"
  shows "cuda_c_ok (reconcile_request u (retry_entries t) cuRC)"
proof -
  have s: "sec 50000000 = d_frac 5 100"
    using d_frac_cancel [of 10000000 100 5] by (simp add: sec_frac)
  have pos: "d_lt d_zero (d_frac 5 100)" by (rule d_frac_positive) (simp_all add: d_unit_def)
  have z: "d_add d_zero (d_frac 5 100) = d_frac 5 100"
    using pos by (intro d_add_zero_left) (auto simp: d_lt_def dord_def)
  have r: "tc_retries (ty_counts (tally_of u (retry_entries t))) = 1"
    by (simp add: tally_folds tally_init_def retry_entries_def Let_def counts_step_def)
  show ?thesis
    using pos by (simp add: cuda_c_ok_def account_parts attempts_of retry_attempts [OF assms] winning_def winner_step_def
        useful_attempt_def attempt_at_def waste_of_def waste_step_def attempt_default_def s z r d_eq_refl d_lt_def)
qed
lemma report_passes:
  assumes "0 < me_prefill_ns m" "unat (me_prefill_ns m) + unat (me_decode_ns m) < 2 ^ 52"
    and "d_lt (d_fabs (d_sub (d_of_u64 (me_free0 m)) (d_of_u64 (me_free1 m)))) (d_of_nat (16 * 1024 * 1024))"
    and "me_verified m"
  shows "fst (cuda_report u m) = Exit 0 [] \<and> last (snd (cuda_report u m)) = ''CUDA_PROOF PASS'' \<and>
    cuda_snapshot m = cuda_entries (me_prefill_ns m) (me_decode_ns m)"
proof -
  let ?p = "me_prefill_ns m" and ?d = "me_decode_ns m"
  have snap: "cuda_snapshot m = cuda_entries ?p ?d" using assms(2) by (intro cuda_snapshot_all) simp_all
  have t: "unat (1000100 + ?p + ?d) = 1000100 + unat ?p + unat ?d"
      "unat (1000100 + ?p + ?d + 100000) = 1100100 + unat ?p + unat ?d"
    using assms(2) by (simp_all add: unat_word_ariths)
  have ok: "cuda_a_ok (reconcile_request u (cold_entries ?p ?d) cuRA)"
      "cuda_b_ok (reconcile_request u (warm_entries (1000100 + ?p + ?d)) cuRB)"
      "cuda_c_ok (reconcile_request u (retry_entries (1000100 + ?p + ?d + 100000)) cuRC)"
    using assms(2) t by (auto intro!: cold_ok [OF assms(2,1)] warm_ok retry_ok)
  have "cuda_baseline (me_free0 m) (me_free1 m)" using assms(3) by (simp add: cuda_baseline_def cuda_net_allocs_def)
  with assms(4) ok snap show ?thesis
    by (simp add: cuda_report_def Let_def cuda_queries pass_fail_def)
qed

lemma checks_None: "checks g ls = None \<longleftrightarrow> list_all (\<lambda>l. gp_error g l = None) ls"
  by (induction ls) (auto simp: check_def split: option.splits)

lemma elapsed_bounds:
  assumes "f_nn ms" "2 / 1000000 \<le> frv ms" "frv ms \<le> 2000000000"
  shows "0 < elapsed_ns uf ms" "unat (elapsed_ns uf ms) < 2 ^ 51"
proof -
  let ?f = "f_of_nat 1000000"
  have "f_nn ?f \<and> \<bar>frv ?f - real (1000000 * f_unit) / real 1 / 2 ^ 149\<bar> \<le> 2 ^ 145 / 2 ^ 150"
    unfolding f_of_nat_def by (intro f_rounded) (simp_all add: f_unit_def)
  then have f1: "f_nn ?f" "\<bar>frv ?f - 1000000\<bar> \<le> 1 / 32" by (simp_all add: f_unit_def)
  then have f: "f_nn ?f" "999999 \<le> frv ?f" "frv ?f \<le> 1000001" by linarith+
  have lo: "2 / 1000000 * 999999 \<le> frv ms * frv ?f" using assms(2) f(2) by (intro mult_mono) simp_all
  have hi: "frv ms * frv ?f \<le> 2000000000 * 1000001" using assms f by (intro mult_mono) simp_all
  have "f_nn (f_mul ms ?f) \<and> \<bar>frv (f_mul ms ?f) - frv ms * frv ?f\<bar> \<le> frv ms * frv ?f / 2 ^ 24"
    using assms(1) f(1) lo hi by (intro f_mul_relative) simp_all
  then have r: "f_nn (f_mul ms ?f)" "\<bar>frv (f_mul ms ?f) - frv ms * frv ?f\<bar> \<le> frv ms * frv ?f / 16777216" by simp_all
  have "1 \<le> frv (f_mul ms ?f)" "frv (f_mul ms ?f) < 2251799813685248" using r(2) lo hi by linarith+
  then have b: "1 \<le> frv (f_mul ms ?f)" "frv (f_mul ms ?f) < 2 ^ 51" by simp_all
  have "unat (elapsed_ns uf ms) = nat \<lfloor>frv (f_mul ms ?f)\<rfloor>"
    unfolding elapsed_ns_def using r(1) b(2) by (intro f_to_u64_value) simp_all
  moreover have "1 \<le> \<lfloor>frv (f_mul ms ?f)\<rfloor>" "\<lfloor>frv (f_mul ms ?f)\<rfloor> < 2 ^ 51" using b by (simp_all add: le_floor_iff floor_less_iff)
  ultimately show "0 < elapsed_ns uf ms" "unat (elapsed_ns uf ms) < 2 ^ 51"
    by (simp_all add: word_less_nat_alt nat_less_iff)
qed

section \<open>Properties\<close>

text \<open>C40: The GPU check reports success exactly when no call of the runtime fails: when all threads ran, each
  kernel took between two nanoseconds and 23 days and the free memory returned to within 16 MiB,
  the comparison with the host passes, every recorded entry is accepted, the rebuilt accounts of
  the cold, the warm and the retried request pass, and the program prints so; it exits with 0
  unless one of its calls failed, the last reset included.\<close>

theorem cuda_main_passes:
  assumes "executed (gp_execution g)"
    and "f_nn (gp_msA g)" "2 / 1000000 \<le> frv (gp_msA g)" "frv (gp_msA g) \<le> 2000000000"
    and "f_nn (gp_msB g)" "2 / 1000000 \<le> frv (gp_msB g)" "frv (gp_msB g) \<le> 2000000000"
    and "d_lt (d_fabs (d_sub (d_of_u64 (gp_free0 g)) (d_of_u64 (gp_free1 g)))) (d_of_nat (16 * 1024 * 1024))"
  shows "(fst (cuda_main u uf g) = Exit 0 [] \<longleftrightarrow>
      list_all (\<lambda>l. gp_error g l = None)
        (''getDeviceProperties'' # setup_calls @ request_calls @ cleanup_calls @ [''deviceReset''])) \<and>
    (fst (cuda_main u uf g) = Exit 0 [] \<longrightarrow>
      last (snd (cuda_main u uf g)) = ''CUDA_PROOF PASS'' \<and> cuda_snapshot (gpu_measured uf g) =
        cuda_entries (elapsed_ns uf (gp_msA g)) (elapsed_ns uf (gp_msB g)))"
proof -
  let ?m = "gpu_measured uf g"
  have "unat (elapsed_ns uf (gp_msA g)) + unat (elapsed_ns uf (gp_msB g)) < 2 ^ 52"
    using elapsed_bounds(2) [OF assms(2-4), of uf] elapsed_bounds(2) [OF assms(5-7), of uf] by simp
  then have r: "fst (cuda_report u ?m) = Exit 0 []" "last (snd (cuda_report u ?m)) = ''CUDA_PROOF PASS''"
      "cuda_snapshot ?m = cuda_entries (elapsed_ns uf (gp_msA g)) (elapsed_ns uf (gp_msB g))"
    using report_passes [of ?m u] elapsed_bounds(1) [OF assms(2-4), of uf] assms(8) verified_always [OF assms(1)]
    by (simp_all add: gpu_measured_def)
  have "snd (cuda_report u ?m) \<noteq> []" by (simp add: cuda_report_def Let_def)
  with r checks_None [of g "setup_calls @ request_calls"] checks_None [of g cleanup_calls] show ?thesis
    by (auto simp: cuda_main_def Let_def check_def case_prod_beta split: option.splits)
qed

definition a_gpu :: gpu where
  "a_gpu =
     \<lparr>gp_error = (\<lambda>_. None), gp_name = ''GPU'', gp_major = 12, gp_minor = 0, gp_free0 = 1000, gp_free1 = 1000,
      gp_msA = f_of_nat 1, gp_msB = f_of_nat 1,
      gp_execution =
        \<lparr>ex_prefill_order = [(b, t). b \<leftarrow> [0..<2], t \<leftarrow> [0..<128]], ex_prefill_fused = (\<lambda>r j. True),
         ex_decode_order = [(0, t). t \<leftarrow> [0..<128]], ex_decode_fused = (\<lambda>r j. True),
         ex_host_fused = (\<lambda>r j. False), ex_memory = replicate 256 f_nan\<rparr>\<rparr>"

theorem cuda_main_passes_witness: "fst (cuda_main (\<lambda>_. 0) (\<lambda>_. 0) a_gpu) = Exit 0 []"
proof -
  have "executed (gp_execution a_gpu)" by (auto simp: a_gpu_def executed_def ran_all_def prefill_blocks_def kMat_def)
  moreover have "f_nn (f_of_nat 1) \<and> \<bar>frv (f_of_nat 1) - real (1 * f_unit) / real 1 / 2 ^ 149\<bar> \<le> 2 ^ 130 / 2 ^ 150"
    unfolding f_of_nat_def by (intro f_rounded) (simp_all add: f_unit_def)
  then have "f_nn (f_of_nat 1)" "\<bar>frv (f_of_nat 1) - 1\<bar> \<le> 1 / 1048576" by (simp_all add: f_unit_def)
  then have "f_nn (gp_msA a_gpu)" "2 / 1000000 \<le> frv (gp_msA a_gpu)" "frv (gp_msA a_gpu) \<le> 2000000000"
    unfolding a_gpu_def gpu.simps by (assumption | linarith)+
  moreover have "gp_msB a_gpu = gp_msA a_gpu" by (simp add: a_gpu_def)
  moreover have "d_sub (d_of_u64 1000) (d_of_u64 1000) = d_zero"
    by (simp add: d_sub_def d_add_def d_of_u64_def d_zero_def dval_neg)
  then have "d_lt (d_fabs (d_sub (d_of_u64 (gp_free0 a_gpu)) (d_of_u64 (gp_free1 a_gpu)))) (d_of_nat (16 * 1024 * 1024))"
    using d_of_nat_le_iff(2) [of 0 "16 * 1024 * 1024"] by (simp add: a_gpu_def d_fabs_def d_zero_def)
  ultimately show ?thesis
    using cuda_main_passes [of a_gpu "\<lambda>_. 0" "\<lambda>_. 0"] by (simp add: a_gpu_def list_all_iff)
qed

end
