(* ===== verification/Magnitude.thy ===== *)
theory Magnitude
  imports Exact Pricing
begin

text \<open>
  Upper bounds of non-negative doubles, kept through rounding. From them: the cost of an account
  whose quantities and rates are not astronomical is a finite number, so it reconciles.
\<close>

section \<open>Bounded values\<close>

definition at_most :: "nat \<Rightarrow> double \<Rightarrow> bool" where
  "at_most n x = (isfinite x \<and> d_nn x \<and> mag_val (dmag x) \<le> n * d_unit)"

lemma at_most_finite: "at_most n x \<Longrightarrow> isfinite x"
  by (simp add: at_most_def)

lemma at_most_trans: "at_most n x \<Longrightarrow> n \<le> m \<Longrightarrow> at_most m x"
  unfolding at_most_def by (meson le_trans mult_le_mono1)

lemma at_most_of_nat: "k \<le> n \<Longrightarrow> k < 2 ^ 53 \<Longrightarrow> at_most n (d_of_nat k)"
  using d_of_nat_exact [of k] by (simp add: at_most_def d_nn_iff)

lemma at_most_le:
  assumes "at_most n x" "n < 2 ^ 53"
  shows "d_le x (d_of_nat n)"
proof -
  have "dval x \<le> int (n * d_unit)" using assms(1) by (auto simp: at_most_def dval_def d_nn_iff simp del: of_nat_mult)
  then have "dord x \<le> dord (d_of_nat n)"
    using assms by (simp add: dord_le_iff_dval at_most_def d_of_nat_exact)
  then show ?thesis using assms by (simp add: d_le_def at_most_def isfinite_not)
qed

lemma at_most_zero [simp]: "at_most n d_zero"
  using at_most_of_nat [of 0 n] by simp

text \<open>Rounding does not pass an integer of at most 53 bits.\<close>

lemma round_at_most:
  assumes "0 < b" "a \<le> k * d_unit * b" "k < 2 ^ 53"
  shows "round_mag a b < inf_mag" "mag_val (round_mag a b) \<le> k * d_unit"
proof -
  have "round_mag a b \<le> round_mag (k * d_unit) 1" using assms by (intro round_mag_mono) simp_all
  also have top: "\<dots> = dmag (d_of_nat k)" by (simp add: d_of_nat_def)
  finally have le: "round_mag a b \<le> dmag (d_of_nat k)" .
  have fin: "dmag (d_of_nat k) < inf_mag" using d_of_nat_exact(1) [OF assms(3)] by (simp add: isfinite_def)
  with le show lt: "round_mag a b < inf_mag" by (rule le_less_trans)
  show "mag_val (round_mag a b) \<le> k * d_unit"
    using le mag_val_le_iff [OF lt fin] d_of_nat_exact(3) [OF assms(3)] by simp
qed

lemma at_most_add:
  assumes "at_most n x" "at_most m y" "n + m < 2 ^ 53"
  shows "at_most (n + m) (d_add x y)"
proof -
  have v: "dval x = int (mag_val (dmag x))" "dval y = int (mag_val (dmag y))"
    using assms(1,2) by (auto simp: at_most_def d_nn_iff dval_def)
  have s: "mag_val (dmag x) + mag_val (dmag y) \<le> (n + m) * d_unit"
    using assms(1,2) by (simp add: at_most_def distrib_right)
  have nn: "d_nn (d_add x y)" using assms(1,2) by (simp add: at_most_def)
  show ?thesis
  proof (cases "dval x + dval y = 0")
    case True
    then have "dmag (d_add x y) = 0"
      using assms(1,2) by (auto simp: at_most_def d_add_def dest!: isfinite_not)
    then show ?thesis using nn by (simp add: at_most_def isfinite_def inf_mag_def)
  next
    case False
    then have "dmag (d_add x y) = round_mag (mag_val (dmag x) + mag_val (dmag y)) 1"
      using assms(1,2) by (auto simp: at_most_def d_add_def round_int_def v nat_add_distrib dest!: isfinite_not)
    then show ?thesis
      using round_at_most [of 1 "mag_val (dmag x) + mag_val (dmag y)" "n + m"] s assms(3) nn
      by (simp add: at_most_def isfinite_def)
  qed
qed

lemma at_most_mul:
  assumes "at_most n x" "at_most m y" "n * m < 2 ^ 53"
  shows "at_most (n * m) (d_mul x y)"
proof -
  have "mag_val (dmag x) * mag_val (dmag y) \<le> (n * d_unit) * (m * d_unit)"
    using assms(1,2) by (intro mult_le_mono) (simp_all add: at_most_def)
  then have le: "mag_val (dmag x) * mag_val (dmag y) \<le> n * m * d_unit * d_unit" by (simp add: ac_simps)
  have "dmag (d_mul x y) = round_mag (mag_val (dmag x) * mag_val (dmag y)) d_unit"
    using assms(1,2) by (auto simp: at_most_def d_mul_def dest!: isfinite_not)
  then show ?thesis
    using round_at_most [OF _ le assms(3)] assms(1,2) d_mul_nn [of x y]
    by (simp add: at_most_def isfinite_def)
qed

text \<open>Dividing by something that is at least one.\<close>

lemma at_most_div:
  assumes "at_most n x" "n < 2 ^ 53" "isfinite y" "\<not> dsign y" "d_unit \<le> mag_val (dmag y)"
  shows "at_most n (d_div x y)"
proof -
  have pos: "0 < mag_val (dmag y)" using assms(5) d_unit_pos(1) by linarith
  have "mag_val (dmag x) * d_unit \<le> n * d_unit * mag_val (dmag y)"
    using assms(1,5) by (intro mult_le_mono) (simp_all add: at_most_def)
  note r = round_at_most [OF pos this assms(2)]
  have d: "d_div x y = mk_double (dsign x \<noteq> dsign y) (round_mag (mag_val (dmag x) * d_unit) (mag_val (dmag y)))"
    using assms(1,3) pos by (auto simp: at_most_def d_div_def dest!: isfinite_not)
  have "d_nn (d_div x y)"
    using assms(1,4) pos by (auto simp: d d_nn_iff at_most_def isnan_def round_mag_le not_less)
  with r show ?thesis by (simp add: at_most_def d isfinite_def)
qed

lemma at_most_of_u64: "unat w \<le> n \<Longrightarrow> unat w < 2 ^ 53 \<Longrightarrow> at_most n (d_of_u64 w)"
  by (simp add: d_of_u64_def at_most_of_nat)

lemma unit_constants:
  "isfinite kGiB" "\<not> dsign kGiB" "d_unit \<le> mag_val (dmag kGiB)"
  "isfinite kJoulesPerKwh" "\<not> dsign kJoulesPerKwh" "d_unit \<le> mag_val (dmag kJoulesPerKwh)"
  by (simp_all add: kGiB_def kJoulesPerKwh_def isfinite_def dsign_def dmag_def mag_val_def d_unit_def inf_mag_def)

section \<open>The cost of an account\<close>

text \<open>What \<open>apply_pricing\<close> reads of an account, and the rates it multiplies with.\<close>

definition account_at_most :: "nat \<Rightarrow> request_account \<Rightarrow> bool" where
  "account_at_most n acc =
     (list_all (at_most n)
        [q_value (ac_execution_s (ac_timing acc)), q_value (ac_cpu_active_s (ac_timing acc)),
         q_value (ac_failed_attempt_work (ac_work acc)), q_value (ac_spec_wasted_work_s (ac_work acc)),
         q_value (ac_cancelled_work (ac_work acc)), q_value (ac_recomputed_work (ac_work acc)),
         q_value (ac_energy_joules (ac_work acc)),
         q_value (ac_model_byte_seconds (ac_memory acc)), q_value (ac_adapter_byte_seconds (ac_memory acc)),
         q_value (ac_h2d_bytes (ac_transfers acc)), q_value (ac_d2h_bytes (ac_transfers acc)),
         q_value (ac_inter_node_bytes (ac_transfers acc))] \<and>
      unat (ac_cache_writes (ac_counts acc)) \<le> n)"

definition rates_at_most :: "nat \<Rightarrow> pricing_rates \<Rightarrow> bool" where
  "rates_at_most r rates =
     (list_all (at_most r)
        [pr_gpu_per_second rates, pr_cpu_per_second rates, pr_memory_per_gib_second rates,
         pr_transfer_per_gib rates, pr_persistent_cache_cost rates, pr_energy_per_kwh rates])"

lemma at_most_sum: "at_most n x \<Longrightarrow> at_most m y \<Longrightarrow> n + m = k \<Longrightarrow> k < 2 ^ 53 \<Longrightarrow> at_most k (d_add x y)"
  using at_most_add by blast

lemma at_most_prod: "at_most n x \<Longrightarrow> at_most m y \<Longrightarrow> n * m = k \<Longrightarrow> k < 2 ^ 53 \<Longrightarrow> at_most k (d_mul x y)"
  using at_most_mul by blast

lemma total_at_most:
  assumes "account_at_most n acc" "rates_at_most r (pp_rates p)" "13 * (n * r) < 2 ^ 53" "0 < r"
  shows "at_most (13 * (n * r)) (cost_total (apply_pricing acc p))"
proof -
  note acc = assms(1) [unfolded account_at_most_def, simplified]
  note rates = assms(2) [unfolded rates_at_most_def, simplified]
  define k where "k = n * r"
  have k: "n * r = k" by (simp add: k_def)
  have n: "n \<le> k" using assms(4) by (simp add: k_def)
  have small: "13 * k < 2 ^ 53" using assms(3) by (simp add: k_def)
  have one: "at_most k (d_mul x y)" if "at_most n x" "at_most r y" for x y
    using that small by (intro at_most_prod [OF _ _ k]) simp_all
  have two: "at_most (2 * n) (d_add x y)" if "at_most n x" "at_most n y" for x y
    using that small n by (intro at_most_sum [of n _ n]) simp_all
  have three: "at_most (3 * n) (d_add (d_add x y) z)" if "at_most n x" "at_most n y" "at_most n z" for x y z
    using that small n by (intro at_most_sum [OF two]) simp_all
  have gib: "at_most (i * k) (d_mul (d_div x kGiB) y)" if "at_most (i * n) x" "at_most r y" "i \<le> 13" for i x y
  proof -
    have "i * n \<le> i * k" "i * k \<le> 13 * k" using that(3) n by simp_all
    then have "i * n < 2 ^ 53" "i * k < 2 ^ 53" using small by linarith+
    with that show ?thesis
      by (intro at_most_prod [of "i * n" _ r] at_most_div unit_constants) (simp_all flip: k)
  qed
  have "at_most (6 * k) (cr_compute_cost (apply_pricing acc p))"
  proof -
    have w: "at_most (2 * k) (d_mul (d_add (q_value (ac_failed_attempt_work (ac_work acc)))
        (q_value (ac_spec_wasted_work_s (ac_work acc)))) (pr_gpu_per_second (pp_rates p)))"
      using acc rates small by (intro at_most_prod [of "2 * n" _ r] two) (simp_all flip: k)
    show ?thesis
      unfolding apply_pricing_def Let_def using acc rates small
      by (simp, intro at_most_sum [of "5 * k" _ k] at_most_sum [of "4 * k" _ k] at_most_sum [of "3 * k" _ k]
          at_most_sum [OF one w] one) simp_all
  qed
  moreover have "at_most (2 * k) (cr_residency_cost (apply_pricing acc p))"
    using acc rates by (simp add: apply_pricing_def Let_def gib two)
  moreover have "at_most (3 * k) (cr_transfer_cost (apply_pricing acc p))"
    using acc rates by (simp add: apply_pricing_def Let_def gib three)
  moreover have "at_most k (cr_storage_cache_cost (apply_pricing acc p))"
    using acc rates small n by (simp add: apply_pricing_def Let_def one at_most_of_u64)
  moreover have "at_most k (cr_energy_cost (apply_pricing acc p))"
    using acc rates small n by (simp add: apply_pricing_def Let_def one at_most_div unit_constants)
  ultimately show ?thesis
    unfolding cost_total_def k using small
    by (intro at_most_sum [of "12 * k" _ k] at_most_sum [of "11 * k" _ k] at_most_sum [of "8 * k" _ "3 * k"]
        at_most_sum [of "6 * k" _ "2 * k"]) simp_all
qed

section \<open>Properties\<close>

text \<open>C28: A cost does reconcile for every account and policy of ordinary size: when the quantities that
  are priced are non-negative numbers up to \<open>n\<close> and the rates non-negative numbers up to \<open>r\<close>, with
  \<open>13 n r\<close> below \<open>2 ^ 53\<close>, no product or sum overflows whatever the rounding does, the total is a finite
  number of at most \<open>13 n r\<close>, and the billed total equals the sum of its components.\<close>

theorem ordinary_cost_reconciles:
  assumes "account_at_most n acc" "rates_at_most r (pp_rates p)" "13 * (n * r) < 2 ^ 53" "0 < r"
  shows "cost_reconciles (apply_pricing acc p) \<and> d_nn (cost_total (apply_pricing acc p)) \<and>
    d_le (cost_total (apply_pricing acc p)) (d_of_nat (13 * (n * r)))"
proof -
  note top = total_at_most [OF assms]
  then show ?thesis using at_most_le [OF top assms(3)] by (simp add: reconciles_iff at_most_def)
qed

theorem ordinary_cost_reconciles_witness:
  "cost_reconciles (apply_pricing (reconcile_request (\<lambda>_. 0) [] id_default)
     (policy_default\<lparr>pp_rates := rates_default\<lparr>pr_gpu_per_second := d_of_nat 2\<rparr>\<rparr>))"
proof -
  have "account_at_most 1 (reconcile_request (\<lambda>_. 0) [] id_default)"
    by (simp add: account_at_most_def reconcile_request_def tally_of_def tally_init_def Let_def timing_of_def work_of_def
        memory_of_def transfers_of_def counts_of_def derived_q_def waste_of_def useful_attempt_def winning_def attempt_default_def)
  moreover have "rates_at_most 2 (rates_default\<lparr>pr_gpu_per_second := d_of_nat 2\<rparr>)"
    by (simp add: rates_at_most_def rates_default_def at_most_of_nat)
  ultimately show ?thesis
    using ordinary_cost_reconciles [of 1 "reconcile_request (\<lambda>_. 0) [] id_default" 2
        "policy_default\<lparr>pp_rates := rates_default\<lparr>pr_gpu_per_second := d_of_nat 2\<rparr>\<rparr>"] by simp
qed

end
