(* ===== verification/Examples.thy ===== *)
theory Examples
  imports Restart Durations Magnitude Batch
begin

text \<open>
  The two programs that show the library at work: \<^verbatim>\<open>examples.cpp\<close>, which walks through
  accounting, batches, reuse, retries, pricing and persistence, and \<^verbatim>\<open>consumer.cpp\<close>, which
  checks an installed library. A run gives the exit, the lines of the standard output and the disk
  afterwards.
\<close>

section \<open>The entries of both programs\<close>

text \<open>\<^verbatim>\<open>ev\<close> of \<^verbatim>\<open>consumer.cpp\<close>.\<close>

definition ev ::
    "ledger_entry_id \<Rightarrow> request_id \<Rightarrow> attempt_id \<Rightarrow> event_kind \<Rightarrow> resource_kind \<Rightarrow> double \<Rightarrow> unit_kind \<Rightarrow> bool \<Rightarrow>
     u64 \<Rightarrow> u64 \<Rightarrow> ledger_id \<Rightarrow> tenant_id \<Rightarrow> worker_id \<Rightarrow> worker_boot_id \<Rightarrow> coordinator_epoch \<Rightarrow>
     request_generation \<Rightarrow> attempt_generation \<Rightarrow> accounting_generation \<Rightarrow> dispatch_id \<Rightarrow> ledger_entry" where
  "ev i req at k rk v u has_end s e l t w b ep rg atg ag d =
     \<lparr>e_id = i,
      e_ledger = l,
      e_tenant = t,
      e_workload = Id128 0x88 1,
      e_request = req,
      e_model = Id128 0x77 1,
      e_model_revision = Id128 0x77 2,
      e_has_adapter = False,
      e_adapter = id_default,
      e_attempt = at,
      e_dispatch = d,
      e_worker = w,
      e_node = Id128 0x6002 1,
      e_device = Id128 0x6001 1,
      e_event_kind = k,
      e_resource_kind = rk,
      e_quantity = \<lparr>q_value = v, q_unit = u, q_provenance = Measured\<rparr>,
      e_start_ts_ns = s,
      e_end_ts_ns = e,
      e_has_end = has_end,
      e_source = \<lparr>s_worker = w, s_boot = b, s_accounting_generation = ag\<rparr>,
      e_authority =
        \<lparr>a_epoch = ep, a_worker_boot = b, a_request_generation = rg, a_accounting_generation = ag,
         a_attempt = at, a_attempt_generation = atg, a_dispatch = d\<rparr>,
      e_has_accounting_policy = False,
      e_accounting_policy = id_default,
      e_has_pricing_policy = False,
      e_pricing_policy = id_default,
      e_metadata = []\<rparr>"

definition example_ledger :: ledger_id where
  "example_ledger = Id128 0x494C4544474552 1"

text \<open>
  \<^verbatim>\<open>ev\<close> of \<^verbatim>\<open>examples.cpp\<close> fills in the same fields with the constants at the top of the
  file, and records the batch unless its name is empty.
\<close>

definition example_ev ::
    "u64 \<Rightarrow> request_id \<Rightarrow> attempt_id \<Rightarrow> event_kind \<Rightarrow> resource_kind \<Rightarrow> double \<Rightarrow> unit_kind \<Rightarrow> bool \<Rightarrow>
     u64 \<Rightarrow> u64 \<Rightarrow> string \<Rightarrow> ledger_entry" where
  "example_ev i req at k rk v u has_end s e batch =
     (ev (Id128 i 1) req at k rk v u has_end s e example_ledger (Id128 0x99 1) (Id128 0xAA 1) (Id128 0xB007 1)
        (Generation 1) (Generation 1) (Generation 1) (Generation 1) (Id128 0x3001 1))
     \<lparr>e_metadata := (if batch = '''' then [] else [(''batch'', batch)])\<rparr>"

text \<open>\<^verbatim>\<open>section\<close>: an empty line and a heading.\<close>

definition heading :: "string \<Rightarrow> string list" where
  "heading t = ['''', ''==== '' @ t @ '' ===='']"

abbreviation exA :: attempt_id where "exA \<equiv> Id128 0x2001 1"
abbreviation exA2 :: attempt_id where "exA2 \<equiv> Id128 0x2002 1"

section \<open>Accounting\<close>

definition basic_entries :: "request_id \<Rightarrow> ledger_entry list" where
  "basic_entries r =
     [example_ev 1 r exA RequestStart RGeneric d_zero Count False 1000000000 0 '''',
      example_ev 2 r exA Reserve RMemory (d_of_nat 1) Count False 1100000000 0 '''',
      example_ev 3 r exA KvAllocate RKv (d_of_nat 4096) Bytes False 1200000000 0 '''',
      example_ev 4 r exA Prefill RCompute (d_frac 5 10) Seconds True 1400000000 1900000000 '''',
      example_ev 5 r exA Decode RCompute (d_of_nat 64) Count True 2000000000 2400000000 '''',
      example_ev 6 r exA TransferH2D RTransfer (d_of_nat 1024) Bytes True 1300000000 1350000000 '''',
      example_ev 7 r exA ModelResidency RResidency (d_of_nat 1048576) Bytes True 1400000000 2400000000 '''',
      example_ev 8 r exA Release RMemory (d_of_nat 1) Count False 2600000000 0 '''',
      example_ev 9 r exA RequestEnd RGeneric d_zero Count False 2700000000 0 '''']"

definition example_basic :: "(double \<Rightarrow> u64) \<Rightarrow> string list" where
  "example_basic u =
     (let r = Id128 1 1; acc = reconcile_request u (basic_entries r) r
      in [''completed='' @ show_bool (ac_completed (ac_outcome acc)) @
          '' wall='' @ show_double (q_value (ac_wall_latency_s (ac_timing acc))) @
          ''s prefill='' @ show_double (q_value (ac_prefill_s (ac_timing acc))) @
          ''s decode='' @ show_double (q_value (ac_decode_s (ac_timing acc))) @
          ''s tokens='' @ show_nat (unat (ac_generated_tokens (ac_counts acc))) @
          '' kv='' @ show_double (q_value (ac_kv_allocated (ac_memory acc))) @
          ''B model_byte_seconds='' @ show_double (q_value (ac_model_byte_seconds (ac_memory acc)))])"

section \<open>Batches\<close>

text \<open>The lambda \<^verbatim>\<open>add\<close>, as the entries it appends.\<close>

definition batch_add :: "string \<Rightarrow> request_id \<Rightarrow> nat \<Rightarrow> double \<Rightarrow> u64 \<Rightarrow> ledger_entry list" where
  "batch_add b r tok gpu_s seq =
     [example_ev seq r exA RequestStart RGeneric d_zero Count False 1000000000 0 b,
      example_ev (seq + 1) r exA Decode RCompute (d_of_nat tok) Count True 1400000000 1500000000 b,
      example_ev (seq + 2) r exA GpuExecution RCompute gpu_s Seconds True 1400000000 1600000000 b,
      example_ev (seq + 3) r exA RequestEnd RGeneric d_zero Count False 1700000000 0 b]"

abbreviation exBatch :: batch_id where "exBatch \<equiv> Id128 0xB 1"

definition batch_entries :: "ledger_entry list" where
  "batch_entries =
     (let b = id_to_string exBatch
      in batch_add b (Id128 0x11 1) 10 (d_frac 1 10) 1 @ batch_add b (Id128 0x12 1) 20 (d_frac 2 10) 11 @
         batch_add b (Id128 0x13 1) 30 (d_frac 3 10) 21)"

definition example_allocation :: "batch_account \<Rightarrow> shared_allocation" where
  "example_allocation ba =
     allocate_shared (d_mul (ba_total_gpu_s ba) (d_of_nat 2)) (ba_members ba)
       (member_weights_for_policy (ba_member_accounts ba) ProportionalTokens) ProportionalTokens id_default"

definition example_batch :: "(double \<Rightarrow> u64) \<Rightarrow> string list" where
  "example_batch u =
     (let ba = reconcile_batch u batch_entries exBatch; alloc = example_allocation ba
      in [''batch members='' @ show_nat (length (ba_member_accounts ba)) @
          '' total_gpu_s='' @ show_double (ba_total_gpu_s ba)] @
         map (\<lambda>m. ''  member '' @ take 8 (id_to_string (ms_request m)) @
                '' token_share='' @ show_double (ms_weight m) @ '' cost='' @ show_double (ms_share m)) (sa_members alloc) @
         [''  unallocated_overhead='' @ show_double (sa_unallocated_overhead alloc) @
          '' reconciles='' @ show_bool (allocation_reconciles alloc)])"

section \<open>Reuse\<close>

definition reuse_entries :: "request_id \<Rightarrow> request_id \<Rightarrow> ledger_entry list" where
  "reuse_entries rc rw =
     [example_ev 1 rc exA RequestStart RGeneric d_zero Count False 1000000000 0 '''',
      example_ev 2 rc exA ModelResidency RResidency (d_of_nat 2097152) Bytes True 1400000000 2400000000 '''',
      example_ev 3 rc exA Prefill RCompute (d_frac 5 10) Seconds True 1400000000 1900000000 '''',
      example_ev 4 rc exA KvAllocate RKv (d_of_nat 8192) Bytes False 1200000000 0 '''',
      example_ev 5 rc exA RequestEnd RGeneric d_zero Count False 2500000000 0 '''',
      example_ev 6 rw exA RequestStart RGeneric d_zero Count False 1000000000 0 '''',
      example_ev 7 rw exA KvReuse RKv (d_of_nat 8192) Bytes False 1100000000 0 '''',
      example_ev 8 rw exA ReuseAvoided RCompute (d_frac 5 10) Seconds False 1200000000 0 '''',
      example_ev 9 rw exA KernelHit RCache (d_of_nat 1) Count False 1300000000 0 '''',
      example_ev 10 rw exA RequestEnd RGeneric d_zero Count False 1400000000 0 '''']"

abbreviation exCold :: request_id where "exCold \<equiv> Id128 0x21 1"
abbreviation exWarm :: request_id where "exWarm \<equiv> Id128 0x22 1"

definition reuse_account :: "(double \<Rightarrow> u64) \<Rightarrow> request_id \<Rightarrow> request_account" where
  "reuse_account u r = reconcile_request u (query_ledger (reuse_entries exCold exWarm) (by_request_id r)) r"

definition example_reuse :: "(double \<Rightarrow> u64) \<Rightarrow> string list" where
  "example_reuse u =
     (let cold = reuse_account u exCold; warm = reuse_account u exWarm;
          cp = show_double (q_value (ac_prefill_s (ac_timing cold)));
          wp = show_double (q_value (ac_prefill_s (ac_timing warm)))
      in [''cold:  prefill_s='' @ cp @ '' model_byte_seconds='' @ show_double (q_value (ac_model_byte_seconds (ac_memory cold))),
          ''warm:  prefill_s='' @ wp @ '' kv_reuse='' @ show_double (q_value (ac_kv_reuse (ac_memory warm))) @
            '' reuse_credit='' @ show_double (reuse_credit warm) @ '' reuse_rate='' @ show_double (reuse_rate warm),
          ''cold vs warm: prefill '' @ cp @ '' -> '' @ wp @ ''; reuse_credit '' @ show_double (reuse_credit warm)])"

section \<open>Speculation and retries\<close>

text \<open>The lambda \<^verbatim>\<open>mk\<close>, which ignores the generation it is given.\<close>

definition spec_ev :: "request_id \<Rightarrow> u64 \<Rightarrow> attempt_id \<Rightarrow> event_kind \<Rightarrow> nat \<Rightarrow> ledger_entry" where
  "spec_ev r seq at k v = example_ev seq r at k RCompute (d_of_nat v) Count True 1000000000 1000001000 ''''"

definition waste_entries :: "request_id \<Rightarrow> ledger_entry list" where
  "waste_entries r =
     [example_ev 1 r exA RequestStart RGeneric d_zero Count False 1000000000 0 '''',
      spec_ev r 2 exA SpeculationProposed 16,
      spec_ev r 3 exA SpeculationAccepted 10,
      spec_ev r 4 exA SpeculationRejected 6,
      example_ev 5 r exA Failure RGeneric d_zero Count False 1300000000 0 '''',
      example_ev 6 r exA Retry RGeneric (d_of_nat 1) Count False 1400000000 0 '''',
      example_ev 7 r exA2 RequestStart RGeneric d_zero Count False 1500000000 0 '''',
      spec_ev r 8 exA2 Decode 32,
      example_ev 9 r exA2 RequestEnd RGeneric d_zero Count False 1700000000 0 '''']"

definition example_waste :: "(double \<Rightarrow> u64) \<Rightarrow> string list" where
  "example_waste u =
     (let r = Id128 0x31 1; acc = reconcile_request u (waste_entries r) r; c = ac_counts acc;
          rejected = show_nat (unat (ac_spec_rejected c))
      in [''completed='' @ show_bool (ac_completed (ac_outcome acc)) @
          '' retries='' @ show_nat (unat (ac_retries c)) @ '' attempts='' @ show_nat (ac_attempt_count (ac_outcome acc)),
          ''spec proposed/accepted/rejected = '' @ show_nat (unat (ac_spec_proposed c)) @ ''/'' @
          show_nat (unat (ac_spec_accepted c)) @ ''/'' @ rejected,
          ''generated_tokens='' @ show_nat (unat (ac_generated_tokens c)) @ '' (rejected '' @ rejected @ '' NOT counted as output)'',
          ''failed_work_s='' @ show_double (q_value (ac_failed_attempt_work (ac_work acc))) @
          '' waste_ratio='' @ show_double (waste_ratio acc)])"

section \<open>Pricing\<close>

definition priced_entries :: "request_id \<Rightarrow> ledger_entry list" where
  "priced_entries r =
     [example_ev 1 r exA RequestStart RGeneric d_zero Count False 1000000000 0 '''',
      example_ev 2 r exA GpuExecution RCompute (d_of_nat 1) Seconds True 1400000000 2400000000 '''',
      example_ev 3 r exA TransferH2D RTransfer (d_of_nat 536870912) Bytes False 1300000000 0 '''',
      example_ev 4 r exA RequestEnd RGeneric d_zero Count False 2500000000 0 '''']"

definition cheap :: pricing_policy where
  "cheap = policy_default\<lparr>pp_id := Id128 1 1, pp_generation := 1, pp_currency := ''usd'',
     pp_rates := rates_default\<lparr>pr_gpu_per_second := d_of_nat 1, pr_transfer_per_gib := d_frac 5 100\<rparr>\<rparr>"

definition premium :: pricing_policy where
  "premium = cheap\<lparr>pp_id := Id128 2 2, pp_generation := 2,
     pp_rates := (pp_rates cheap)\<lparr>pr_gpu_per_second := d_of_nat 4, pr_transfer_per_gib := d_frac 5 10\<rparr>\<rparr>"

definition example_pricing :: "(double \<Rightarrow> u64) \<Rightarrow> string list" where
  "example_pricing u =
     (let r = Id128 0x41 1; acc = reconcile_request u (priced_entries r) r;
          gpu_before = q_value (ac_gpu_active_s (ac_timing acc));
          a = apply_pricing acc cheap; b = apply_pricing acc premium
      in [''cheap:   total='' @ show_double (cost_total a) @ '' '' @ cr_currency a,
          ''premium: total='' @ show_double (cost_total b) @ '' '' @ cr_currency b,
          ''physical gpu_s unchanged = '' @ show_double gpu_before @ '' (pricing independent)'',
          ''both reconcile = '' @ show_bool (cost_reconciles a) @ ''/'' @ show_bool (cost_reconciles b)])"

section \<open>Persistence\<close>

definition saved_entries :: "request_id \<Rightarrow> ledger_entry list" where
  "saved_entries r =
     [example_ev 1 r exA RequestStart RGeneric d_zero Count False 1000000000 0 '''',
      example_ev 2 r exA Decode RCompute (d_of_nat 8) Count True 1400000000 1600000000 '''',
      example_ev 3 r exA RequestEnd RGeneric d_zero Count False 1700000000 0 '''']"

text \<open>The results of saving and replaying are not looked at.\<close>

definition example_persistence :: "device \<Rightarrow> disk \<Rightarrow> (string list \<times> disk) option" where
  "example_persistence dev d =
     (let path = ''example_ledger.db''; es = saved_entries (Id128 0x51 1);
          d = snd (save_snapshot dev d es example_ledger path)
      in case load d path of
           None \<Rightarrow> None
         | Some lr \<Rightarrow>
             (case replay_into d None (ledger_new example_ledger) path of
                None \<Rightarrow> None
              | Some (_, fresh) \<Rightarrow>
                  let fp = ledger_fingerprint (snapshot fresh)
                  in Some ([''saved/loaded '' @ show_nat (length (lr_entries lr)) @ '' entries; fingerprint '' @
                              fingerprint_to_string (lr_fingerprint lr),
                            ''replayed '' @ show_nat (ledger_size fresh) @ '' entries; fingerprint '' @
                              fingerprint_to_string fp @ '' (stable='' @ show_bool (lr_fingerprint lr = fp) @ '')''],
                           d(path := None))))"

definition examples_main :: "(double \<Rightarrow> u64) \<Rightarrow> device \<Rightarrow> disk \<Rightarrow> prog_exit \<times> string list \<times> disk" where
  "examples_main u dev d =
     (let out = heading ''1. Basic request accounting'' @ example_basic u @
            heading ''2. Batch cost attribution'' @ example_batch u @
            heading ''3. Residency + reuse economics (cold vs warm)'' @ example_reuse u @
            heading ''4. Speculation + retry/waste accounting'' @ example_waste u @
            heading ''5. Pricing-policy recalculation'' @ example_pricing u @
            heading ''6. Persistence / replay''
      in case example_persistence dev d of
           None \<Rightarrow> (BadRead, out, snd (save_snapshot dev d (saved_entries (Id128 0x51 1)) example_ledger ''example_ledger.db''))
         | Some (ls, d) \<Rightarrow> (Exit 0 [], out @ ls @ ['''', ''EXAMPLES_DONE''], d))"

section \<open>The consumer\<close>

definition consumer_ev ::
    "u64 \<Rightarrow> event_kind \<Rightarrow> resource_kind \<Rightarrow> nat \<Rightarrow> bool \<Rightarrow> u64 \<Rightarrow> u64 \<Rightarrow> ledger_entry" where
  "consumer_ev i k rk v has_end s e =
     ev (Id128 i 1) (Id128 0x1234 1) exA k rk (d_of_nat v) Count has_end s e example_ledger (Id128 0x99 1)
       (Id128 0xAA 1) (Id128 0xB007 1) (Generation 1) (Generation 1) (Generation 1) (Generation 1) (Id128 0x3001 1)"

definition consumer_entries :: "ledger_entry list" where
  "consumer_entries =
     [consumer_ev 1 RequestStart RGeneric 0 False 1000000000 0,
      consumer_ev 2 Decode RCompute 16 True 1400000000 1600000000,
      consumer_ev 3 RequestEnd RGeneric 0 False 1700000000 0]"

definition consumer_policy :: pricing_policy where
  "consumer_policy = policy_default\<lparr>pp_id := Id128 1 1, pp_generation := 1, pp_currency := ''usd'',
     pp_rates := rates_default\<lparr>pr_gpu_per_second := d_of_nat 2\<rparr>\<rparr>"

definition consumer_main :: "(double \<Rightarrow> u64) \<Rightarrow> device \<Rightarrow> disk \<Rightarrow> prog_exit \<times> string list \<times> disk" where
  "consumer_main u dev d =
     (let snap = snapshot (append_all None (ledger_new example_ledger) consumer_entries);
          acc = reconcile_request u snap (Id128 0x1234 1);
          path = ''consumer_ledger.db''
      in if \<not> ac_completed (ac_outcome acc) \<or> ac_generated_tokens (ac_counts acc) \<noteq> 16 \<or> ac_attempt_count (ac_outcome acc) \<noteq> 1
         then (Exit 1 ''downstream consumer FAIL'', [], d)
         else if \<not> cost_reconciles (apply_pricing acc consumer_policy) then (Exit 1 ''downstream cost FAIL'', [], d)
         else case save_snapshot dev d snap example_ledger path of
           (Inl _, d) \<Rightarrow> (Exit 1 ''save FAIL'', [], d)
         | (Inr _, d) \<Rightarrow>
             (case load d path of
                None \<Rightarrow> (BadRead, [], d)
              | Some rl \<Rightarrow>
                  if \<not> lr_ok rl \<or> length (lr_entries rl) \<noteq> 3 then (Exit 1 ''reload FAIL'', [], d(path := None))
                  else (Exit 0 [], [''downstream consumer PASS''], d(path := None))))"

section \<open>Their entries\<close>

lemma ev_simps [simp]:
  "e_id (ev i req at k rk v un he s e l t w b ep rg atg ag d) = i"
  "e_request (ev i req at k rk v un he s e l t w b ep rg atg ag d) = req"
  "e_attempt (ev i req at k rk v un he s e l t w b ep rg atg ag d) = at"
  "e_event_kind (ev i req at k rk v un he s e l t w b ep rg atg ag d) = k"
  "e_resource_kind (ev i req at k rk v un he s e l t w b ep rg atg ag d) = rk"
  "e_quantity (ev i req at k rk v un he s e l t w b ep rg atg ag d) = \<lparr>q_value = v, q_unit = un, q_provenance = Measured\<rparr>"
  "e_start_ts_ns (ev i req at k rk v un he s e l t w b ep rg atg ag d) = s"
  "e_end_ts_ns (ev i req at k rk v un he s e l t w b ep rg atg ag d) = e"
  "e_has_end (ev i req at k rk v un he s e l t w b ep rg atg ag d) = he"
  "e_metadata (ev i req at k rk v un he s e l t w b ep rg atg ag d) = []"
  by (simp_all add: ev_def)

lemma payload_ev: "length (entry_payload (ev i req at k rk v un he s e l t w b ep rg atg ag d)) = 353"
  by (simp add: entry_payload_def ev_def put_opt_id_def put_quantity_def put_source_def put_authority_def put_metadata_def)

lemma encodable_ev:
  assumes "isfinite v" "d_nn v" "un = Count \<longrightarrow> d_eq (d_floor v) v"
  shows "content_is_valid (ev i req at k rk v un he s e l t w b ep rg atg ag d)"
    and "encodable (ev i req at k rk v un he s e l t w b ep rg atg ag d)"
    and "length (frame_of (ev i req at k rk v un he s e l t w b ep rg atg ag d)) = 361"
  using assms payload_ev [of i req at k rk v un he s e l t w b ep rg atg ag d]
  by (simp_all add: content_is_valid_iff encodable_def encode_entry_def frame_of_def q_is_integral_def metadata_ok_def map_wf_def
      d_lt_zero_iff d_nn_def not_less)

lemmas encodable_count = encodable_ev [OF conjunct1 [OF nat_value] conjunct1 [OF conjunct2 [OF nat_value]]
    impI [OF conjunct2 [OF conjunct2 [OF nat_value]]]]

lemma example_plain: "example_ev i req at k rk v un he s e '''' =
    ev (Id128 i 1) req at k rk v un he s e example_ledger (Id128 0x99 1) (Id128 0xAA 1) (Id128 0xB007 1)
        (Generation 1) (Generation 1) (Generation 1) (Generation 1) (Id128 0x3001 1)"
  by (simp add: example_ev_def ev_def)

lemma dur_ev:
  "dur_sec (ev i req at k rk v un he s e l t w b ep rg atg ag d) = (if he then sec (if s \<le> e then e - s else 0) else d_zero)"
  by (simp add: dur_sec_def duration_ns_def)

lemmas count_zero = d_of_nat_0 [symmetric]

lemma saved_parts:
  "list_all encodable (saved_entries r)" "distinct (map e_id (saved_entries r))"
  "length (frames_of (saved_entries r)) = 3 * 361" "list_all content_is_valid (saved_entries r)"
  by (simp_all add: saved_entries_def example_plain encodable_count count_zero del: d_of_nat_0)

lemma consumer_parts:
  "list_all encodable consumer_entries" "distinct (map e_id consumer_entries)"
  "length (frames_of consumer_entries) = 3 * 361" "list_all content_is_valid consumer_entries"
  by (simp_all add: consumer_entries_def consumer_ev_def encodable_count del: d_of_nat_0)

lemma consumer_snapshot: "snapshot (append_all None (ledger_new example_ledger) consumer_entries) = consumer_entries"
  by (rule appended_all(1) [OF consumer_parts(4,2)])

section \<open>Their accounts\<close>

lemma sec_at_most: "unat ns \<le> n * 1000000000 \<Longrightarrow> n < 2 ^ 53 \<Longrightarrow> unat ns < 2 ^ 53 \<Longrightarrow> at_most n (sec ns)"
proof -
  assume a: "unat ns \<le> n * 1000000000" "n < 2 ^ 53" "unat ns < 2 ^ 53"
  have "unat ns * d_unit \<le> n * d_unit * 1000000000"
    using mult_le_mono1 [OF a(1), of d_unit] by (simp add: ac_simps)
  from round_at_most [OF _ this a(2)] sec_value [OF a(3)] show ?thesis
    by (simp add: sec_frac [OF a(3)] at_most_def d_frac_def isfinite_def)
qed

lemma tally_bytes_fold: "ty_bytes (tally_of u es) = foldl bytes_step (ty_bytes tally_init) es"
  by (simp add: tally_of_def tally_fold)

lemmas account_folds = account_parts transfers_of_def attempts_of tally_folds tally_bytes_fold

lemma consumer_attempts:
  "foldl (attempts_step u) [] consumer_entries =
    [(exA, attempt_default\<lparr>at_completed := True, at_terminal_ns := 1700000000,
       at_decode_s := d_add d_zero (sec 200000000), at_exec_s := d_add d_zero (sec 200000000),
       at_gpu_s := d_add d_zero (sec 200000000), at_gen_tokens := 16\<rparr>)]"
  by (simp add: consumer_entries_def consumer_ev_def attempts_step_def attempt_step_def attempt_default_def dur_ev max_def Let_def)

lemma consumer_account:
  "ac_completed (ac_outcome (reconcile_request u consumer_entries r))"
  "ac_generated_tokens (ac_counts (reconcile_request u consumer_entries r)) = 16"
  "ac_attempt_count (ac_outcome (reconcile_request u consumer_entries r)) = 1"
  "account_at_most 1 (reconcile_request u consumer_entries r)"
proof -
  let ?d = "d_add d_zero (sec 200000000)"
  have d: "at_most 1 ?d"
    by (rule at_most_sum [of 0 _ 1]) (simp_all add: sec_at_most)
  have t: "foldl time_step (ty_time tally_init) consumer_entries = ty_time tally_init"
    "foldl bytes_step (ty_bytes tally_init) consumer_entries = ty_bytes tally_init"
    "tc_c_writes (foldl (counts_step u) (ty_counts tally_init) consumer_entries) = 0"
    by (simp_all add: consumer_entries_def consumer_ev_def time_step_def bytes_step_def counts_step_def tally_init_def)
  show "ac_completed (ac_outcome (reconcile_request u consumer_entries r))"
    "ac_generated_tokens (ac_counts (reconcile_request u consumer_entries r)) = 16"
    "ac_attempt_count (ac_outcome (reconcile_request u consumer_entries r)) = 1"
    by (simp_all add: account_parts attempts_of consumer_attempts winning_single useful_single successful_def attempt_default_def)
  show "account_at_most 1 (reconcile_request u consumer_entries r)"
    by (simp add: account_at_most_def account_folds t consumer_attempts winning_single useful_single
        successful_def attempt_default_def waste_of_def waste_step_def attempt_at_def d_zero_plus_zero d [simplified])
      (simp add: tally_init_def d)
qed

lemma priced_attempts:
  "foldl (attempts_step u) [] (priced_entries r) =
    [(exA, attempt_default\<lparr>at_completed := True, at_terminal_ns := 2500000000,
       at_exec_s := d_add d_zero (sec 1000000000), at_gpu_s := d_add d_zero (sec 1000000000)\<rparr>)]"
  by (simp add: priced_entries_def example_plain attempts_step_def attempt_step_def attempt_default_def dur_ev max_def Let_def)

lemma priced_account: "account_at_most 536870912 (reconcile_request u (priced_entries r) r)"
proof -
  have d: "at_most 536870912 (d_add d_zero (sec 1000000000))" "at_most 536870912 (d_add d_zero (d_of_nat 536870912))"
    by (rule at_most_sum [of 0 _ 536870912]; simp add: sec_at_most at_most_of_nat)+
  have t: "tt_recompute_s (foldl time_step (ty_time tally_init) (priced_entries r)) = d_zero"
    "foldl bytes_step (ty_bytes tally_init) (priced_entries r) =
      (ty_bytes tally_init)\<lparr>tb_h2d := d_add d_zero (d_of_nat 536870912)\<rparr>"
    "tc_c_writes (foldl (counts_step u) (ty_counts tally_init) (priced_entries r)) = 0"
    by (simp_all add: priced_entries_def example_plain time_step_def bytes_step_def counts_step_def tally_init_def)
  show ?thesis
    by (simp add: account_at_most_def account_folds t priced_attempts winning_single useful_single
        successful_def attempt_default_def waste_of_def waste_step_def attempt_at_def d_zero_plus_zero d [simplified])
      (simp add: tally_init_def d)
qed

lemma frac_at_most: "n \<le> m \<Longrightarrow> 0 < m \<Longrightarrow> n < 2 ^ 53 \<Longrightarrow> at_most 1 (d_frac n m)"
  using round_at_most [of m "n * d_unit" 1] d_frac_nn [of n m] by (simp add: at_most_def d_frac_def)

lemma policies_at_most: "rates_at_most 4 (pp_rates cheap)" "rates_at_most 4 (pp_rates premium)"
    "rates_at_most 2 (pp_rates consumer_policy)"
  using at_most_trans [OF frac_at_most [of 5 100], of 4] at_most_trans [OF frac_at_most [of 5 10], of 4]
  by (simp_all add: rates_at_most_def cheap_def premium_def consumer_policy_def rates_default_def policy_default_def at_most_of_nat)

lemma costs_reconcile:
  "cost_reconciles (apply_pricing (reconcile_request u (priced_entries r) r) cheap)"
  "cost_reconciles (apply_pricing (reconcile_request u (priced_entries r) r) premium)"
  "cost_reconciles (apply_pricing (reconcile_request u consumer_entries r) consumer_policy)"
  using total_at_most [OF priced_account policies_at_most(1), of u r] total_at_most [OF priced_account policies_at_most(2), of u r]
    total_at_most [OF consumer_account(4) policies_at_most(3), of u r]
  by (simp_all add: reconciles_iff at_most_finite)

text \<open>A failed first attempt: its speculation is waste, and nothing of it counts as output.\<close>

lemma waste_attempts:
  "foldl (attempts_step u) [] (waste_entries r) =
    [(exA, attempt_default\<lparr>at_failed := True, at_spec_rej_s := d_add d_zero (sec 1000), at_gen_tokens := 10\<rparr>),
     (exA2, attempt_default\<lparr>at_completed := True, at_terminal_ns := 1700000000,
       at_decode_s := d_add d_zero (sec 1000), at_exec_s := d_add d_zero (sec 1000),
       at_gpu_s := d_add d_zero (sec 1000), at_gen_tokens := 32\<rparr>)]"
  by (simp add: waste_entries_def spec_ev_def example_plain attempts_step_def attempt_step_def attempt_default_def dur_ev max_def
      Let_def id128_less_iff)

lemma waste_account:
  "ac_completed (ac_outcome (reconcile_request u (waste_entries r) r))"
  "ac_attempt_count (ac_outcome (reconcile_request u (waste_entries r) r)) = 2"
  "ac_generated_tokens (ac_counts (reconcile_request u (waste_entries r) r)) = 32"
  "ac_retries (ac_counts (reconcile_request u (waste_entries r) r)) = 1"
  "ac_spec_proposed (ac_counts (reconcile_request u (waste_entries r) r)) = 16"
  "ac_spec_accepted (ac_counts (reconcile_request u (waste_entries r) r)) = 10"
  "ac_spec_rejected (ac_counts (reconcile_request u (waste_entries r) r)) = 6"
  by (simp_all add: account_folds waste_attempts winning_def winner_step_def useful_attempt_def attempt_at_def attempt_default_def)
    (simp_all add: waste_entries_def spec_ev_def example_plain counts_step_def tally_init_def)

lemma example_waste_lines:
  "take 3 (example_waste u) =
     [''completed=1 retries=1 attempts=2'', ''spec proposed/accepted/rejected = 16/10/6'',
      ''generated_tokens=32 (rejected 6 NOT counted as output)'']"
  by (simp add: example_waste_def Let_def waste_account show_bool_def numeral_3_eq_3) (code_simp)

lemma example_pricing_line: "last (example_pricing u) = ''both reconcile = 1/1''"
  by (simp add: example_pricing_def Let_def costs_reconcile show_bool_def)

text \<open>Saving and reading back what both programs save.\<close>

lemma persistence_line:
  assumes "dv_openable dev ''example_ledger.db''" "1111 \<le> dv_room dev ''example_ledger.db''"
  shows "\<exists>fp d'. example_persistence dev d =
    Some ([''saved/loaded 3 entries; fingerprint '' @ fp, ''replayed 3 entries; fingerprint '' @ fp @ '' (stable=1)''], d') \<and>
    d' ''example_ledger.db'' = None"
proof -
  let ?es = "saved_entries (Id128 0x51 1)" and ?p = "''example_ledger.db''"
  have room: "28 + length (frames_of ?es) \<le> dv_room dev ?p" using assms(2) by (simp add: saved_parts(3))
  from save_then_load [OF saved_parts(1,2) assms(1) room] obtain d' r
    where r: "save_snapshot dev d ?es example_ledger ?p = (Inr (), d')" "load d' ?p = Some r" "lr_ok r"
      "lr_entries r = map normalize_entry ?es" "lr_fingerprint r = ledger_fingerprint ?es" by blast
  have "\<forall>e \<in> set (lr_entries r). content_is_valid e"
    using saved_parts(1) by (auto simp: r(4) list_all_iff encodable_valid)
  from replay_loaded [OF r(2,3) this, of example_ledger] obtain l
    where l: "replay_into d' None (ledger_new example_ledger) ?p = Some (Inr (), l)" "snapshot l = lr_entries r" by blast
  have n: "length ?es = 3" "ledger_size l = 3"
    using l(2) r(4) by (simp_all add: ledger_size_def snapshot_def saved_entries_def)
  have "show_nat 3 = ''3''" by code_simp
  then show ?thesis
    using r l n by (simp add: example_persistence_def Let_def show_bool_def)
qed


section \<open>Properties\<close>

lemma saved_is_loaded:
  assumes "save_snapshot dev d es i p = (Inr (), d')" "list_all encodable es" "distinct (map e_id es)"
  shows "\<exists>r. load d' p = Some r \<and> lr_ok r \<and> lr_entries r = map normalize_entry es"
proof -
  have "dv_openable dev p" using assms(1) by (auto simp: save_snapshot_def open_trunc_def split: if_splits)
  from save_snapshot_wrote(1) [OF assms(1,2) this] have "d' p = Some (header_of i @ frames_of es)"
    by (simp add: wrote_complete)
  then have "load d' p = load_finish i (map normalize_entry es, Scanned ())"
    using load_loop_frames [OF assms(2,3), of "[]" "[]"] by (simp add: load_header_of)
  then show ?thesis by (simp add: load_finish_def)
qed

text \<open>C38: The check of an installed library passes exactly when its file can be saved: the account it
  rebuilds is complete with 16 tokens in one attempt and its cost reconciles, whatever the platform
  and the disk, a file that was saved always reads back as three entries, and it is removed again.
  A device that can open the file and has 1111 bytes of room is enough.\<close>

theorem consumer_passes:
  "fst (consumer_main u dev d) =
     (case fst (save_snapshot dev d consumer_entries example_ledger ''consumer_ledger.db'') of
        Inl _ \<Rightarrow> Exit 1 ''save FAIL'' | Inr _ \<Rightarrow> Exit 0 []) \<and>
   (fst (consumer_main u dev d) = Exit 0 [] \<longrightarrow>
      fst (snd (consumer_main u dev d)) = [''downstream consumer PASS''] \<and>
      snd (snd (consumer_main u dev d)) ''consumer_ledger.db'' = None) \<and>
   (dv_openable dev ''consumer_ledger.db'' \<and> 1111 \<le> dv_room dev ''consumer_ledger.db'' \<longrightarrow>
      fst (consumer_main u dev d) = Exit 0 [])"
proof -
  let ?p = "''consumer_ledger.db''"
  note acc = consumer_account [of u "Id128 0x1234 1"] costs_reconcile(3) [of u "Id128 0x1234 1"]
  obtain res d' where s: "save_snapshot dev d consumer_entries example_ledger ?p = (res, d')"
    by (cases "save_snapshot dev d consumer_entries example_ledger ?p")
  have room: "res = Inr ()" if "dv_openable dev ?p" "1111 \<le> dv_room dev ?p"
    using save_snapshot_wrote(2) [OF s consumer_parts(1) that(1)] that(2) by (simp add: consumer_parts(3))
  show ?thesis
  proof (cases res)
    case (Inl m)
    with s room show ?thesis by (auto simp: consumer_main_def Let_def consumer_snapshot acc)
  next
    case (Inr x)
    then have "save_snapshot dev d consumer_entries example_ledger ?p = (Inr (), d')" using s by simp
    from saved_is_loaded [OF this consumer_parts(1,2)] obtain r
      where "load d' ?p = Some r" "lr_ok r" "lr_entries r = map normalize_entry consumer_entries" by blast
    moreover have "length consumer_entries = 3" by (simp add: consumer_entries_def)
    ultimately show ?thesis using s Inr by (simp add: consumer_main_def Let_def consumer_snapshot acc)
  qed
qed

theorem consumer_passes_witness:
  "fst (consumer_main (\<lambda>_. 0) plenty Map.empty) = Exit 0 [] \<and>
   fst (snd (consumer_main (\<lambda>_. 0) plenty Map.empty)) = [''downstream consumer PASS'']"
proof -
  have "dv_openable plenty ''consumer_ledger.db''" "1111 \<le> dv_room plenty ''consumer_ledger.db''"
    by (simp_all add: plenty_def)
  with consumer_passes [of "\<lambda>_. 0" plenty Map.empty] show ?thesis by metis
qed

text \<open>The walk-through ends normally and prints what its comments announce: two attempts, one
  retry, the rejected speculation not counted as output; both prices reconcile; and the ledger read
  back from the file, removed at the end, has the fingerprint of the one replayed from it.\<close>

theorem examples_report:
  assumes "dv_openable dev ''example_ledger.db''" "1111 \<le> dv_room dev ''example_ledger.db''"
  shows "\<exists>pre cost fp d'. examples_main u dev d =
    (Exit 0 [],
     pre @ [''completed=1 retries=1 attempts=2'', ''spec proposed/accepted/rejected = 16/10/6'',
            ''generated_tokens=32 (rejected 6 NOT counted as output)''] @
     cost @ [''both reconcile = 1/1''] @ heading ''6. Persistence / replay'' @
     [''saved/loaded 3 entries; fingerprint '' @ fp, ''replayed 3 entries; fingerprint '' @ fp @ '' (stable=1)'',
      '''', ''EXAMPLES_DONE''], d') \<and> d' ''example_ledger.db'' = None"
proof -
  from persistence_line [OF assms, of d] obtain fp d' where p: "d' ''example_ledger.db'' = None"
    "example_persistence dev d =
      Some ([''saved/loaded 3 entries; fingerprint '' @ fp, ''replayed 3 entries; fingerprint '' @ fp @ '' (stable=1)''], d')"
    by blast
  have w: "example_waste u =
      [''completed=1 retries=1 attempts=2'', ''spec proposed/accepted/rejected = 16/10/6'',
       ''generated_tokens=32 (rejected 6 NOT counted as output)''] @ drop 3 (example_waste u)"
    using append_take_drop_id [of 3 "example_waste u"] by (simp only: example_waste_lines)
  have "example_pricing u \<noteq> []" by (simp add: example_pricing_def Let_def)
  then have c: "example_pricing u = butlast (example_pricing u) @ [''both reconcile = 1/1'']"
    using append_butlast_last_id [of "example_pricing u"] by (simp add: example_pricing_line)
  show ?thesis
    by (rule exI [of _ "heading ''1. Basic request accounting'' @ example_basic u @
          heading ''2. Batch cost attribution'' @ example_batch u @
          heading ''3. Residency + reuse economics (cold vs warm)'' @ example_reuse u @
          heading ''4. Speculation + retry/waste accounting''"],
        rule exI [of _ "drop 3 (example_waste u) @ heading ''5. Pricing-policy recalculation'' @ butlast (example_pricing u)"],
        rule exI [of _ fp], rule exI [of _ d'])
      (subst examples_main_def, simp only: p Let_def option.case prod.case, subst w, subst c, simp only: append_assoc append_Cons append_Nil simp_thms)
qed

theorem examples_report_witness:
  "fst (examples_main (\<lambda>_. 0) plenty Map.empty) = Exit 0 []"
  using examples_report [of plenty "\<lambda>_. 0" Map.empty] by (auto simp: plenty_def)


end
