(* ===== verification/Benchmark.thy ===== *)
theory Benchmark
  imports Examples
begin

text \<open>
  \<^verbatim>\<open>iledger_benchmark.cpp\<close>: every operation of the library over one set of entries. The clock is a
  parameter: \<open>ms k\<close> is what the \<open>k\<close>-th measurement gives. So is the scheduler of the eight threads that
  append to one ledger: a list of the threads that take the next turns.
\<close>

section \<open>The synthetic entries\<close>

text \<open>\<^verbatim>\<open>make\<close> of \<^verbatim>\<open>tests/support.hpp\<close>: as \<open>ev\<close>, with the provenance given.\<close>

definition bench_make :: "u64 \<Rightarrow> u64 \<Rightarrow> nat \<Rightarrow> ledger_entry" where
  "bench_make seq r i =
     ev (Id128 seq 1) (Id128 (r + 1) 1) (Id128 (r + 1) 1)
       (if i mod 2 \<noteq> 0 then GpuExecution else Decode) RCompute
       (if i mod 2 \<noteq> 0 then d_frac 1 100 else d_of_nat 8)
       (if i mod 2 \<noteq> 0 then Seconds else Count)
       True (word_of_nat (1000 + i * 10)) (word_of_nat (1200 + i * 10))
       example_ledger (Id128 0x99 1) (Id128 0xAA 1) (Id128 0xB007 1)
       (Generation 1) (Generation 1) (Generation 1) (Generation 1) (Id128 0x3001 1)"

definition kRequests :: nat where "kRequests = 2000"
definition perReq :: nat where "perReq = 50"

text \<open>One turn of the inner loop; the sequence number counts the turns.\<close>

definition synthetic_entry :: "nat \<Rightarrow> nat \<Rightarrow> ledger_entry" where
  "synthetic_entry r i =
     (bench_make (word_of_nat (r * perReq + i + 1)) (word_of_nat r) i)
       \<lparr>e_metadata := [(''batch'', id_to_string (if r mod 10 = 0 then exBatch else Id128 0xA 1))]\<rparr>"

definition synthetic :: "ledger_entry list" where
  "synthetic = concat (map (\<lambda>r. map (synthetic_entry r) [0..<perReq]) [0..<kRequests])"

section \<open>The measured operations\<close>

definition bench_found :: "ledger \<Rightarrow> ledger_entry list \<Rightarrow> nat" where
  "bench_found l es = foldl (\<lambda>n e. case ledger_find l (e_id e) of None \<Rightarrow> n | Some _ \<Rightarrow> n + 1) 0 es"

definition bench_accounts :: "(double \<Rightarrow> u64) \<Rightarrow> ledger_entry list \<Rightarrow> request_account list" where
  "bench_accounts u snap =
     map (\<lambda>r. reconcile_request u (query_ledger snap (by_request_id r)) r) (distinct_requests snap)"

definition bench_recon :: "(double \<Rightarrow> u64) \<Rightarrow> ledger_entry list \<Rightarrow> nat" where
  "bench_recon u snap = foldl (\<lambda>n acc. n + rr_entries (ac_reconcile (ac_outcome acc))) 0 (bench_accounts u snap)"

definition bench_bytes :: "ledger_entry list \<Rightarrow> nat" where
  "bench_bytes es = foldl (\<lambda>n e. case encode_entry e of None \<Rightarrow> n | Some fr \<Rightarrow> n + length fr) 0 es"

text \<open>\<^term>\<open>None\<close> when the decoder reads outside the frame.\<close>

primrec bench_decoded :: "nat \<Rightarrow> ledger_entry list \<Rightarrow> nat option" where
  "bench_decoded n [] = Some n"
| "bench_decoded n (e # es) =
     (case encode_entry e of
        None \<Rightarrow> bench_decoded n es
      | Some fr \<Rightarrow>
          (case decode_entry fr of
             OutOfBounds \<Rightarrow> None
           | Decoded _ _ \<Rightarrow> bench_decoded (n + 1) es
           | Rejected \<Rightarrow> bench_decoded n es))"

definition bench_policy :: pricing_policy where
  "bench_policy = policy_default\<lparr>pp_id := Id128 0xCAFE 1, pp_generation := 1, pp_currency := ''usd'',
     pp_rates := rates_default\<lparr>pr_gpu_per_second := d_of_nat 1, pr_transfer_per_gib := d_frac 1 10\<rparr>\<rparr>"

definition bench_cost :: "request_account list \<Rightarrow> double" where
  "bench_cost accounts = foldl (\<lambda>c a. d_add c (cost_total (apply_pricing a bench_policy))) d_zero accounts"

text \<open>
  The eight threads: thread \<open>th\<close> appends the entries at \<open>th\<close>, \<open>th + 8\<close> and so on. A turn goes to the
  thread the schedule names, if it has anything left; after the schedule the threads finish one by one.
\<close>

definition thread_slice :: "ledger_entry list \<Rightarrow> nat \<Rightarrow> ledger_entry list" where
  "thread_slice es th = map (\<lambda>i. es ! i) (filter (\<lambda>i. i mod 8 = th) [0..<length es])"

fun run_threads :: "nat list \<Rightarrow> 'a list list \<Rightarrow> 'a list" where
  "run_threads [] xss = concat xss"
| "run_threads (i # picks) xss =
     (if i < length xss then
        (case xss ! i of
           [] \<Rightarrow> run_threads picks xss
         | x # xs \<Rightarrow> x # run_threads picks (xss[i := xs]))
      else run_threads picks xss)"

definition bench_concurrent :: "nat list \<Rightarrow> ledger_entry list \<Rightarrow> ledger" where
  "bench_concurrent picks es =
     append_all None (ledger_new example_ledger) (run_threads picks (map (thread_slice es) [0..<8]))"

section \<open>The program\<close>

text \<open>From the timing of the appends to the encoding, and from the saving on.\<close>

definition bench_first :: "(double \<Rightarrow> u64) \<Rightarrow> (nat \<Rightarrow> double) \<Rightarrow> ledger_entry list \<Rightarrow> ledger \<Rightarrow> string list" where
  "bench_first u ms es l =
     (let n = show_nat (length es); snap = snapshot l; accounts = bench_accounts u snap; agg = aggregate_accounts accounts;
          ba = reconcile_batch u snap exBatch
      in [''append: '' @ n @ '' in '' @ show_double (ms 0) @ '' ms ('' @
            show_double (d_div (d_of_nat (length es)) (d_div (ms 0) (d_of_nat 1000))) @ '' entries/s)'',
          ''indexed lookup: '' @ show_nat (bench_found l es) @ ''/'' @ n @ '' in '' @ show_double (ms 1) @ '' ms'',
          ''request reconstruction: '' @ show_nat (bench_recon u snap) @ '' entries accounted in '' @ show_double (ms 2) @ '' ms'',
          ''aggregate: '' @ show_nat (length accounts) @ '' accounts in '' @ show_double (ms 3) @ '' ms; cost/token='' @
            show_double (ag_cost_per_token agg) @ '' gpu_s/token='' @ show_double (ag_gpu_seconds_per_token agg),
          ''batch reconcile (batch_id b1): '' @ show_nat (length (ba_members ba)) @ '' members in '' @ show_double (ms 4) @ '' ms'',
          ''binary encode: '' @ n @ '' entries -> '' @ show_nat (drop_bit 10 (bench_bytes es)) @ '' KiB in '' @
            show_double (ms 5) @ '' ms''])"

definition bench_last ::
    "(double \<Rightarrow> u64) \<Rightarrow> (nat \<Rightarrow> double) \<Rightarrow> nat list \<Rightarrow> ledger_entry list \<Rightarrow> ledger_entry list \<Rightarrow> load_result \<Rightarrow> string list" where
  "bench_last u ms picks es snap rl =
     (let accounts = bench_accounts u snap
      in [''persistence save: '' @ show_double (ms 7) @ '' ms; reload: '' @ show_double (ms 8) @ '' ms; ok='' @ show_bool (lr_ok rl),
          ''pricing recompute: '' @ show_nat (length accounts) @ '' in '' @ show_double (ms 9) @ '' ms; total='' @
            show_double (bench_cost accounts),
          ''replay (fresh append): '' @ show_nat (ledger_size (append_all None (ledger_new example_ledger) snap)) @
            '' in '' @ show_double (ms 10) @ '' ms'',
          ''concurrent ingestion (8 threads): '' @ show_nat (ledger_size (bench_concurrent picks es)) @
            '' in '' @ show_double (ms 11) @ '' ms'',
          ''BENCHMARK_DONE''])"

definition bench_run ::
    "(double \<Rightarrow> u64) \<Rightarrow> (nat \<Rightarrow> double) \<Rightarrow> nat list \<Rightarrow> device \<Rightarrow> disk \<Rightarrow> ledger_entry list \<Rightarrow>
     prog_exit \<times> string list \<times> disk" where
  "bench_run u ms picks dev d es =
     (let l = append_all None (ledger_new example_ledger) es; snap = snapshot l;
          out = bench_first u ms es l; tmp = ''bench_ledger.db''
      in case bench_decoded 0 es of
           None \<Rightarrow> (BadRead, out, d)
         | Some decoded \<Rightarrow>
             let out = out @ [''binary encode+decode: '' @ show_nat decoded @ '' round-trips in '' @ show_double (ms 6) @ '' ms''];
                 d = snd (save_snapshot dev d snap example_ledger tmp)
             in (case load d tmp of
                   None \<Rightarrow> (BadRead, out, d)
                 | Some rl \<Rightarrow> (Exit 0 [], out @ bench_last u ms picks es snap rl, d(tmp := None))))"

definition benchmark_main ::
    "(double \<Rightarrow> u64) \<Rightarrow> (nat \<Rightarrow> double) \<Rightarrow> nat list \<Rightarrow> device \<Rightarrow> disk \<Rightarrow> string list \<Rightarrow>
     prog_exit \<times> string list \<times> disk" where
  "benchmark_main u ms picks dev d args =
     (let path = (case args of [] \<Rightarrow> '''' | a # _ \<Rightarrow> a)
      in if path \<noteq> '''' then
           (case load d path of
              None \<Rightarrow> (BadRead, [], d)
            | Some lr \<Rightarrow>
                if \<not> lr_ok lr then (Exit 1 (''load: '' @ lr_reason lr), [], d)
                else case bench_run u ms picks dev d (lr_entries lr) of
                  (x, out, d) \<Rightarrow> (x, (''using loaded ledger '' @ [CHR 0x27] @ path @ [CHR 0x27] @ '' with '' @
                     show_nat (length (lr_entries lr)) @ '' entries'') # out, d))
         else case bench_run u ms picks dev d synthetic of
           (x, out, d) \<Rightarrow> (x, (''synthetic dataset: '' @ show_nat (length synthetic) @ '' entries, '' @
              show_nat kRequests @ '' requests ('' @ show_nat perReq @ '' each)'') # out, d))"

section \<open>Every interleaving appends the same entries\<close>

lemma mset_concat_update:
  assumes "i < length xss" "xss ! i = x # xs"
  shows "mset (concat xss) = add_mset x (mset (concat (xss[i := xs])))"
proof -
  have "xss = take i xss @ (x # xs) # drop (Suc i) xss" using id_take_nth_drop [OF assms(1)] assms(2) by simp
  then have "mset (concat xss) = mset (concat (take i xss @ (x # xs) # drop (Suc i) xss))" by metis
  then show ?thesis by (simp add: upd_conv_take_nth_drop [OF assms(1)])
qed

lemma run_threads_mset: "mset (run_threads picks xss) = mset (concat xss)"
  by (induction picks xss rule: run_threads.induct) (auto simp: mset_concat_update split: list.split)

lemma slices_mset: "mset (concat (map (thread_slice es) [0..<8])) = mset es"
proof -
  let ?js = "\<lambda>th. filter (\<lambda>i. i mod 8 = th) [0..<length es]"
  have "concat (map (thread_slice es) [0..<8]) = map (\<lambda>i. es ! i) (concat (map ?js [0..<8]))"
    by (simp add: thread_slice_def [abs_def] map_concat comp_def)
  moreover have "mset (concat (map ?js [0..<8])) = mset (filter (\<lambda>i. i mod 8 \<in> set [0..<8]) [0..<length es])"
    by (rule mset_concat_groups) simp
  ultimately have "mset (concat (map (thread_slice es) [0..<8])) = image_mset (\<lambda>i. es ! i) (mset [0..<length es])"
    by simp
  then show ?thesis by (metis map_nth mset_map)
qed

section \<open>What is counted\<close>

definition bench_ready :: "ledger_entry list \<Rightarrow> bool" where
  "bench_ready es = (list_all encodable es \<and> list_all content_is_valid es \<and> distinct (map e_id es))"

lemma found_all:
  assumes "ledger_inv l" "set es \<subseteq> set (snapshot l)"
  shows "bench_found l es = length es"
proof -
  have "ledger_find l (e_id e) \<noteq> None" if "e \<in> set es" for e
    using that assms by (auto simp: ledger_find_scan find_None_iff)
  then have "foldl (\<lambda>n e. case ledger_find l (e_id e) of None \<Rightarrow> n | Some _ \<Rightarrow> n + 1) k es = k + length es" for k
    by (induction es arbitrary: k) force+
  then show ?thesis by (simp add: bench_found_def)
qed

lemma foldl_sum: "foldl (\<lambda>n x. n + f x) k xs = k + sum_list (map f xs)" for k :: nat
  by (induction xs arbitrary: k) simp_all

lemma recon_all: "bench_recon u es = length (filter (\<lambda>e. \<not> is_zero (e_request e)) es)"
proof -
  let ?rs = "distinct_requests es"
  have rs: "distinct ?rs" "set ?rs = e_request ` set (filter (\<lambda>e. \<not> is_zero (e_request e)) es)"
    by (simp_all add: distinct_requests_first_seen)
  have "rr_entries (ac_reconcile (ac_outcome (reconcile_request u xs r))) = length xs" for xs r
    by (simp add: reconcile_request_def outcome_of_def Let_def)
  then have "bench_recon u es = sum_list (map (\<lambda>r. length (filter (\<lambda>e. e_request e = r) es)) ?rs)"
    by (simp add: bench_recon_def foldl_sum bench_accounts_def query_by_request comp_def)
  also have "\<dots> = length (concat (map (\<lambda>r. filter (\<lambda>e. e_request e = r) es) ?rs))"
    by (simp add: length_concat comp_def)
  also have "\<dots> = length (filter (\<lambda>e. e_request e \<in> set ?rs) es)"
    using mset_concat_groups [OF rs(1), of e_request es] by (metis size_mset)
  also have "filter (\<lambda>e. e_request e \<in> set ?rs) es = filter (\<lambda>e. \<not> is_zero (e_request e)) es"
    by (rule filter_cong) (auto simp: rs(2))
  finally show ?thesis .
qed

lemma decoded_all: "list_all encodable es \<Longrightarrow> bench_decoded n es = Some (n + length es)"
proof (induction es arbitrary: n)
  case (Cons e es)
  then have "decode_entry (frame_of e) = Decoded (normalize_entry e) (length (frame_of e))"
    using decode_encode_append [OF _ encode_frame_of, of e "[]"] by simp
  with Cons show ?case by (simp add: encode_frame_of)
qed simp

lemma concurrent_all:
  assumes "bench_ready es"
  shows "mset (snapshot (bench_concurrent picks es)) = mset es" "ledger_size (bench_concurrent picks es) = length es"
proof -
  let ?zs = "run_threads picks (map (thread_slice es) [0..<8])"
  have m: "mset ?zs = mset es" by (simp only: run_threads_mset slices_mset)
  then have "mset (map e_id ?zs) = mset (map e_id es)" by (simp only: mset_map)
  then have d: "distinct (map e_id ?zs)" using assms mset_eq_imp_distinct_iff unfolding bench_ready_def by blast
  have "list_all content_is_valid ?zs"
    using assms mset_eq_setD [OF m] unfolding bench_ready_def list_all_iff by blast
  from appended_all [OF this d, of example_ledger] m
  show "mset (snapshot (bench_concurrent picks es)) = mset es" "ledger_size (bench_concurrent picks es) = length es"
    by (simp_all only: bench_concurrent_def) (metis size_mset)
qed


section \<open>The synthetic entries\<close>

lemma synthetic_fields [simp]:
  "e_id (synthetic_entry r i) = Id128 (word_of_nat (r * perReq + i + 1)) 1"
  "e_request (synthetic_entry r i) = Id128 (word_of_nat r + 1) 1"
  "e_resource_kind (synthetic_entry r i) = RCompute"
  "q_value (e_quantity (synthetic_entry r i)) = (if i mod 2 \<noteq> 0 then d_frac 1 100 else d_of_nat 8)"
  "e_metadata (synthetic_entry r i) = [(''batch'', id_to_string (if r mod 10 = 0 then exBatch else Id128 0xA 1))]"
  by (simp_all add: synthetic_entry_def bench_make_def)

lemma id_string_length: "length (id_to_string x) = 32"
  by (simp add: id_to_string_def to_bytes_def hex_of_bytes_def be64_bytes_def)

lemma synthetic_entry_ready: "encodable (synthetic_entry r i)" "content_is_valid (synthetic_entry r i)"
proof -
  have v: "isfinite (d_frac 1 100)" "d_nn (d_frac 1 100)" "isfinite (d_of_nat 8)" "d_nn (d_of_nat 8)"
    "d_eq (d_floor (d_of_nat 8)) (d_of_nat 8)"
    using d_frac_nn [of 1 100] nat_value [of 8] by simp_all
  then show valid: "content_is_valid (synthetic_entry r i)"
    by (simp add: content_is_valid_iff synthetic_entry_def bench_make_def q_is_integral_def d_lt_zero_iff d_nn_def not_less)
  have "length (entry_payload (synthetic_entry r i)) = 398"
    by (simp add: entry_payload_def synthetic_entry_def bench_make_def ev_def put_opt_id_def put_quantity_def put_source_def
        put_authority_def put_metadata_def put_kv_def put_string_def id_string_length)
  with v valid show "encodable (synthetic_entry r i)"
    by (simp add: content_is_valid_iff encodable_def encode_entry_def metadata_ok_def map_wf_def string_fits_def
        id_string_length d_lt_zero_iff d_nn_def not_less)
qed


text \<open>The turns of the two loops in order: turn \<open>k\<close> is turn \<open>k mod 50\<close> of request \<open>k div 50\<close>.\<close>

lemma nested_turns:
  "0 < m \<Longrightarrow> concat (map (\<lambda>r. map (f r) [0..<m]) [0..<n]) = map (\<lambda>k. f (k div m) (k mod m)) [0..<n * m]"
proof (induction n)
  case (Suc n)
  have "map (\<lambda>k. f (k div m) (k mod m)) [n * m..<n * m + m] = map (f n) [0..<m]"
    using Suc.prems by (simp add: list_eq_iff_nth_eq)
  then show ?case
    using Suc upt_add_eq_append [of 0 "n * m" m] by (simp add: add.commute)
qed simp

lemma synthetic_turns: "synthetic = map (\<lambda>k. synthetic_entry (k div perReq) (k mod perReq)) [0..<100000]"
  using nested_turns [of perReq synthetic_entry kRequests] by (simp add: synthetic_def perReq_def kRequests_def)

lemma synthetic_ready: "bench_ready synthetic" "length synthetic = 100000"
    "list_all (\<lambda>e. \<not> is_zero (e_request e)) synthetic"
proof -
  have "map e_id synthetic = map (\<lambda>k. Id128 (word_of_nat (k + 1)) 1) [0..<100000]"
    by (simp add: synthetic_turns div_mult_mod_eq [of _ perReq, simplified] flip: of_nat_mult of_nat_add)
  moreover have "inj_on (\<lambda>k. Id128 (word_of_nat (k + 1) :: u64) 1) {0..<100000}"
    by (rule inj_onI) (simp add: word_of_nat_eq_iff take_bit_nat_eq_self)
  ultimately have "distinct (map e_id synthetic)" by (simp add: distinct_map)
  then show "bench_ready synthetic"
    by (simp add: bench_ready_def list_all_iff synthetic_turns synthetic_entry_ready)
  show "length synthetic = 100000" by (simp add: synthetic_turns)
  show "list_all (\<lambda>e. \<not> is_zero (e_request e)) synthetic"
    by (simp add: synthetic_turns list_all_iff is_zero_def)
qed


lemma run_counts:
  assumes "bench_ready es" "dv_openable dev ''bench_ledger.db''"
    and "28 + length (frames_of es) \<le> dv_room dev ''bench_ledger.db''"
  shows "\<exists>d' rl. bench_run u ms picks dev d es =
      (Exit 0 [],
       bench_first u ms es (append_all None (ledger_new example_ledger) es) @
       [''binary encode+decode: '' @ show_nat (length es) @ '' round-trips in '' @ show_double (ms 6) @ '' ms''] @
       bench_last u ms picks es es rl, d') \<and>
    lr_ok rl \<and> d' ''bench_ledger.db'' = None"
proof -
  have es: "list_all encodable es" "list_all content_is_valid es" "distinct (map e_id es)"
    using assms(1) by (simp_all add: bench_ready_def)
  obtain d' rl where "save_snapshot dev d es example_ledger ''bench_ledger.db'' = (Inr (), d')"
      "load d' ''bench_ledger.db'' = Some rl" "lr_ok rl"
    using save_then_load [OF es(1,3) assms(2,3), of d example_ledger] by blast
  then show ?thesis
    using decoded_all [OF es(1), of 0]
    by (auto simp: bench_run_def Let_def appended_all(1) [OF es(2,3)])
qed

section \<open>Properties\<close>

text \<open>C37: The benchmark does the work it reports, whatever the clock says and however its eight threads
  are scheduled: of the 100000 synthetic entries all are appended and found again through the index,
  all are accounted for exactly once in the accounts of their requests, all decode after
  encoding, the saved ledger reads back, and both the replay and the concurrent appends end with
  all 100000; the file is removed.\<close>

theorem benchmark_completes:
  assumes "dv_openable dev ''bench_ledger.db''" "28 + length (frames_of synthetic) \<le> dv_room dev ''bench_ledger.db''"
  shows "\<exists>out d'. benchmark_main u ms picks dev d [] = (Exit 0 [], out, d') \<and> d' ''bench_ledger.db'' = None \<and>
    set [''indexed lookup: '' @ show_nat 100000 @ ''/'' @ show_nat 100000 @ '' in '' @ show_double (ms 1) @ '' ms'',
      ''request reconstruction: '' @ show_nat 100000 @ '' entries accounted in '' @ show_double (ms 2) @ '' ms'',
      ''binary encode+decode: '' @ show_nat 100000 @ '' round-trips in '' @ show_double (ms 6) @ '' ms'',
      ''persistence save: '' @ show_double (ms 7) @ '' ms; reload: '' @ show_double (ms 8) @ '' ms; ok=1'',
      ''replay (fresh append): '' @ show_nat 100000 @ '' in '' @ show_double (ms 10) @ '' ms'',
      ''concurrent ingestion (8 threads): '' @ show_nat 100000 @ '' in '' @ show_double (ms 11) @ '' ms''] \<subseteq> set out \<and>
    last out = ''BENCHMARK_DONE''"
proof -
  note ready = synthetic_ready(1) [unfolded bench_ready_def]
  from run_counts [OF synthetic_ready(1) assms, of u ms picks d] obtain d' rl
    where r: "bench_run u ms picks dev d synthetic = (Exit 0 [],
        bench_first u ms synthetic (append_all None (ledger_new example_ledger) synthetic) @
        [''binary encode+decode: '' @ show_nat (length synthetic) @ '' round-trips in '' @ show_double (ms 6) @ '' ms''] @
        bench_last u ms picks synthetic synthetic rl, d')" "lr_ok rl" "d' ''bench_ledger.db'' = None"
    by blast
  note app = appended_all [of synthetic example_ledger] ready synthetic_ready(2)
  have n: "bench_found (append_all None (ledger_new example_ledger) synthetic) synthetic = 100000"
      "bench_recon u synthetic = 100000" "ledger_size (bench_concurrent picks synthetic) = 100000"
    using app synthetic_ready(3) concurrent_all(2) [OF synthetic_ready(1), of picks]
    by (simp_all add: found_all recon_all filter_id_conv [THEN iffD2] list_all_iff)
  show ?thesis
    using r app n unfolding benchmark_main_def
    by (simp add: Let_def bench_first_def bench_last_def show_bool_def)
qed

theorem benchmark_completes_witness:
  "\<exists>out d'. benchmark_main (\<lambda>_. 0) (\<lambda>_. d_of_nat 1) [7, 7, 3]
     \<lparr>dv_openable = \<lambda>_. True, dv_room = \<lambda>_. 28 + length (frames_of synthetic)\<rparr> Map.empty [] = (Exit 0 [], out, d') \<and>
     last out = ''BENCHMARK_DONE''"
  using benchmark_completes [of "\<lparr>dv_openable = \<lambda>_. True, dv_room = \<lambda>_. 28 + length (frames_of synthetic)\<rparr>"
      "\<lambda>_. 0" "\<lambda>_. d_of_nat 1" "[7, 7, 3]" Map.empty]
  by (simp del: d_of_nat_0) blast


end
