(* ===== verification/Cursor.thy ===== *)
theory Cursor
  imports Codec
begin

text \<open>
  The objects behind the codec: \<^verbatim>\<open>ByteReader\<close> with its position and error flag over a buffer, and
  \<^verbatim>\<open>ByteWriter\<close> with its growing one. Theory \<open>Codec\<close> describes the same code as functions from
  bytes to a value and the bytes that are left; here each method is shown to implement its function,
  without ever looking outside the buffer.
\<close>

section \<open>ByteReader\<close>

record byte_reader =
  br_p :: bytes
  br_pos :: nat
  br_ok :: bool

definition br_new :: "bytes \<Rightarrow> byte_reader" where
  "br_new p = \<lparr>br_p = p, br_pos = 0, br_ok = True\<rparr>"

definition br_remaining :: "byte_reader \<Rightarrow> nat" where
  "br_remaining r = (if br_pos r \<le> length (br_p r) then length (br_p r) - br_pos r else 0)"

definition br_fail :: "byte_reader \<Rightarrow> byte_reader" where
  "br_fail r = r\<lparr>br_ok := False\<rparr>"

definition br_reset :: "byte_reader \<Rightarrow> byte_reader" where
  "br_reset r = r\<lparr>br_pos := 0, br_ok := True\<rparr>"

text \<open>
  A method returns whether it succeeded, with the value it stored, and the reader afterwards;
  \<^term>\<open>None\<close> stands for an access outside the buffer.
\<close>

type_synonym 'a reading = "byte_reader \<Rightarrow> ('a option \<times> byte_reader) option"

definition br_span :: "byte_reader \<Rightarrow> nat \<Rightarrow> nat \<Rightarrow> bytes option" where
  "br_span r i n = (if i + n \<le> length (br_p r) then Some (take n (drop i (br_p r))) else None)"

definition br_return :: "'a \<Rightarrow> 'a reading" where
  "br_return x r = Some (Some x, r)"

definition br_stop :: "'a reading" where
  "br_stop r = Some (None, r)"

text \<open>One read after another, and the call of \<^verbatim>\<open>fail()\<close> when a read did not succeed.\<close>

definition br_then :: "'a reading \<Rightarrow> ('a \<Rightarrow> 'b reading) \<Rightarrow> 'b reading" where
  "br_then m f r =
     (case m r of
        None \<Rightarrow> None
      | Some (None, r) \<Rightarrow> Some (None, r)
      | Some (Some x, r) \<Rightarrow> f x r)"

definition br_or_fail :: "'a reading \<Rightarrow> 'a reading" where
  "br_or_fail m r =
     (case m r of
        None \<Rightarrow> None
      | Some (None, r) \<Rightarrow> Some (None, br_fail r)
      | Some (Some x, r) \<Rightarrow> Some (Some x, r))"

definition br_u8 :: "u8 reading" where
  "br_u8 r =
     (if br_remaining r < 1 then Some (None, br_fail r)
      else case br_span r (br_pos r) 1 of
             None \<Rightarrow> None
           | Some bs \<Rightarrow> Some (Some (hd bs), r\<lparr>br_pos := br_pos r + 1\<rparr>))"

definition br_u16 :: "u16 reading" where
  "br_u16 = br_or_fail (br_then br_u8 (\<lambda>a. br_then br_u8 (\<lambda>b.
     br_return (push_bit 8 (ucast a) OR ucast b))))"

definition br_u32 :: "u32 reading" where
  "br_u32 = br_or_fail (br_then br_u8 (\<lambda>a. br_then br_u8 (\<lambda>b. br_then br_u8 (\<lambda>c. br_then br_u8 (\<lambda>d.
     br_return (push_bit 24 (ucast a) OR push_bit 16 (ucast b) OR push_bit 8 (ucast c) OR ucast d))))))"

definition br_u64 :: "u64 reading" where
  "br_u64 = br_or_fail (br_then br_u32 (\<lambda>hi. br_then br_u32 (\<lambda>lo.
     br_return (push_bit 32 (ucast hi) OR ucast lo))))"

definition br_bytes :: "nat \<Rightarrow> bytes reading" where
  "br_bytes n r =
     (if br_remaining r < n then Some (None, br_fail r)
      else case br_span r (br_pos r) n of
             None \<Rightarrow> None
           | Some bs \<Rightarrow> Some (Some bs, r\<lparr>br_pos := br_pos r + n\<rparr>))"

definition br_bool8 :: "bool reading" where
  "br_bool8 = br_or_fail (br_then br_u8 (\<lambda>v. br_return (v \<noteq> 0)))"

definition br_id :: "'tag id128 reading" where
  "br_id = br_or_fail (br_then (br_bytes kIdentityBytes) (\<lambda>b. br_return (from_bytes b)))"

definition br_string :: "string reading" where
  "br_string = br_then (br_or_fail br_u32) (\<lambda>len r.
     if br_remaining r < unat len then Some (None, br_fail r)
     else case br_span r (br_pos r) (unat len) of
            None \<Rightarrow> None
          | Some bs \<Rightarrow> Some (Some (bytes_string bs), r\<lparr>br_pos := br_pos r + unat len\<rparr>))"

section \<open>The fields of an entry\<close>

text \<open>The body of \<^verbatim>\<open>decode_entry\<close> after the checksum, read by read.\<close>

definition br_opt_id :: "(bool \<times> 'tag id128) reading" where
  "br_opt_id = br_then br_bool8 (\<lambda>has.
     if has then br_then br_id (\<lambda>x. br_return (True, x)) else br_return (False, id_default))"

definition br_kinds :: "(event_kind \<times> resource_kind) reading" where
  "br_kinds = br_then br_u8 (\<lambda>ek. br_then br_u8 (\<lambda>rk.
     if \<not> valid_event_kind ek \<or> \<not> valid_resource_kind rk then br_stop
     else br_return (event_kind_of ek, resource_kind_of rk)))"

definition br_quantity :: "quantity reading" where
  "br_quantity = br_then br_u64 (\<lambda>qbits. br_then br_u8 (\<lambda>qu. br_then br_u8 (\<lambda>qp.
     if \<not> valid_unit qu \<or> \<not> valid_provenance qp then br_stop
     else br_return \<lparr>q_value = Dbl qbits, q_unit = unit_of qu, q_provenance = provenance_of qp\<rparr>)))"

definition br_source :: "source_identity reading" where
  "br_source = br_then br_id (\<lambda>w. br_then br_id (\<lambda>b. br_then br_u64 (\<lambda>ag.
     br_return \<lparr>s_worker = w, s_boot = b, s_accounting_generation = Generation ag\<rparr>)))"

definition br_authority :: "authority_envelope reading" where
  "br_authority = br_then br_u64 (\<lambda>epoch. br_then br_id (\<lambda>boot. br_then br_u64 (\<lambda>rg. br_then br_u64 (\<lambda>agg.
     br_then br_id (\<lambda>att. br_then br_u64 (\<lambda>atg. br_then br_id (\<lambda>disp.
     br_return \<lparr>a_epoch = Generation epoch, a_worker_boot = boot,
            a_request_generation = Generation rg, a_accounting_generation = Generation agg,
            a_attempt = att, a_attempt_generation = Generation atg, a_dispatch = disp\<rparr>)))))))"

primrec br_kvs :: "nat \<Rightarrow> (string, string) omap \<Rightarrow> (string, string) omap reading" where
  "br_kvs 0 m = br_return m"
| "br_kvs (Suc n) m = br_then br_string (\<lambda>k. br_then br_string (\<lambda>v. br_kvs n (map_emplace k v m)))"

definition br_metadata :: "(string, string) omap reading" where
  "br_metadata = br_then br_u32 (\<lambda>meta_count. br_kvs (unat meta_count) [])"

definition br_entry :: "ledger_entry reading" where
  "br_entry =
     br_then br_u8 (\<lambda>marker. if marker \<noteq> kCodecEndianMarker then br_stop else
     br_then br_u32 (\<lambda>ver. if ver \<noteq> kSchemaVersion then br_stop else
     br_then br_id (\<lambda>i. br_then br_id (\<lambda>ledger. br_then br_id (\<lambda>tenant. br_then br_id (\<lambda>workload.
     br_then br_id (\<lambda>request. br_then br_id (\<lambda>model. br_then br_id (\<lambda>model_revision.
     br_then br_opt_id (\<lambda>(has_adapter, adapter).
     br_then br_id (\<lambda>attempt. br_then br_id (\<lambda>dispatch. br_then br_id (\<lambda>worker. br_then br_id (\<lambda>node.
     br_then br_id (\<lambda>device. br_then br_kinds (\<lambda>(ek, rk). br_then br_quantity (\<lambda>q.
     br_then br_u64 (\<lambda>start_ts. br_then br_u64 (\<lambda>end_ts. br_then br_bool8 (\<lambda>has_end.
     br_then br_source (\<lambda>source. br_then br_authority (\<lambda>authority.
     br_then br_opt_id (\<lambda>(has_ap, ap). br_then br_opt_id (\<lambda>(has_pp, pp). br_then br_metadata (\<lambda>metadata r.
     if br_remaining r \<noteq> 0 then br_stop r
     else if \<not> isfinite (q_value q) then br_stop r
     else if is_physical_resource rk \<and> d_lt (q_value q) d_zero then br_stop r
     else br_return
       \<lparr>e_id = i, e_ledger = ledger, e_tenant = tenant, e_workload = workload,
        e_request = request, e_model = model, e_model_revision = model_revision,
        e_has_adapter = has_adapter, e_adapter = adapter, e_attempt = attempt,
        e_dispatch = dispatch, e_worker = worker, e_node = node, e_device = device,
        e_event_kind = ek, e_resource_kind = rk, e_quantity = q,
        e_start_ts_ns = start_ts, e_end_ts_ns = end_ts, e_has_end = has_end,
        e_source = source, e_authority = authority, e_has_accounting_policy = has_ap,
        e_accounting_policy = ap, e_has_pricing_policy = has_pp, e_pricing_policy = pp,
        e_metadata = metadata\<rparr> r)))))))))))))))))))))))))"

section \<open>ByteWriter\<close>

type_synonym byte_writer = bytes

definition bw_u8 :: "byte_writer \<Rightarrow> u8 \<Rightarrow> byte_writer" where
  "bw_u8 w v = w @ [v]"

definition bw_u16 :: "byte_writer \<Rightarrow> u16 \<Rightarrow> byte_writer" where
  "bw_u16 w v = bw_u8 (bw_u8 w (ucast (drop_bit 8 v))) (ucast v)"

definition bw_u32 :: "byte_writer \<Rightarrow> u32 \<Rightarrow> byte_writer" where
  "bw_u32 w v = bw_u8 (bw_u8 (bw_u8 (bw_u8 w (ucast (drop_bit 24 v))) (ucast (drop_bit 16 v)))
     (ucast (drop_bit 8 v))) (ucast v)"

definition bw_u64 :: "byte_writer \<Rightarrow> u64 \<Rightarrow> byte_writer" where
  "bw_u64 w v = bw_u32 (bw_u32 w (ucast (drop_bit 32 v))) (ucast v)"

definition bw_bytes :: "byte_writer \<Rightarrow> bytes \<Rightarrow> byte_writer" where
  "bw_bytes w p = w @ p"

definition bw_bool8 :: "byte_writer \<Rightarrow> bool \<Rightarrow> byte_writer" where
  "bw_bool8 w v = bw_u8 w (if v then 1 else 0)"

definition bw_id :: "byte_writer \<Rightarrow> 'tag id128 \<Rightarrow> byte_writer" where
  "bw_id w x = bw_bytes w (to_bytes x)"

definition bw_string :: "byte_writer \<Rightarrow> string \<Rightarrow> byte_writer" where
  "bw_string w s =
     (if 0xFFFFFFFF < length s then w
      else bw_bytes (bw_u32 w (word_of_nat (length s))) (string_bytes s))"

text \<open>The writes of \<^verbatim>\<open>encode_entry\<close> up to \<^verbatim>\<open>w.data()\<close>, in order.\<close>

definition bw_opt_id :: "byte_writer \<Rightarrow> bool \<Rightarrow> 'tag id128 \<Rightarrow> byte_writer" where
  "bw_opt_id w has x = (let w = bw_bool8 w has in if has then bw_id w x else w)"

definition bw_entry :: "ledger_entry \<Rightarrow> byte_writer" where
  "bw_entry e =
     (let w = bw_u32 (bw_u8 [] kCodecEndianMarker) kSchemaVersion;
          w = bw_id (bw_id (bw_id (bw_id w (e_id e)) (e_ledger e)) (e_tenant e)) (e_workload e);
          w = bw_id (bw_id (bw_id w (e_request e)) (e_model e)) (e_model_revision e);
          w = bw_opt_id w (e_has_adapter e) (e_adapter e);
          w = bw_id (bw_id (bw_id w (e_attempt e)) (e_dispatch e)) (e_worker e);
          w = bw_id (bw_id w (e_node e)) (e_device e);
          w = bw_u8 (bw_u8 w (event_kind_val (e_event_kind e))) (resource_kind_val (e_resource_kind e));
          w = bw_u64 w (dbl_bits (q_value (e_quantity e)));
          w = bw_u8 (bw_u8 w (unit_val (q_unit (e_quantity e)))) (provenance_val (q_provenance (e_quantity e)));
          w = bw_bool8 (bw_u64 (bw_u64 w (e_start_ts_ns e)) (e_end_ts_ns e)) (e_has_end e);
          w = bw_id (bw_id w (s_worker (e_source e))) (s_boot (e_source e));
          w = bw_u64 w (gen_value (s_accounting_generation (e_source e)));
          a = e_authority e;
          w = bw_id (bw_u64 w (gen_value (a_epoch a))) (a_worker_boot a);
          w = bw_u64 (bw_u64 w (gen_value (a_request_generation a))) (gen_value (a_accounting_generation a));
          w = bw_u64 (bw_id w (a_attempt a)) (gen_value (a_attempt_generation a));
          w = bw_id w (a_dispatch a);
          w = bw_opt_id w (e_has_accounting_policy e) (e_accounting_policy e);
          w = bw_opt_id w (e_has_pricing_policy e) (e_pricing_policy e);
          w = bw_u32 w (word_of_nat (length (e_metadata e)))
      in foldl (\<lambda>w kv. bw_string (bw_string w (fst kv)) (snd kv)) w (e_metadata e))"

section \<open>A method implements its function\<close>

text \<open>What is left to read; the position stays inside the buffer.\<close>

definition br_valid :: "byte_reader \<Rightarrow> bool" where
  "br_valid r = (br_pos r \<le> length (br_p r))"

definition br_rest :: "byte_reader \<Rightarrow> bytes" where
  "br_rest r = drop (br_pos r) (br_p r)"

text \<open>
  The contract of a method: it never leaves the buffer, never changes it, keeps the position inside,
  succeeds exactly when the function does and with its value, and then leaves what the function
  leaves.
\<close>

locale cursor =
  fixes read :: "'a reading"
    and get :: "bytes \<Rightarrow> ('a \<times> bytes) option"
  assumes implements:
    "br_valid r \<Longrightarrow> \<exists>x r'. read r = Some (x, r') \<and> br_valid r' \<and> br_p r' = br_p r \<and>
       get (br_rest r) = map_option (\<lambda>v. (v, br_rest r')) x"
begin

lemma stays_inside: "br_valid r \<Longrightarrow> read r \<noteq> None"
  using implements by fastforce

lemma fresh: "get p = None \<longleftrightarrow> (\<exists>r'. read (br_new p) = Some (None, r'))"
  using implements [of "br_new p"] by (auto simp: br_valid_def br_new_def br_rest_def)

lemma delivers: "get p = Some (v, q) \<Longrightarrow> \<exists>r'. read (br_new p) = Some (Some v, r') \<and> br_rest r' = q"
proof -
  assume g: "get p = Some (v, q)"
  obtain x r' where "read (br_new p) = Some (x, r')" "get p = map_option (\<lambda>v. (v, br_rest r')) x"
    using implements [of "br_new p"] by (auto simp: br_valid_def br_new_def br_rest_def)
  with g show ?thesis by (cases x) auto
qed

end

text \<open>The public methods besides maintain the flag: it is cleared by every failure and by nothing else.\<close>

locale flagged_cursor = cursor +
  assumes failed: "read r = Some (None, r') \<Longrightarrow> \<not> br_ok r'"
    and kept: "read r = Some (Some x, r') \<Longrightarrow> br_ok r' = br_ok r"
begin

lemma flag: "br_valid r \<Longrightarrow> br_ok r \<Longrightarrow> \<exists>x r'. read r = Some (x, r') \<and> (br_ok r' \<longleftrightarrow> x \<noteq> None)"
  using implements [of r] failed kept by (metis not_None_eq)

end

text \<open>A decoder that is not continued: only the value it ends with matters.\<close>

locale decoder =
  fixes read :: "'a reading"
    and decode :: "bytes \<Rightarrow> 'a option"
  assumes decodes: "br_valid r \<Longrightarrow> \<exists>r'. read r = Some (decode (br_rest r), r') \<and> br_valid r'"

subsection \<open>Composition\<close>

lemma cursor_return: "cursor (br_return x) (\<lambda>r. Some (x, r))"
  by unfold_locales (simp add: br_return_def)

lemma cursor_stop: "cursor br_stop (\<lambda>r. None)"
  by unfold_locales (simp add: br_stop_def)

lemma cursor_then:
  assumes "cursor m g" "\<And>x. cursor (f x) (h x)"
  shows "cursor (br_then m f) (\<lambda>r. Option.bind (g r) (\<lambda>(x, r). h x r))"
proof
  fix r assume "br_valid r"
  then obtain x r' where r': "m r = Some (x, r')" "br_valid r'" "br_p r' = br_p r"
      "g (br_rest r) = map_option (\<lambda>v. (v, br_rest r')) x"
    using cursor.implements [OF assms(1)] by blast
  show "\<exists>y r''. br_then m f r = Some (y, r'') \<and> br_valid r'' \<and> br_p r'' = br_p r \<and>
      Option.bind (g (br_rest r)) (\<lambda>(x, r). h x r) = map_option (\<lambda>v. (v, br_rest r'')) y"
  proof (cases x)
    case None
    with r' show ?thesis by (simp add: br_then_def)
  next
    case (Some v)
    with r' show ?thesis
      using cursor.implements [OF assms(2), of r' v] by (simp add: br_then_def)
  qed
qed

lemma cursor_or_fail:
  assumes "cursor m g"
  shows "cursor (br_or_fail m) g"
proof
  fix r assume "br_valid r"
  then obtain x r' where "m r = Some (x, r')" "br_valid r'" "br_p r' = br_p r"
      "g (br_rest r) = map_option (\<lambda>v. (v, br_rest r')) x"
    using cursor.implements [OF assms] by blast
  then show "\<exists>y r''. br_or_fail m r = Some (y, r'') \<and> br_valid r'' \<and> br_p r'' = br_p r \<and>
      g (br_rest r) = map_option (\<lambda>v. (v, br_rest r'')) y"
    by (cases x) (simp_all add: br_or_fail_def br_fail_def br_valid_def)
qed

lemma cursor_if: "cursor a g \<Longrightarrow> cursor b h \<Longrightarrow> cursor (if P then a else b) (\<lambda>r. if P then g r else h r)"
  by (cases P) simp_all

lemma decoder_then:
  assumes "cursor m g" "\<And>x. decoder (f x) (h x)"
  shows "decoder (br_then m f) (\<lambda>r. Option.bind (g r) (\<lambda>(x, r). h x r))"
proof
  fix r assume "br_valid r"
  then obtain x r' where r': "m r = Some (x, r')" "br_valid r'"
      "g (br_rest r) = map_option (\<lambda>v. (v, br_rest r')) x"
    using cursor.implements [OF assms(1)] by blast
  then show "\<exists>r''. br_then m f r = Some (Option.bind (g (br_rest r)) (\<lambda>(x, r). h x r), r'') \<and> br_valid r''"
    using decoder.decodes [OF assms(2) r'(2)] by (cases x) (simp_all add: br_then_def)
qed

lemma decoder_if: "decoder a g \<Longrightarrow> decoder b h \<Longrightarrow> decoder (if P then a else b) (\<lambda>r. if P then g r else h r)"
  by (cases P) simp_all

lemma decoder_stop: "decoder br_stop (\<lambda>r. None)"
  by unfold_locales (simp add: br_stop_def)

lemmas cursor_rules = cursor_then cursor_return cursor_stop cursor_if

text \<open>The bytes between the position and the position after the read.\<close>

lemma cursor_span:
  "cursor (\<lambda>r. if br_remaining r < n then Some (None, br_fail r)
      else case br_span r (br_pos r) n of
        None \<Rightarrow> None | Some bs \<Rightarrow> Some (Some (f bs), r\<lparr>br_pos := br_pos r + n\<rparr>))
    (\<lambda>r. if length r < n then None else Some (f (take n r), drop n r))"
  by unfold_locales
    (auto simp: br_remaining_def br_valid_def br_rest_def br_span_def br_fail_def add.commute)

section \<open>The methods\<close>

text \<open>Success or failure decides the flag; a method that ends with \<^verbatim>\<open>fail()\<close> does so by construction.\<close>

definition flags :: "'a reading \<Rightarrow> bool" where
  "flags m = (\<forall>r x r'. m r = Some (x, r') \<longrightarrow> (case x of None \<Rightarrow> \<not> br_ok r' | Some _ \<Rightarrow> br_ok r' = br_ok r))"

lemma flags_span:
  "flags (\<lambda>r. if br_remaining r < n then Some (None, br_fail r)
      else case br_span r (br_pos r) n of
        None \<Rightarrow> None | Some bs \<Rightarrow> Some (Some (f bs), r\<lparr>br_pos := br_pos r + n\<rparr>))"
  by (auto simp: flags_def br_fail_def split: option.splits)

lemma flags_return: "flags (br_return x)"
  by (auto simp: flags_def br_return_def)

lemma flags_then: "flags m \<Longrightarrow> (\<And>x. flags (f x)) \<Longrightarrow> flags (br_then m f)"
  unfolding flags_def br_then_def by (fastforce split: option.splits prod.splits)

lemma flags_or_fail: "flags m \<Longrightarrow> flags (br_or_fail m)"
  unfolding flags_def br_or_fail_def by (auto simp: br_fail_def split: option.splits prod.splits)

lemma flagged: "cursor m g \<Longrightarrow> flags m \<Longrightarrow> flagged_cursor m g"
  by (intro flagged_cursor.intro flagged_cursor_axioms.intro) (fastforce simp: flags_def)+

lemma u8_span: "br_u8 = (\<lambda>r. if br_remaining r < 1 then Some (None, br_fail r)
      else case br_span r (br_pos r) 1 of
        None \<Rightarrow> None | Some bs \<Rightarrow> Some (Some (hd bs), r\<lparr>br_pos := br_pos r + 1\<rparr>))"
  by (simp add: br_u8_def fun_eq_iff)

lemma get_u8_span: "get_u8 = (\<lambda>r. if length r < 1 then None else Some (hd (take 1 r), drop 1 r))"
  by (auto simp: get_u8_def fun_eq_iff take_Suc split: list.split)

interpretation u8_cursor: flagged_cursor br_u8 get_u8
  unfolding u8_span get_u8_span by (rule flagged [OF cursor_span flags_span])

interpretation bytes_cursor: flagged_cursor "br_bytes n" "get_bytes n" for n
proof -
  have "br_bytes n = (\<lambda>r. if br_remaining r < n then Some (None, br_fail r)
      else case br_span r (br_pos r) n of
        None \<Rightarrow> None | Some bs \<Rightarrow> Some (Some (id bs), r\<lparr>br_pos := br_pos r + n\<rparr>))"
    by (simp add: br_bytes_def fun_eq_iff split: option.split)
  moreover have "get_bytes n = (\<lambda>r. if length r < n then None else Some (id (take n r), drop n r))"
    by (simp add: get_bytes_def fun_eq_iff)
  ultimately show "flagged_cursor (br_bytes n) (get_bytes n)"
    by (simp only: flagged [OF cursor_span flags_span])
qed

lemmas flag_rules = flags_or_fail flags_then flags_return

lemma u8_flags: "flags br_u8" and bytes_flags: "flags (br_bytes n)"
  by (auto simp: flags_def br_u8_def br_bytes_def br_fail_def split: option.splits)

interpretation u16_cursor: flagged_cursor br_u16 get_u16
  unfolding br_u16_def get_u16_def [abs_def]
  by (intro flagged cursor_or_fail cursor_rules u8_cursor.cursor_axioms flag_rules u8_flags)

interpretation u32_cursor: flagged_cursor br_u32 get_u32
  unfolding br_u32_def get_u32_def [abs_def]
  by (intro flagged cursor_or_fail cursor_rules u8_cursor.cursor_axioms flag_rules u8_flags)

lemma u32_flags: "flags br_u32"
  unfolding br_u32_def by (intro flag_rules u8_flags)

interpretation u64_cursor: flagged_cursor br_u64 get_u64
  unfolding br_u64_def get_u64_def [abs_def]
  by (intro flagged cursor_or_fail cursor_rules u32_cursor.cursor_axioms flag_rules u32_flags)

interpretation bool8_cursor: flagged_cursor br_bool8 get_bool8
  unfolding br_bool8_def get_bool8_def [abs_def]
  by (intro flagged cursor_or_fail cursor_rules u8_cursor.cursor_axioms flag_rules u8_flags)

interpretation id_cursor: flagged_cursor br_id get_id
  unfolding br_id_def get_id_def [abs_def]
  by (intro flagged cursor_or_fail cursor_rules bytes_cursor.cursor_axioms flag_rules bytes_flags)

interpretation string_cursor: flagged_cursor br_string get_string
proof -
  have g: "get_string = (\<lambda>r. Option.bind (get_u32 r)
      (\<lambda>(len, r). if length r < unat len then None else Some (bytes_string (take (unat len) r), drop (unat len) r)))"
    by (simp add: get_string_def get_bytes_def fun_eq_iff cong: option.case_cong) (auto split: Option.bind_split)
  show "flagged_cursor br_string get_string"
    unfolding br_string_def g
    by (intro flagged cursor_then cursor_or_fail cursor_span u32_cursor.cursor_axioms flag_rules u32_flags flags_span)
qed


section \<open>The entry decoder\<close>

lemmas field_cursors = u8_cursor.cursor_axioms u32_cursor.cursor_axioms u64_cursor.cursor_axioms
  bool8_cursor.cursor_axioms id_cursor.cursor_axioms string_cursor.cursor_axioms

lemma opt_id_cursor: "cursor br_opt_id get_opt_id"
  unfolding br_opt_id_def get_opt_id_def [abs_def] by (intro cursor_rules field_cursors)

lemma kinds_cursor: "cursor br_kinds get_kinds"
  unfolding br_kinds_def get_kinds_def [abs_def] by (intro cursor_rules field_cursors)

lemma quantity_cursor: "cursor br_quantity get_quantity"
  unfolding br_quantity_def get_quantity_def [abs_def] by (intro cursor_rules field_cursors)

lemma source_cursor: "cursor br_source get_source"
  unfolding br_source_def get_source_def [abs_def] by (intro cursor_rules field_cursors)

lemma authority_cursor: "cursor br_authority get_authority"
  unfolding br_authority_def get_authority_def [abs_def] by (intro cursor_rules field_cursors)

lemma kvs_cursor: "cursor (br_kvs n m) (get_kvs n m)"
proof (induction n arbitrary: m)
  case 0
  then show ?case using cursor_return [of m] by simp
next
  case (Suc n)
  have "cursor (br_kvs (Suc n) m) (\<lambda>r. Option.bind (get_string r) (\<lambda>(k, r). Option.bind (get_string r)
      (\<lambda>(v, r). get_kvs n (map_emplace k v m) r)))"
    unfolding br_kvs.simps by (intro cursor_then field_cursors Suc)
  moreover have "get_kvs (Suc n) m = (\<lambda>r. Option.bind (get_string r) (\<lambda>(k, r). Option.bind (get_string r)
      (\<lambda>(v, r). get_kvs n (map_emplace k v m) r)))"
    by (auto simp: get_kv_def fun_eq_iff split: Option.bind_split)
  ultimately show ?case by simp
qed

lemma metadata_cursor: "cursor br_metadata get_metadata"
  unfolding br_metadata_def get_metadata_def [abs_def] by (intro cursor_then field_cursors kvs_cursor)

lemma decoder_rest:
  assumes "decoder a g" "decoder b h"
  shows "decoder (\<lambda>r. if br_remaining r \<noteq> 0 then a r else b r) (\<lambda>r. if length r \<noteq> 0 then g r else h r)"
proof
  fix r assume v: "br_valid r"
  have "br_remaining r = length (br_rest r)" using v by (simp add: br_remaining_def br_valid_def br_rest_def)
  then show "\<exists>r'. (if br_remaining r \<noteq> 0 then a r else b r) =
      Some (if length (br_rest r) \<noteq> 0 then g (br_rest r) else h (br_rest r), r') \<and> br_valid r'"
    using decoder.decodes [OF assms(1) v] decoder.decodes [OF assms(2) v] by auto
qed

lemma decoder_return: "decoder (br_return x) (\<lambda>r. Some x)"
  by unfold_locales (simp add: br_return_def)

lemma decoder_if_at:
  "decoder (\<lambda>r. a r) g \<Longrightarrow> decoder (\<lambda>r. b r) h \<Longrightarrow> decoder (\<lambda>r. if P then a r else b r) (\<lambda>r. if P then g r else h r)"
  by (cases P) simp_all

lemma decoder_split: "(\<And>x y. decoder (f x y) (h x y)) \<Longrightarrow> decoder (case_prod f p) (case_prod h p)"
  by (cases p) simp

lemmas part_cursors = field_cursors opt_id_cursor kinds_cursor quantity_cursor source_cursor
  authority_cursor metadata_cursor

interpretation entry_decoder: decoder br_entry decode_payload
  unfolding br_entry_def decode_payload_def [abs_def]
  by (intro decoder_then part_cursors decoder_if decoder_stop decoder_split decoder_rest decoder_if_at decoder_return)

section \<open>The writer\<close>

lemma bw_puts:
  "bw_u8 w v8 = w @ put_u8 v8" "bw_u16 w v16 = w @ put_u16 v16" "bw_u32 w v32 = w @ put_u32 v32"
  "bw_u64 w v64 = w @ put_u64 v64" "bw_bool8 w b = w @ put_bool8 b" "bw_id w x = w @ put_id x"
  "bw_string w s = w @ put_string s" "bw_opt_id w h x = w @ put_opt_id h x"
  by (simp_all add: bw_u8_def bw_u16_def bw_u32_def bw_u64_def bw_bytes_def bw_bool8_def bw_id_def bw_string_def
      bw_opt_id_def put_u8_def put_u16_def put_u32_def put_u64_def put_bool8_def put_id_def put_string_def put_opt_id_def)

lemma bw_kvs: "foldl (\<lambda>w kv. bw_string (bw_string w (fst kv)) (snd kv)) w m = w @ concat (map put_kv m)"
  by (induction m arbitrary: w) (simp_all add: bw_puts put_kv_def)

lemma bw_entry_payload: "bw_entry e = entry_payload e"
  unfolding bw_entry_def Let_def bw_kvs
  by (simp add: bw_puts entry_payload_def put_quantity_def put_source_def put_authority_def put_metadata_def)

section \<open>Properties\<close>

text \<open>The objects implement the codec: the writer's buffer holds exactly the payload of the entry;
  a reader over any payload runs through the decoder without an access outside the buffer and ends
  with exactly what the decoding function returns, accepted or rejected; and so the reader gives back
  an encodable entry from the writer's buffer.\<close>

theorem objects_implement_codec:
  "bw_entry e = entry_payload e \<and>
   (\<exists>r'. br_entry (br_new p) = Some (decode_payload p, r') \<and> br_pos r' \<le> length (br_p r')) \<and>
   (encodable e \<longrightarrow> (\<exists>r'. br_entry (br_new (bw_entry e)) = Some (Some (normalize_entry e), r')))"
proof -
  have "br_valid (br_new q) \<and> br_rest (br_new q) = q" for q by (simp add: br_valid_def br_new_def br_rest_def)
  then have d: "\<exists>r'. br_entry (br_new q) = Some (decode_payload q, r') \<and> br_valid r'" for q
    using entry_decoder.decodes [of "br_new q"] by simp
  have "decode_payload (entry_payload e) = Some (normalize_entry e)" if "encodable e"
    using that encodable_frame [OF that] decode_entry_payload by (simp add: encodable_def)
  then show ?thesis using d [of p] d [of "bw_entry e"] by (auto simp: bw_entry_payload br_valid_def)
qed

theorem objects_implement_codec_witness:
  "\<exists>r'. br_entry (br_new (bw_entry (entry_default\<lparr>e_id := Id128 0 7\<rparr>))) =
     Some (Some (normalize_entry (entry_default\<lparr>e_id := Id128 0 7\<rparr>)), r')"
  using objects_implement_codec [of "entry_default\<lparr>e_id := Id128 0 7\<rparr>" "[]"] entry_default_encodable by blast

text \<open>The error flag tells whether a read failed: on a reader whose flag is set and whose position is
  inside the buffer, every public method keeps the flag exactly when it succeeds.\<close>

theorem reader_flag:
  assumes "br_valid r" "br_ok r"
  shows "(\<exists>x r'. br_u64 r = Some (x, r') \<and> (br_ok r' \<longleftrightarrow> x \<noteq> None)) \<and>
    (\<exists>x r'. br_string r = Some (x, r') \<and> (br_ok r' \<longleftrightarrow> x \<noteq> None)) \<and>
    (\<exists>(x :: 'tag id128 option) r'. br_id r = Some (x, r') \<and> (br_ok r' \<longleftrightarrow> x \<noteq> None))"
  using u64_cursor.flag [OF assms] string_cursor.flag [OF assms] id_cursor.flag [OF assms] by blast

end
