(* ===== verification/Wire.thy ===== *)
theory Wire
  imports Protocol Cursor
begin

text \<open>
  Entries and messages through the objects of theory \<open>Cursor\<close>: \<^verbatim>\<open>decode_entry\<close>, \<^verbatim>\<open>encode_message\<close> and
  \<^verbatim>\<open>decode_message\<close> with their reader and writer, and that they compute the functions of \<open>Codec\<close> and
  \<open>Protocol\<close>.
\<close>

section \<open>Decoding\<close>

definition br_decode_entry :: "bytes \<Rightarrow> ledger_entry decoded" where
  "br_decode_entry data =
     (let n = length data in
      if n < 8 then Rejected
      else let len = be32_at data 0;
               crc_want = be32_at data 4;
               total = unat (8 + len)
           in if n < total then Rejected
              else if n < 8 + unat len then OutOfBounds
              else let payload = take (unat len) (drop 8 data)
                   in if crc32 payload \<noteq> crc_want then Rejected
                      else case br_entry (br_new payload) of
                             None \<Rightarrow> OutOfBounds
                           | Some (None, _) \<Rightarrow> Rejected
                           | Some (Some e, _) \<Rightarrow> Decoded e total)"

text \<open>The last conjunct \<^verbatim>\<open>r.remaining() == 0\<close>, and the result of a decoder.\<close>

definition br_end :: "'a \<Rightarrow> 'a reading" where
  "br_end x r = (if br_remaining r = 0 then br_return x r else br_stop r)"

definition br_run :: "'a reading \<Rightarrow> byte_reader \<Rightarrow> 'a outcome" where
  "br_run m r = (case m r of None \<Rightarrow> BadAccess | Some (None, _) \<Rightarrow> Failure '''' | Some (Some x, _) \<Rightarrow> Value x)"

definition br_decode_message :: "bytes \<Rightarrow> message outcome" where
  "br_decode_message data =
     (if length data < 1 then Failure ''''
      else
        let r = br_new (drop 1 data)
        in case msg_type_from (data ! 0) of
             TRegister \<Rightarrow> br_run (br_then br_id (\<lambda>w. br_then br_id (\<lambda>b. br_end (Register w b)))) r
           | TRegisterAck \<Rightarrow>
               br_run (br_then br_bool8 (\<lambda>k. br_then br_u64 (\<lambda>e. br_then br_u64 (\<lambda>g. br_then br_string (\<lambda>s.
                 br_end (RegisterAck k (Generation e) (Generation g) s)))))) r
           | TEventSubmit \<Rightarrow>
               (case br_u32 r of
                  None \<Rightarrow> BadAccess
                | Some (None, _) \<Rightarrow> Failure ''''
                | Some (Some flen, r) \<Rightarrow>
                    if br_remaining r \<noteq> unat flen then Failure ''''
                    else case br_decode_entry (drop (1 + 4) data) of
                      Rejected \<Rightarrow> Failure ''''
                    | OutOfBounds \<Rightarrow> BadAccess
                    | Decoded e consumed \<Rightarrow>
                        if consumed = unat flen \<and> consumed = br_remaining r then Value (EventSubmit e)
                        else Failure '''')
           | TEventAck \<Rightarrow> br_run (br_then br_u8 (\<lambda>st. br_then br_string (\<lambda>s. br_end (EventAck st s)))) r
           | TRoll \<Rightarrow>
               br_run (br_then br_u64 (\<lambda>e. br_then br_u64 (\<lambda>g. br_end (Roll (Generation e) (Generation g))))) r
           | TShutdown \<Rightarrow> br_run (br_end Shutdown) r
           | TPing \<Rightarrow> br_run (br_end Ping) r)"

section \<open>Encoding\<close>

primrec bw_message :: "message \<Rightarrow> byte_writer option" where
  "bw_message (Register w b) = Some (bw_id (bw_id [] w) b)"
| "bw_message (RegisterAck k e g r) =
     Some (bw_string (bw_u64 (bw_u64 (bw_bool8 [] k) (gen_value e)) (gen_value g)) r)"
| "bw_message (EventSubmit e) =
     (case encode_entry e of
        None \<Rightarrow> None
      | Some frame_bytes \<Rightarrow> Some (bw_bytes (bw_u32 [] (word_of_nat (length frame_bytes))) frame_bytes))"
| "bw_message (EventAck s r) = Some (bw_string (bw_u8 [] s) r)"
| "bw_message (Roll e g) = Some (bw_u64 (bw_u64 [] (gen_value e)) (gen_value g))"
| "bw_message Shutdown = Some []"
| "bw_message Ping = Some []"

section \<open>They compute the same\<close>

lemma br_new_valid [simp]: "br_valid (br_new p)" "br_rest (br_new p) = p"
  by (simp_all add: br_valid_def br_new_def br_rest_def)

lemma br_decode_entry_eq: "br_decode_entry data = decode_entry data"
proof -
  have "(case br_entry (br_new p) of None \<Rightarrow> OutOfBounds | Some (None, _) \<Rightarrow> Rejected | Some (Some e, _) \<Rightarrow> Decoded e t) =
      (case decode_payload p of None \<Rightarrow> Rejected | Some e \<Rightarrow> Decoded e t)" for p t
    using entry_decoder.decodes [of "br_new p"] by (cases "decode_payload p") auto
  then show ?thesis by (simp add: br_decode_entry_def decode_entry_def Let_def)
qed

text \<open>A decoder that ends with \<^const>\<open>br_end\<close> implements \<^const>\<open>finish\<close>.\<close>

lemma decoder_end: "decoder (br_end x) (\<lambda>r. if r = [] then Some x else None)"
proof
  fix r assume v: "br_valid r"
  then have "br_remaining r = length (br_rest r)" by (simp add: br_remaining_def br_valid_def br_rest_def)
  with v show "\<exists>r'. br_end x r = Some (if br_rest r = [] then Some x else None, r') \<and> br_valid r'"
    by (simp add: br_end_def br_return_def br_stop_def)
qed

lemma finish_option:
  "finish m = (case Option.bind m (\<lambda>(x, r). if r = [] then Some x else None) of None \<Rightarrow> Failure '''' | Some x \<Rightarrow> Value x)"
  by (cases m) (auto simp: finish_def)

lemma run_decoder:
  "decoder m d \<Longrightarrow> br_run m (br_new p) = (case d p of None \<Rightarrow> Failure '''' | Some x \<Rightarrow> Value x)"
  using decoder.decodes [of m d "br_new p"] by (cases "d p") (auto simp: br_run_def)

lemma runs:
  "br_run (br_then br_id (\<lambda>w. br_then br_id (\<lambda>b. br_end (Register w b)))) (br_new p) =
     finish (do { (w, r) \<leftarrow> get_id p; (b, r) \<leftarrow> get_id r; Some (Register w b, r) })"
  "br_run (br_then br_bool8 (\<lambda>k. br_then br_u64 (\<lambda>e. br_then br_u64 (\<lambda>g. br_then br_string (\<lambda>s.
      br_end (RegisterAck k (Generation e) (Generation g) s)))))) (br_new p) =
     finish (do { (k, r) \<leftarrow> get_bool8 p; (e, r) \<leftarrow> get_u64 r; (g, r) \<leftarrow> get_u64 r; (s, r) \<leftarrow> get_string r;
       Some (RegisterAck k (Generation e) (Generation g) s, r) })"
  "br_run (br_then br_u8 (\<lambda>st. br_then br_string (\<lambda>s. br_end (EventAck st s)))) (br_new p) =
     finish (do { (st, r) \<leftarrow> get_u8 p; (s, r) \<leftarrow> get_string r; Some (EventAck st s, r) })"
  "br_run (br_then br_u64 (\<lambda>e. br_then br_u64 (\<lambda>g. br_end (Roll (Generation e) (Generation g))))) (br_new p) =
     finish (do { (e, r) \<leftarrow> get_u64 p; (g, r) \<leftarrow> get_u64 r; Some (Roll (Generation e) (Generation g), r) })"
  "br_run (br_end m) (br_new p) = finish (Some (m, p))"
  by - (rule trans [OF run_decoder], (rule decoder_then field_cursors decoder_end)+,
      (auto simp: finish_def split: Option.bind_split option.split) [1])+

lemma get_u32_rest: "get_u32 r = Some (x, r') \<Longrightarrow> r' = drop 4 r"
  by (auto simp: get_u32_def get_u8_def numeral_eq_Suc split: bind_splits list.splits)

lemma submit_run:
  "(case br_u32 (br_new p) of
      None \<Rightarrow> BadAccess
    | Some (None, _) \<Rightarrow> Failure ''''
    | Some (Some flen, r) \<Rightarrow> f flen (br_remaining r)) =
   (case get_u32 p of None \<Rightarrow> Failure '''' | Some (flen, r) \<Rightarrow> f flen (length r))"
proof -
  obtain x r' where "br_u32 (br_new p) = Some (x, r')" "br_valid r'" "get_u32 p = map_option (\<lambda>v. (v, br_rest r')) x"
    using u32_cursor.implements [of "br_new p"] by auto
  moreover from this(2) have "br_remaining r' = length (br_rest r')" by (simp add: br_remaining_def br_valid_def br_rest_def)
  ultimately show ?thesis by (cases x) simp_all
qed

lemma br_decode_message_eq: "br_decode_message data = decode_message data"
proof (cases data)
  case Nil
  then show ?thesis by (simp add: br_decode_message_def decode_message_def)
next
  case (Cons t p)
  show ?thesis
  proof (cases "msg_type_from t = TEventSubmit")
    case True
    have d: "drop (1 + 4) data = drop 4 p" "drop 1 data = p" "data ! 0 = t" "\<not> length data < 1" by (simp_all add: Cons)
    let ?f = "\<lambda>flen :: u32. \<lambda>n. if n \<noteq> unat flen then Failure ''''
        else case decode_entry (drop 4 p) of
          Rejected \<Rightarrow> Failure '''' | OutOfBounds \<Rightarrow> BadAccess
        | Decoded e consumed \<Rightarrow> if consumed = unat flen \<and> consumed = n then Value (EventSubmit e) else Failure ''''"
    have "br_decode_message data = (case get_u32 p of None \<Rightarrow> Failure '''' | Some (flen, r) \<Rightarrow> ?f flen (length r))"
      unfolding br_decode_message_def d br_decode_entry_eq Let_def
      by (simp only: True d(4) if_False message_type.case submit_run [of ?f p, symmetric])
    with True Cons show ?thesis by (auto simp: decode_message_def dest: get_u32_rest split: option.splits)
  next
    case False
    with Cons show ?thesis
      by (cases "msg_type_from t") (simp_all add: br_decode_message_def decode_message_def runs)
  qed
qed

lemma bw_message_payload: "bw_message m = message_payload m"
  by (cases m) (simp_all add: bw_puts bw_bytes_def split: option.split)

section \<open>Properties\<close>

text \<open>C15: The objects implement the wire format: the writer's buffer is exactly the payload of an entry and
  of a message, and on every buffer the decoders that move a reader through it, checking what
  remains before each access, give exactly the outcome of the decoding functions; in particular
  the reader itself never leaves its buffer.\<close>

theorem objects_implement_protocol:
  "bw_entry e = entry_payload e \<and> bw_message m = message_payload m \<and>
   br_decode_entry data = decode_entry data \<and> br_decode_message data = decode_message data \<and>
   (\<exists>r. br_entry (br_new data) = Some (decode_payload data, r))"
  using entry_decoder.decodes [of "br_new data"]
  by (auto simp: bw_entry_payload bw_message_payload br_decode_entry_eq br_decode_message_eq)

end
