(* ===== verification/Typing.thy ===== *)
theory Typing
  imports Protocol
begin

text \<open>
  The type of what the decoders let in. Bytes from a file or a peer are untyped; \<open>entry_typed\<close> and
  \<open>message_typed\<close> say what the C++ types of a decoded entry and message promise: known enumerators, a
  finite quantity with the sign its resource allows, strings and maps no longer than their length
  fields can say, map keys in increasing order, absent optional identities at their default.
\<close>

definition entry_typed :: "ledger_entry \<Rightarrow> bool" where
  "entry_typed e = (content_encodable e \<and> metadata_ok (e_metadata e) \<and> normalize_entry e = e)"

primrec message_typed :: "message \<Rightarrow> bool" where
  "message_typed (Register w b) = True"
| "message_typed (RegisterAck k e g r) = string_fits r"
| "message_typed (EventSubmit e) = entry_typed e"
| "message_typed (EventAck s r) = string_fits r"
| "message_typed (Roll e g) = True"
| "message_typed Shutdown = True"
| "message_typed Ping = True"

text \<open>What the encoder refuses and the decoder does not: a count that is not integral.\<close>

definition fractional_count :: "ledger_entry \<Rightarrow> bool" where
  "fractional_count e = (q_unit (e_quantity e) = Count \<and> \<not> q_is_integral (e_quantity e))"

section \<open>Fields\<close>

lemma get_string_fits: "get_string r = Some (s, r') \<Longrightarrow> string_fits s"
proof -
  assume "get_string r = Some (s, r')"
  then obtain len :: u32 and b where "unat len \<le> length b" "s = bytes_string (take (unat len) b)"
    by (auto simp: get_string_def get_bytes_def not_less split: bind_splits if_splits)
  then show ?thesis using unat_u32_lt [of len] by (simp add: string_fits_def bytes_string_def)
qed

abbreviation kv_fits :: "string \<times> string \<Rightarrow> bool" where
  "kv_fits kv \<equiv> string_fits (fst kv) \<and> string_fits (snd kv)"

lemma length_map_emplace: "length (map_emplace k v m) \<le> Suc (length m)"
  by (induction k v m rule: map_emplace.induct) auto

lemma get_kvs_fits:
  "get_kvs n m r = Some (m', r') \<Longrightarrow> list_all kv_fits m \<Longrightarrow> list_all kv_fits m' \<and> length m' \<le> length m + n"
proof (induction n arbitrary: m r)
  case (Suc n)
  obtain k v r1 where kv: "get_kv r = Some ((k, v), r1)" "get_kvs n (map_emplace k v m) r1 = Some (m', r')"
    using Suc.prems(1) by (auto split: bind_splits)
  have "kv_fits (k, v)" using kv(1) by (auto simp: get_kv_def dest!: get_string_fits split: bind_splits)
  then have "list_all kv_fits (map_emplace k v m)"
    using Suc.prems(2) by (auto simp: list_all_iff dest!: set_map_emplace)
  from Suc.IH [OF kv(2) this] show ?case using length_map_emplace [of k v m] by simp
qed simp

lemma get_metadata_ok:
  assumes "get_metadata r = Some (m, r')"
  shows "metadata_ok m"
proof -
  obtain c :: u32 and r1 where "get_kvs (unat c) [] r1 = Some (m, r')"
    using assms by (auto simp: get_metadata_def split: bind_splits)
  from get_kvs_fits [OF this] show ?thesis
    using get_metadata_wf [OF assms] unat_u32_lt [of c] by (simp add: metadata_ok_def)
qed

lemma get_opt_id_default: "get_opt_id r = Some ((has, x), r') \<Longrightarrow> has \<or> x = id_default"
  by (auto simp: get_opt_id_def split: bind_splits if_splits)

lemma decode_payload_metadata: "decode_payload r = Some e \<Longrightarrow> metadata_ok (e_metadata e)"
  unfolding decode_payload_def by (auto dest!: get_metadata_ok split: bind_splits if_splits)

lemma decode_payload_absent:
  assumes "decode_payload r = Some e"
  shows "e_has_adapter e \<or> e_adapter e = id_default"
    "e_has_accounting_policy e \<or> e_accounting_policy e = id_default"
    "e_has_pricing_policy e \<or> e_pricing_policy e = id_default"
  using assms unfolding decode_payload_def
  by (auto dest!: get_opt_id_default split: bind_splits if_splits)

lemma decode_payload_typed:
  assumes "decode_payload r = Some e"
  shows "entry_typed e"
proof -
  have "normalize_entry e = e" using decode_payload_absent [OF assms] by (cases e) (auto simp: normalize_entry_def)
  with decode_payload_sound [OF assms] decode_payload_metadata [OF assms] show ?thesis by (simp add: entry_typed_def)
qed

section \<open>Messages\<close>

lemma encode_typed:
  "entry_typed e \<Longrightarrow> encode_entry e = None \<longleftrightarrow> fractional_count e"
  by (auto simp: entry_typed_def encode_entry_def content_encodable_def metadata_ok_def fractional_count_def)

lemma decode_message_typed:
  assumes "decode_message data = Value m"
  shows "message_typed m"
  using assms unfolding decode_message_def
  by (auto simp: finish_def dest!: get_string_fits decode_entry_Decoded(5) decode_payload_typed
      split: list.splits message_type.splits option.splits decoded.splits bind_splits if_splits)

lemma recv_decoded:
  "recv_message recv s = (Value m, s') \<Longrightarrow> \<exists>content. decode_message content = Value m"
  by (auto simp: recv_message_def Let_def split: prod.splits sum.splits if_splits)

lemma typed_normal: "message_typed m \<Longrightarrow> normalize_message m = m"
  by (cases m) (simp_all add: entry_typed_def)

lemma typed_encodes:
  "message_typed m \<Longrightarrow> encode_message m = None \<longleftrightarrow> (\<exists>e. m = EventSubmit e \<and> fractional_count e)"
  by (cases m) (auto simp: encode_message_def Let_def encode_typed [symmetric] split: option.splits)

section \<open>Properties\<close>

text \<open>C16: Whatever a peer sends and however the stream is cut, a message the receiver delivers is well typed
  (known kinds, a finite quantity of the right sign, strings and metadata within their length
  fields, keys in order, absent identities at their default), is a fixed point of a round trip, and
  can be encoded again, with one exception: an event whose count is not integral, which the
  decoder lets in and the encoder refuses.\<close>

theorem received_typed:
  assumes "recv_message recv s = (Value m, s')"
  shows "message_typed m \<and> normalize_message m = m \<and>
    (encode_message m = None \<longleftrightarrow> (\<exists>e. m = EventSubmit e \<and> fractional_count e))"
proof -
  have "message_typed m" using recv_decoded [OF assms] decode_message_typed by blast
  then show ?thesis by (simp add: typed_normal typed_encodes)
qed

theorem received_typed_witness: "message_typed Ping \<and> encode_message Ping \<noteq> None"
proof -
  obtain sched' where "recv_message tcp_recv (put_u32 1 @ put_u32 (crc32 [7]) @ [7] @ [], [3, 2]) = (Value Ping, ([], sched'))"
    using recv_raw_frame [of "[7]" "crc32 [7]" "[]" "[3, 2]"] by (auto simp: decode_message_def msg_type_from_def finish_def)
  from received_typed [OF this] show ?thesis by blast
qed

end
