(* ===== verification/Epochs.thy ===== *)
theory Epochs
  imports Coordinator
begin

text \<open>
  The coordinator's contract with whoever reads its ledger, as an abstract machine, and that the
  coordinator refines it: whatever its threads interleave, the ledger is a sequence of epochs, one
  closed before the next is opened, and every entry was admitted in the epoch it carries from a
  worker enrolled with the boot it carries.
\<close>

section \<open>Simulations\<close>

text \<open>Every concrete step is one abstract step or none.\<close>

locale simulation =
  fixes step :: "'c \<Rightarrow> 'c \<Rightarrow> bool"
    and astep :: "'a \<Rightarrow> 'a \<Rightarrow> bool"
    and match :: "'c \<Rightarrow> 'a \<Rightarrow> bool"
  assumes simulates: "match c a \<Longrightarrow> step c c' \<Longrightarrow> match c' a \<or> (\<exists>a'. astep a a' \<and> match c' a')"
begin

lemma run: "(step ^^ n) c c' \<Longrightarrow> match c a \<Longrightarrow> \<exists>a' k. k \<le> n \<and> (astep ^^ k) a a' \<and> match c' a'"
proof (induction n arbitrary: c')
  case (Suc n)
  then obtain d where d: "(step ^^ n) c d" "step d c'" by auto
  with Suc obtain b k where b: "k \<le> n" "(astep ^^ k) a b" "match d b" by blast
  from simulates [OF b(3) d(2)] show ?case
  proof
    assume "match c' b"
    with b show ?thesis by (intro exI [of _ b] exI [of _ k]) simp
  next
    assume "\<exists>a'. astep b a' \<and> match c' a'"
    with b show ?thesis by (meson Suc_le_mono relpowp_Suc_I)
  qed
qed (rule exI, rule exI [of _ 0], simp)

lemma reach: "step\<^sup>*\<^sup>* c c' \<Longrightarrow> match c a \<Longrightarrow> \<exists>a'. astep\<^sup>*\<^sup>* a a' \<and> match c' a'"
  by (meson run rtranclp_imp_relpowp relpowp_imp_rtranclp)

end

section \<open>The abstract machine\<close>

record fenced_log =
  fl_epochs :: "ledger_entry list list"
  fl_boots :: "worker_id \<rightharpoonup> worker_boot_id"

definition fenced_log_new :: fenced_log where
  "fenced_log_new = \<lparr>fl_epochs = [[]], fl_boots = Map.empty\<rparr>"

definition fl_entries :: "fenced_log \<Rightarrow> ledger_entry list" where
  "fl_entries s = concat (fl_epochs s)"

text \<open>The number of the current epoch, as the 64-bit value entries carry.\<close>

definition fl_epoch :: "fenced_log \<Rightarrow> u64" where
  "fl_epoch s = word_of_nat (length (fl_epochs s))"

inductive log_step :: "fenced_log \<Rightarrow> fenced_log \<Rightarrow> bool" where
  enrol: "log_step s (s\<lparr>fl_boots := (fl_boots s)(w \<mapsto> b)\<rparr>)"
| admit: "fl_epochs s = closed @ [open] \<Longrightarrow>
     gen_value (a_epoch (e_authority e)) = fl_epoch s \<Longrightarrow>
     fl_boots s (e_worker e) = Some (a_worker_boot (e_authority e)) \<Longrightarrow>
     e_id e \<notin> e_id ` set (fl_entries s) \<Longrightarrow> content_is_valid e \<Longrightarrow>
     log_step s (s\<lparr>fl_epochs := closed @ [open @ [e]]\<rparr>)"
| roll: "log_step s (s\<lparr>fl_epochs := fl_epochs s @ [[]]\<rparr>)"

inductive_cases log_stepE: "log_step s s'"

subsection \<open>What it guarantees\<close>

text \<open>Every entry carries the number of its epoch; identities are unique.\<close>

definition log_inv :: "fenced_log \<Rightarrow> bool" where
  "log_inv s =
     (fl_epochs s \<noteq> [] \<and> distinct (map e_id (fl_entries s)) \<and>
      (\<forall>k < length (fl_epochs s). \<forall>e \<in> set (fl_epochs s ! k).
         gen_value (a_epoch (e_authority e)) = word_of_nat (Suc k)))"

lemma log_inv_step: "log_step s s' \<Longrightarrow> log_inv s \<Longrightarrow> log_inv s'"
proof (induction rule: log_step.induct)
  case (admit s closed op e)
  then show ?case
    by (auto simp: log_inv_def fl_entries_def fl_epoch_def nth_append less_Suc_eq split: if_splits)
next
  case (roll s)
  then show ?case by (auto simp: log_inv_def fl_entries_def nth_append less_Suc_eq)
qed (auto simp: log_inv_def fl_entries_def)

lemma log_run:
  "(log_step ^^ n) fenced_log_new s \<Longrightarrow> log_inv s \<and> length (fl_epochs s) \<le> Suc n"
proof (induction n arbitrary: s)
  case 0
  then show ?case by (auto simp: log_inv_def fenced_log_new_def fl_entries_def)
next
  case (Suc n)
  then obtain t where t: "(log_step ^^ n) fenced_log_new t" "log_step t s" by auto
  then have "length (fl_epochs s) \<le> Suc (length (fl_epochs t))" by (auto elim: log_stepE)
  with t Suc.IH log_inv_step show ?case by fastforce
qed

lemma epochs_sorted:
  assumes "log_inv s" "length (fl_epochs s) < 2 ^ 64"
  shows "sorted (map (\<lambda>e. unat (gen_value (a_epoch (e_authority e)))) (fl_entries s))"
proof -
  let ?f = "\<lambda>e. unat (gen_value (a_epoch (e_authority e)))"
  have val: "?f e = Suc k" if "k < length (fl_epochs s)" "e \<in> set (fl_epochs s ! k)" for k e
    using assms that by (simp add: log_inv_def unat_of_nat take_bit_nat_eq_self del: of_nat_Suc)
  have "sorted (map ?f (concat es)) \<and> (\<forall>x \<in> set (map ?f (concat es)). x \<le> length es)"
    if "length es \<le> length (fl_epochs s)" "\<forall>k < length es. es ! k = fl_epochs s ! k" for es
    using that
  proof (induction es rule: rev_induct)
    case (snoc x es)
    have "es ! k = fl_epochs s ! k" if "k < length es" for k
      using snoc.prems(2) [rule_format, of k] that by (simp add: nth_append)
    moreover have "x = fl_epochs s ! length es" using snoc.prems(2) [rule_format, of "length es"] by simp
    then have "map ?f x = replicate (length x) (Suc (length es))"
      using val [of "length es"] snoc.prems(1) by (auto simp: list_eq_iff_nth_eq)
    ultimately show ?case
      using snoc by (auto simp: sorted_append set_replicate_conv_if intro: le_SucI)
  qed simp
  from this [of "fl_epochs s"] show ?thesis by (simp add: fl_entries_def)
qed

section \<open>The coordinator refines it\<close>

definition log_match :: "coordinator \<Rightarrow> fenced_log \<Rightarrow> bool" where
  "log_match c s =
     (fenced c \<and> fl_epochs s \<noteq> [] \<and> snapshot (co_ledger c) = fl_entries s \<and>
      gen_value (st_epoch (co_authority c)) = fl_epoch s \<and>
      map_find (st_worker_boot (co_authority c)) = fl_boots s)"


lemma log_match_core: "core c' = core c \<Longrightarrow> fenced c' \<Longrightarrow> log_match c s \<Longrightarrow> log_match c' s"
  by (simp add: log_match_def core_def)

lemma log_match_event:
  assumes m: "log_match c s"
  shows "log_match (snd (account_event c e)) s \<or> (\<exists>s'. log_step s s' \<and> log_match (snd (account_event c e)) s')"
proof -
  have f: "fenced c" "fenced (snd (account_event c e))" using m fenced_event by (auto simp: log_match_def)
  then have l: "l_authority (co_ledger c) = Some 0" "ledger_inv (co_ledger c)" by (simp_all add: fenced_def)
  note parts = account_event_parts [OF l(1), of e]
  let ?ar = "fst (ledger_append (Some (authority_for c e)) (co_ledger c) e)"
  show ?thesis
  proof (cases "ar_status ?ar = Accepted")
    case False
    then have "log_match (snd (account_event c e)) s"
      using m f(2) by (simp add: log_match_def parts append_entries_cases(2))
    then show ?thesis ..
  next
    case True
    then have new: "l_index (co_ledger c) (e_id e) = None" "content_is_valid e"
      and cur: "current_authority e (authority_for c e)"
      using accepted_current [OF True] by (simp_all add: append_status_Accepted)
    obtain closed op where split: "fl_epochs s = closed @ [op]"
      using m by (metis log_match_def append_butlast_last_id)
    let ?s = "s\<lparr>fl_epochs := closed @ [op @ [e]]\<rparr>"
    have "log_step s ?s"
    proof (rule log_step.admit [OF split])
      show "gen_value (a_epoch (e_authority e)) = fl_epoch s" "fl_boots s (e_worker e) = Some (a_worker_boot (e_authority e))"
        using cur m by (auto simp: current_authority_def log_match_def)
      show "e_id e \<notin> e_id ` set (fl_entries s)"
        using new(1) m ledger_inv_index_None [OF l(2)] by (simp add: log_match_def snapshot_def)
    qed (rule new)
    moreover have "log_match (snd (account_event c e)) ?s"
      using m f(2) True split
      by (simp add: log_match_def parts snapshot_def append_entries_cases(1) fl_entries_def fl_epoch_def)
    ultimately show ?thesis by blast
  qed
qed

interpretation coordinator_log: simulation coord_step log_step log_match
proof
  fix c c' s assume m: "log_match c s" and st: "coord_step c c'"
  have f: "fenced c" "fenced c'" using m fence.step [OF st] by (auto simp: log_match_def)
  have same: "log_match c' s" if "core c' = core d" "log_match d s" for d
    using log_match_core [OF that(1) f(2) that(2)] .
  have other: "\<exists>s'. log_step s s' \<and> log_match c' s'" if "core c' = core d" "log_step s t" "log_match d t" for d t
    using log_match_core [OF that(1) f(2) that(3)] that(2) by blast
  have boot: "log_match (register_boot c w b) (s\<lparr>fl_boots := (fl_boots s)(w \<mapsto> b)\<rparr>)" for w b
    using m fence.boot [OF f(1)]
    by (auto simp: log_match_def section_defs fl_entries_def fl_epoch_def map_find_put fun_eq_iff)
  have adv: "log_match (advance_epoch c) (s\<lparr>fl_epochs := fl_epochs s @ [[]]\<rparr>)"
    using m fence.advance [OF f(1)]
    by (simp add: log_match_def section_defs fl_entries_def fl_epoch_def gen_next_def)
  have rest: "log_match (roll_in_flight c) s" "log_match (set_request_authority c e) s" for e
    using m fence.roll [OF f(1)] fence.adopt [OF f(1), of e]
    by (simp_all add: log_match_def section_defs)
  from coord_step_core [OF st] show "log_match c' s \<or> (\<exists>s'. log_step s s' \<and> log_match c' s')"
    using same [OF _ m] other [OF _ log_step.enrol boot] other [OF _ log_step.roll adv] same [OF _ rest(1)] same [OF _ rest(2)]
      log_match_event [OF m] same other by blast
qed

lemma reachable_steps: "reachable i c \<longleftrightarrow> coord_step\<^sup>*\<^sup>* (coordinator_new i) c"
proof
  show "reachable i c \<Longrightarrow> coord_step\<^sup>*\<^sup>* (coordinator_new i) c"
    by (induction rule: reachable.induct) (auto intro: rtranclp.rtrancl_into_rtrancl)
  show "coord_step\<^sup>*\<^sup>* (coordinator_new i) c \<Longrightarrow> reachable i c"
    by (induction rule: rtranclp_induct) (auto intro: reachable.intros)
qed

lemma log_match_new: "log_match (coordinator_new i) fenced_log_new"
  using fence.initial [of i]
  by (auto simp: log_match_def coordinator_new_def attach_authority_def ledger_new_def snapshot_def fenced_log_new_def
      fl_entries_def fl_epoch_def authority_default_def map_find_def)

section \<open>Properties\<close>



text \<open>C4: A ledger is ordered by epoch: in any run of fewer than \<open>2 ^ 64 - 1\<close> steps the entries stand
  in the ledger in non-decreasing order of the epoch they carry, and none carries a later epoch than
  the coordinator's.\<close>

theorem ledger_ordered_by_epoch:
  assumes "(coord_step ^^ n) (coordinator_new i) c" "n < 2 ^ 64 - 1"
  shows "sorted (map (\<lambda>e. unat (gen_value (a_epoch (e_authority e)))) (snapshot (co_ledger c))) \<and>
    (\<forall>e \<in> set (snapshot (co_ledger c)).
       gen_value (a_epoch (e_authority e)) \<le> gen_value (st_epoch (co_authority c)))"
proof -
  obtain s k where s: "k \<le> n" "(log_step ^^ k) fenced_log_new s" "log_match c s"
    using coordinator_log.run [OF assms(1) log_match_new] by blast
  from log_run [OF s(2)] have inv: "log_inv s" and len: "length (fl_epochs s) < 2 ^ 64"
    using s(1) assms(2) by auto
  have "gen_value (a_epoch (e_authority e)) \<le> fl_epoch s" if "e \<in> set (fl_entries s)" for e
  proof -
    from that obtain j where j: "j < length (fl_epochs s)" "e \<in> set (fl_epochs s ! j)"
      by (auto simp: fl_entries_def) (metis in_set_conv_nth)
    with inv have "gen_value (a_epoch (e_authority e)) = word_of_nat (Suc j)" by (simp add: log_inv_def)
    with j(1) len show ?thesis
      by (simp add: fl_epoch_def word_le_nat_alt unat_of_nat take_bit_nat_eq_self del: of_nat_Suc)
  qed
  with epochs_sorted [OF inv len] s(3) show ?thesis by (simp add: log_match_def)
qed

theorem ledger_ordered_by_epoch_witness:
  "snapshot (co_ledger sample_accepted) = [sample_start] \<and>
   gen_value (a_epoch (e_authority sample_start)) \<le> gen_value (st_epoch (co_authority sample_accepted))"
  using ledger_ordered_by_epoch [OF relpowp_Suc_I [OF sample_queued_path sample_accepted_step]]
  by (simp add: sample_accepted del: relpowp.simps)

end
