(* ===== verification/Spec2Isabelle.thy ===== *)
theory Spec2Isabelle
  imports Multiprocess Processes Cli Sockets Cuda Benchmark Wire Typing Epochs
begin

text \<open>
  \<^bold>\<open>Inference Ledger: a verification development\<close>

  The program is a C++ library and a set of tools that account for the work of inference requests.
  Workers submit events; a coordinator fences them by authority (epoch, generations, boot
  identities) and appends the accepted ones to an append-only ledger; the ledger is saved to and
  loaded from a framed binary file; and request accounts, costs, batch attributions and aggregates
  are computed from ledger entries. Paths below are under \<^verbatim>\<open>src/\<close>; headers are in
  \<^verbatim>\<open>include/inference-ledger/\<close>, sources in \<^verbatim>\<open>src/\<close>.

  \<^bold>\<open>How the theories follow the code\<close>

  \<^item> \<open>Prelude\<close>: words, \<^verbatim>\<open>std::map\<close> as an ordered list of pairs, grouping, decimal text;
    the contracts \<open>ordered_map\<close> and \<open>injective_step\<close> (a fold that forgets neither its state nor
    an input).
  \<^item> \<open>Double\<close>: IEEE 754 binary64 as 64-bit patterns with correctly rounded arithmetic, the C++
    comparisons, \<^verbatim>\<open>std::max\<close>, \<^verbatim>\<open>std::floor\<close> and \<^verbatim>\<open>std::llround\<close>. Lemmas: rounding
    is monotone and exact on representable values, and what follows for sums of non-negative values,
    quotients in the unit interval and scaling by a fraction.
  \<^item> \<open>Identity\<close> (\<^verbatim>\<open>config.hpp\<close>, \<^verbatim>\<open>identity.hpp\<close>): 128-bit identities with phantom tags,
    their bytes, text and order; generations. Lemmas: byte and text round trips.
  \<^item> \<open>Kinds\<close> (\<^verbatim>\<open>provenance.hpp\<close>, \<^verbatim>\<open>unit.hpp\<close>, \<^verbatim>\<open>resource.hpp\<close>,
    \<^verbatim>\<open>event_kind.hpp\<close>): the enumerations, their names and wire values, and quantities.
  \<^item> \<open>Entry\<close> (\<^verbatim>\<open>authority.hpp\<close>, \<^verbatim>\<open>ledger_entry.hpp\<close>, \<^verbatim>\<open>ledger_entry.cpp\<close>): the
    entry record, its equality, the derived identity.
  \<^item> \<open>Codec\<close> (\<^verbatim>\<open>codec.hpp\<close>, \<^verbatim>\<open>codec.cpp\<close>): byte writer and reader, CRC-32, the entry
    frame. The contract \<open>byte_format\<close> (what a writer wrote its reader reads back, whatever follows)
    is interpreted for every field type. Lemmas: round trip, unambiguity, detection of a changed
    byte, soundness of what is accepted, and when the decoder leaves its buffer.
  \<^item> \<open>Cursor\<close>, \<open>Wire\<close> (\<^verbatim>\<open>codec.hpp\<close>, and its use in \<^verbatim>\<open>codec.cpp\<close> and \<^verbatim>\<open>protocol.cpp\<close>): the reader and the
    writer as objects with a position and an error flag, and entries and messages through them. The
    contract \<open>cursor\<close> (a method implements a function on the bytes that are left and stays inside its
    buffer) is interpreted for every method; \<open>flagged_cursor\<close> adds what the error flag says.
  \<^item> \<open>Authority\<close> (\<^verbatim>\<open>authority_state.hpp\<close>): the fence and its specification.
  \<^item> \<open>Ledger\<close> (\<^verbatim>\<open>ledger.hpp\<close>): the ledger with its index. The contract \<open>append_log\<close> says
    what a log of admissible entries with unique keys promises; the ledger is an interpretation of
    it, and the abstract log is \<open>keep_first\<close>. Every method holds one mutex, so calls are atomic and
    concurrency is the order of calls.
  \<^item> \<open>Persistence\<close> (\<^verbatim>\<open>persistence.hpp\<close>, \<^verbatim>\<open>persistence.cpp\<close>): fingerprint, saving,
    appending, loading, replaying, over a disk whose device may stop accepting bytes anywhere.
    Lemmas: round trip, crash safety, soundness of loading, replay.
  \<^item> \<open>Protocol\<close> (\<^verbatim>\<open>protocol.hpp\<close>, \<^verbatim>\<open>protocol.cpp\<close>): messages, frames, the send and
    receive loops. The contract \<open>byte_stream\<close> is what TCP promises a reader; \<open>tcp_recv\<close>, a wire with an
    arbitrary schedule of piece sizes, is its interpretation.
  \<^item> \<open>Typing\<close>: the type of what the decoders let in: every delivered message is well typed, whatever bytes
    arrived, and what of it the encoder would refuse.
  \<^item> \<open>Coordinator\<close> (\<^verbatim>\<open>coordinator.hpp\<close>, \<^verbatim>\<open>coordinator.cpp\<close>): the coordinator's threads as
    interleaved steps on one state; a step is a section under one lock. The contract
    \<open>accounting_invariant\<close> reduces an invariant of all interleavings to the five sections that change
    the ledger or the authority. Lemmas: reachable states, fencing across worker loss, draining the
    queue at shutdown, and that the steps of the accounting thread implement the handlers.
  \<^item> \<open>Epochs\<close>: the abstract machine the coordinator refines, a log that only takes entries of its current
    epoch. The contract \<open>simulation\<close> carries invariants of the abstract machine over; it gives that a
    ledger is ordered by epoch.
  \<^item> \<open>Account\<close> (\<^verbatim>\<open>request_account.hpp\<close>, \<^verbatim>\<open>request_account.cpp\<close>): reconciling a
    request. The loop's locals are grouped into records with one step function each, so the loop is
    a product of folds. Lemmas: attempts are independent, the winner, non-negative times, peaks.
  \<^item> \<open>Pricing\<close>, \<open>Query\<close>, \<open>Batch\<close> (the headers and sources of those names): costs and the
    policy store; filtering, grouping and aggregates; attribution and batch accounts.
  \<^item> \<open>Restart\<close>: nothing computed from entries depends on what the file format drops.
  \<^item> \<open>Console\<close>, \<open>Exact\<close>: what the programs use of the standard library (exits, numbers as text and
    back, lines), and that doubles represent small natural numbers and dyadic fractions exactly.
  \<^item> \<open>Worker\<close> (\<^verbatim>\<open>tools/iledger_worker.cpp\<close>): the worker program. The contract \<open>duplex\<close> joins
    \<open>byte_stream\<close> and \<open>byte_sink\<close> (what TCP promises a writer); in it the loops of the worker, which
    may wait forever, are shown to end when they are served.
  \<^item> \<open>Deployment\<close> (\<^verbatim>\<open>tools/iledger_coordinator.cpp\<close>): the coordinator program, and the two
    programs talking to each other: what the worker writes is what the coordinator handles, and what
    it answers is what the worker prints. Shutting down: what is saved, and what is not.
  \<^item> \<open>Isolation\<close>: what a worker sees of the coordinator. The contract \<open>view_partition\<close> (steps of others
    respect a view, own steps depend on it only) gives that every interleaving answers each worker as
    if it were alone; the coordinator's handlers are its interpretation.
  \<^item> \<open>Session\<close>, \<open>Scenario\<close>, \<open>Multiprocess\<close> (\<^verbatim>\<open>tools/iledger_multiprocess.cpp\<close>): a well-behaved
    worker is served; every answer in the end-to-end scenario with a worker lost and restarted, for
    every interleaving; and the program that drives it, which passes.
  \<^item> \<open>Cli\<close> (\<^verbatim>\<open>tools/iledger_cli.cpp\<close>, \<^verbatim>\<open>src/unit.cpp\<close>): the command line interface with its
    output and exits: which arguments crash it, which policy files it reads, and that a copied ledger
    gives the same reports.
  \<^item> \<open>Handles\<close>, \<open>Sockets\<close> (the set-up half of \<^verbatim>\<open>protocol.cpp\<close>), \<open>Processes\<close> (starting, feeding and killing
    children in \<^verbatim>\<open>tools/iledger_multiprocess.cpp\<close>): what is open and who owns it; a step relation of
    programs that listen, accept, connect and close; and every path of the program through its
    children's pipes, processes and threads.
  \<^item> \<open>Single\<close>, \<open>Kernels\<close>, \<open>Cuda\<close> (\<^verbatim>\<open>cuda/inference_cuda_proof.cu\<close>): IEEE 754 binary32 with bounds on the
    error of each operation; the kernels and the host's reference, for any order of the threads and
    any contraction of products with additions, and that they agree within the tolerance; the
    entries, accounts and verdict of the program, and \<^verbatim>\<open>main\<close> with every call of the runtime.
  \<^item> \<open>Durations\<close>, \<open>Magnitude\<close>: seconds of a duration as exact fractions, accounts of few attempts; upper
    bounds that survive rounding, and that a cost of ordinary size is finite and reconciles.
  \<^item> \<open>Examples\<close> (\<^verbatim>\<open>examples/examples.cpp\<close>, \<^verbatim>\<open>downstream/consumer.cpp\<close>): the walk-through and the
    check of an installed library, with everything they print.
  \<^item> \<open>Benchmark\<close> (\<^verbatim>\<open>tools/iledger_benchmark.cpp\<close>): all operations over one set of entries, for any
    clock and any schedule of the threads that append concurrently.
  \<^item> This theory: properties across components: what survives a restart, and that retries cannot
    change an account.

  \<^bold>\<open>Modelling choices\<close>

  Failure is a value: an error text, \<^term>\<open>None\<close>, or an outcome of its own where the code would
  read outside a buffer, dereference null or an empty optional, or let an exception leave
  \<^verbatim>\<open>main\<close>. Loops are folds or functions with a termination proof (the length of the remaining
  input, the time left to wait); the two loops of the worker that a peer can keep running are partial
  functions, and that they end is proved for a peer that answers. No fuel is used. The ledger's
  pointer to its authority is an address, read in a store at each append. The result of
  \<^verbatim>\<open>std::llround\<close> outside 64 bits is a parameter of the accounting functions. Platform dependent
  I/O is a parameter: which paths open, how many bytes fit, how many bytes the kernel takes or
  delivers, whether listening succeeds, which processes start and what they have printed when, the
  clock and the scheduler of the benchmark, the outcome of each call of the CUDA runtime, the order
  in which GPU threads run and which floating point operations a compiler contracts.

  \<^bold>\<open>Not modelled\<close>

  What the operating system and the CUDA runtime do inside their calls, the text a console shows
  beyond the lines written to it, and the tests (clients of the library that hold no logic of the
  system).
\<close>

section \<open>Properties across components\<close>

text \<open>C5: The ledger of a coordinator survives a restart: for any reachable coordinator whose entries
  fit the file format, saving its snapshot and replaying the file into an empty ledger succeed, and
  the rebuilt ledger holds equal entries in the same order, with the same fingerprint.\<close>

theorem ledger_survives_restart:
  assumes "reachable i c" "list_all encodable (snapshot (co_ledger c))"
    and "dv_openable dev p" "28 + length (frames_of (snapshot (co_ledger c))) \<le> dv_room dev p"
  shows "\<exists>d' l. save_snapshot dev d (snapshot (co_ledger c)) i p = (Inr (), d') \<and>
    replay_into d' None (ledger_new i) p = Some (Inr (), l) \<and> ledger_inv l \<and>
    list_all2 entry_eq (snapshot l) (snapshot (co_ledger c)) \<and>
    ledger_fingerprint (snapshot l) = ledger_fingerprint (snapshot (co_ledger c))"
proof -
  have "ledger_inv (co_ledger c)" using fence.reachable [OF assms(1)] by (simp add: fenced_def)
  from restart [OF this assms(2-4)] show ?thesis
    using normalized_equal [OF assms(2)] ledger_fingerprint_normalize by metis
qed

theorem ledger_survives_restart_witness:
  "\<exists>d' l. save_snapshot plenty Map.empty [sample_start] program_ledger ''l'' = (Inr (), d') \<and>
    replay_into d' None (ledger_new program_ledger) ''l'' = Some (Inr (), l) \<and> ledger_inv l \<and>
    list_all2 entry_eq (snapshot l) [sample_start] \<and>
    ledger_fingerprint (snapshot l) = ledger_fingerprint [sample_start]"
  using ledger_survives_restart [OF reachable.step [OF sample_queued_reachable sample_accepted_step],
      of plenty "''l''" Map.empty]
  by (simp add: sample_accepted sample_start_encodable plenty_def)

text \<open>C6: Accounting is reproducible from the file: after a save and a replay into a new ledger, every
  query yields, for every request and under every pricing policy, the same account and the same
  cost, bit for bit, as before.\<close>

theorem accounts_survive_restart:
  assumes "ledger_inv l" "list_all encodable (snapshot l)"
    and "dv_openable dev p" "28 + length (frames_of (snapshot l)) \<le> dv_room dev p"
  shows "\<exists>d' l'. save_snapshot dev d (snapshot l) i p = (Inr (), d') \<and>
    replay_into d' None (ledger_new i) p = Some (Inr (), l') \<and>
    (\<forall>u q r policy.
       reconcile_request u (query_ledger (snapshot l') q) r =
         reconcile_request u (query_ledger (snapshot l) q) r \<and>
       apply_pricing (reconcile_request u (query_ledger (snapshot l') q) r) policy =
         apply_pricing (reconcile_request u (query_ledger (snapshot l) q) r) policy)"
proof -
  obtain d' l' where l': "save_snapshot dev d (snapshot l) i p = (Inr (), d')"
      "replay_into d' None (ledger_new i) p = Some (Inr (), l')"
      "snapshot l' = map normalize_entry (snapshot l)"
    using restart [OF assms] by blast
  have "reconcile_request u (query_ledger (snapshot l') q) r =
      reconcile_request u (query_ledger (snapshot l) q) r" for u q r
    by (simp add: l'(3) query_normalize reconcile_normalize)
  with l'(1,2) show ?thesis by auto
qed

theorem accounts_survive_restart_witness:
  "\<exists>d' l'. save_snapshot plenty Map.empty (snapshot (co_ledger sample_accepted)) (Id128 0 1) ''l'' = (Inr (), d') \<and>
    replay_into d' None (ledger_new (Id128 0 1)) ''l'' = Some (Inr (), l') \<and>
    reconcile_request (\<lambda>_. 0) (query_ledger (snapshot l') query_default) (Id128 0 3) =
      reconcile_request (\<lambda>_. 0) (query_ledger (snapshot (co_ledger sample_accepted)) query_default) (Id128 0 3)"
proof -
  have "ledger_inv (co_ledger sample_accepted)"
    using fence.reachable [OF reachable.step [OF sample_queued_reachable sample_accepted_step]]
    by (simp add: fenced_def)
  moreover have "list_all encodable (snapshot (co_ledger sample_accepted))" "dv_openable plenty ''l''"
      "28 + length (frames_of (snapshot (co_ledger sample_accepted))) \<le> dv_room plenty ''l''"
    by (simp_all add: sample_accepted sample_start_encodable plenty_def)
  ultimately show ?thesis
    using accounts_survive_restart [of "co_ledger sample_accepted" plenty "''l''" Map.empty "Id128 0 1"]
    by blast
qed

text \<open>Retries cannot change an account: delivering again events that were delivered before, in any
  order and number, leaves the result of every query and so every request account as it was.\<close>

theorem retries_keep_accounts:
  assumes "ledger_inv l" "set fs \<subseteq> set es"
  shows "reconcile_request u (query_ledger (snapshot (append_all auth l (es @ fs))) q) r =
    reconcile_request u (query_ledger (snapshot (append_all auth l es)) q) r"
  using log.run_replayed [OF assms, of auth] by (simp add: append_all_foldl)

theorem retries_keep_accounts_witness:
  "reconcile_request (\<lambda>_. 0) (query_ledger (snapshot (append_all None (ledger_new (Id128 0 1))
      ([entry_default] @ [entry_default, entry_default]))) query_default) (Id128 0 1) =
   reconcile_request (\<lambda>_. 0) (query_ledger (snapshot (append_all None (ledger_new (Id128 0 1))
      [entry_default])) query_default) (Id128 0 1)"
  by (rule retries_keep_accounts [OF ledger_inv_new]) simp

end
